(* ===== verification/Prelude.thy ===== *)
theory Prelude
  imports Main "HOL-Library.Word" "HOL-Library.Char_ord"
begin

text \<open>
  The facts every component shares.  Go's \<open>int64\<close> and \<open>uint64\<close> are 64-bit words: \<open>+\<close>
  and \<open>-\<close> wrap around as they do in Go, and a signed comparison is \<open><s\<close> or \<open>\<le>s\<close>.  The
  proofs read a signed word through \<open>sint\<close>; the collection \<open>i64_simps\<close> turns signed
  comparisons into comparisons of integers, and the lemmas below say when word
  arithmetic is integer arithmetic.  The list lemmas are the ones the ring, the
  reservation store and the report need.
\<close>

named_theorems i64_simps
  \<comment> \<open>signed comparisons and constants of 64-bit words, read as integers\<close>

section \<open>64-bit integers\<close>

type_synonym i64 = "64 word"
type_synonym u64 = "64 word"

abbreviation max_int64 :: int where
  "max_int64 \<equiv> 9223372036854775807"

abbreviation min_int64 :: int where
  "min_int64 \<equiv> -9223372036854775808"

text \<open>Go's constant \<open>math.MaxInt64\<close> and the largest estimate, \<open>math.MaxInt64/2\<close>.\<close>

definition MaxInt64 :: i64 where
  "MaxInt64 = 9223372036854775807"

definition MaxEstimate :: i64 where
  "MaxEstimate = 4611686018427387903"

lemma sint_MaxInt64 [i64_simps]: "sint MaxInt64 = max_int64"
  by (simp add: MaxInt64_def)

lemma sint_MaxEstimate [i64_simps]: "sint MaxEstimate = 4611686018427387903"
  by (simp add: MaxEstimate_def)

lemmas word_order_sint [i64_simps] = word_sless_alt word_sle_eq

lemma sint_zero_i64 [i64_simps]: "sint (0 :: i64) = 0"
  by simp

lemma sint_upper: "sint (w :: i64) \<le> max_int64"
  using sint_lt [of w] by simp

lemma sint_lower: "min_int64 \<le> sint (w :: i64)"
  using sint_ge [of w] by simp

lemma sint_word_of_int_i64:
  assumes "min_int64 \<le> x" and "x \<le> max_int64"
  shows "sint (word_of_int x :: i64) = x"
  using assms by (simp add: signed_take_bit_int_eq_self sint_sbintrunc')

text \<open>Addition, subtraction and negation that do not leave the range are exact.\<close>

lemma sint_add_i64:
  assumes "min_int64 \<le> sint a + sint b" and "sint a + sint b \<le> max_int64"
  shows "sint ((a :: i64) + b) = sint a + sint b"
  using assms by (simp add: sint_word_add signed_take_bit_int_eq_self)

lemma sint_add_wraps:
  assumes "max_int64 < sint a + sint b"
  shows "sint ((a :: i64) + b) = sint a + sint b - 2 ^ 64"
proof -
  have "(word_of_int (2 ^ 64) :: i64) = 0" by simp
  then have eq: "a + b = word_of_int (sint a + sint b - 2 ^ 64)" by (simp del: word_of_int_power_hom)
  show ?thesis
    unfolding eq using assms sint_upper [of a] sint_upper [of b] by (intro sint_word_of_int_i64) simp_all
qed

lemma sint_diff_i64:
  assumes "min_int64 \<le> sint a - sint b" and "sint a - sint b \<le> max_int64"
  shows "sint ((a :: i64) - b) = sint a - sint b"
  using assms by (simp add: sint_word_diff signed_take_bit_int_eq_self)

lemma sint_uminus_i64:
  assumes "0 \<le> sint b"
  shows "sint (- (b :: i64)) = - sint b"
  using assms sint_upper [of b] by (simp add: sint_word_minus signed_take_bit_int_eq_self)

text \<open>Subtracting a negative number from the largest integer wraps to a negative one.\<close>

lemma sint_max_minus_negative:
  assumes "sint (u :: i64) < 0"
  shows "sint (MaxInt64 - u) < 0"
proof -
  have "MaxInt64 - u = word_of_int (max_int64 - sint u)"
    by (simp add: MaxInt64_def of_int_sint)
  also have "\<dots> = (word_of_int (max_int64 - sint u - 18446744073709551616) :: i64)"
    by (simp add: word_of_int_eq_iff take_bit_eq_mod mod_simps)
  finally have "MaxInt64 - u = word_of_int (- sint u - 9223372036854775809)"
    by simp
  moreover have "sint (word_of_int (- sint u - 9223372036854775809) :: i64)
      = - sint u - 9223372036854775809"
    using assms sint_lower [of u] by (intro sint_word_of_int_i64) simp_all
  ultimately have "sint (MaxInt64 - u) = - sint u - 9223372036854775809"
    by (simp only:)
  then show ?thesis
    using sint_lower [of u] by linarith
qed

text \<open>A non-negative counter can be subtracted from the largest integer.\<close>

lemma sint_max_minus:
  assumes "0 \<le> sint (u :: i64)"
  shows "sint (MaxInt64 - u) = max_int64 - sint u"
  using assms sint_upper [of u] by (subst sint_diff_i64) (simp_all add: i64_simps)

text \<open>Clamping at zero, Go's \<open>if x < 0 { x = 0 }\<close> and \<open>max(x, 0)\<close>.\<close>

definition clamp0 :: "i64 \<Rightarrow> i64" where
  "clamp0 x = (if x <s 0 then 0 else x)"

lemma sint_clamp0 [i64_simps]: "sint (clamp0 x) = max 0 (sint x)"
  by (simp add: clamp0_def i64_simps)

lemma clamp0_nonneg [simp]: "0 \<le> sint (clamp0 x)"
  by (simp add: i64_simps)

lemma clamp0_id [simp]: "0 \<le> sint x \<Longrightarrow> clamp0 x = x"
  by (simp add: clamp0_def i64_simps)

lemma sint_eq_iff: "sint (a :: i64) = sint b \<longleftrightarrow> a = b"
  by (auto intro: signed_word_eqI)

lemma clamp0_zero_or_pos: "clamp0 a = 0 \<or> 0 <s clamp0 a"
  using sint_eq_iff [of "clamp0 a" 0] by (auto simp: i64_simps)

section \<open>Lists\<close>

text \<open>The sum of a list in which one entry changes, over any abelian group.\<close>

lemma sum_list_upd:
  fixes xs :: "'a :: ab_group_add list"
  assumes "i < length xs"
  shows "sum_list (xs[i := v]) = sum_list xs - xs ! i + v"
  using assms
proof (induction xs arbitrary: i)
  case Nil
  then show ?case by simp
next
  case (Cons x xs)
  then show ?case by (cases i) (simp_all add: algebra_simps)
qed

lemma sum_list_map_upd:
  fixes f :: "'b \<Rightarrow> 'a :: ab_group_add"
  assumes "i < length xs"
  shows "sum_list (map f (xs[i := v])) = sum_list (map f xs) - f (xs ! i) + f v"
  using assms by (simp add: map_update sum_list_upd)

lemma sum_list_nonneg_int:
  "(\<And>x. x \<in> set xs \<Longrightarrow> 0 \<le> f x) \<Longrightarrow> 0 \<le> sum_list (map f xs :: int list)"
  by (induction xs) auto

lemma member_le_sum_list_int:
  fixes f :: "'b \<Rightarrow> int"
  assumes "x \<in> set xs" and "\<And>y. y \<in> set xs \<Longrightarrow> 0 \<le> f y"
  shows "f x \<le> sum_list (map f xs)"
  using assms
proof (induction xs)
  case Nil
  then show ?case by simp
next
  case (Cons y ys)
  have "0 \<le> sum_list (map f ys)"
    using Cons.prems(2) by (intro sum_list_nonneg_int) auto
  moreover have "0 \<le> f y" using Cons.prems(2) by simp
  ultimately show ?case using Cons by fastforce
qed

text \<open>An element of an updated list is the new value or an old element.\<close>

lemma set_update_cases: "x \<in> set (xs[i := v]) \<Longrightarrow> x = v \<or> x \<in> set xs"
  using set_update_subset_insert [of xs i v] by auto

end
