(* ===== verification/GoStd.thy ===== *)
theory GoStd
  imports Prelude
begin

text \<open>
  The functions of Go's standard library that the code calls on strings:
  \<open>strconv.ParseInt(s, 10, 64)\<close>, \<open>strconv.FormatInt(n, 10)\<close>, \<open>strings.TrimSpace\<close>,
  \<open>strings.TrimPrefix\<close> and \<open>strings.Split\<close>.  A Go string is its list of bytes, so a
  character outside ASCII is the two or three bytes of its UTF-8 encoding.
\<close>

section \<open>Decimal integers\<close>

definition is_digit :: "char \<Rightarrow> bool" where
  "is_digit c \<longleftrightarrow> CHR ''0'' \<le> c \<and> c \<le> CHR ''9''"

definition digit_val :: "char \<Rightarrow> nat" where
  "digit_val c = of_char c - 48"

definition digit_char :: "nat \<Rightarrow> char" where
  "digit_char d = char_of (48 + d)"

lemma digit_char_props:
  assumes "d < 10"
  shows "is_digit (digit_char d)" and "digit_val (digit_char d) = d"
    and "digit_char d \<noteq> CHR ''-''" and "digit_char d \<noteq> CHR ''+''"
proof -
  have "of_char (digit_char d) = 48 + d"
    using assms by (simp add: digit_char_def)
  then show "is_digit (digit_char d)" and "digit_val (digit_char d) = d"
    and "digit_char d \<noteq> CHR ''-''" and "digit_char d \<noteq> CHR ''+''"
    using assms by (auto simp: is_digit_def digit_val_def less_eq_char_def)
qed

definition digits_val :: "string \<Rightarrow> nat" where
  "digits_val s = fold (\<lambda>c n. 10 * n + digit_val c) s 0"

fun nat_digits :: "nat \<Rightarrow> string" where
  "nat_digits n =
     (if n < 10 then [digit_char n]
      else nat_digits (n div 10) @ [digit_char (n mod 10)])"

declare nat_digits.simps [simp del]

lemma nat_digits_all: "list_all is_digit (nat_digits n)"
proof (induction n rule: nat_digits.induct)
  case (1 n)
  then show ?case
    by (subst nat_digits.simps) (auto intro: digit_char_props)
qed

lemma digits_val_nat_digits [simp]: "digits_val (nat_digits n) = n"
proof (induction n rule: nat_digits.induct)
  case (1 n)
  then show ?case
    by (subst nat_digits.simps) (simp add: digits_val_def digit_char_props)
qed

lemma nat_digits_hd: "\<exists>c cs. nat_digits n = c # cs \<and> c \<noteq> CHR ''-'' \<and> c \<noteq> CHR ''+''"
proof (induction n rule: nat_digits.induct)
  case (1 n)
  then show ?case
    by (subst nat_digits.simps) (auto simp: digit_char_props)
qed

text \<open>
  \<open>ParseInt\<close>: an optional sign, then at least one digit and nothing but digits, and the
  value must fit 64 bits.  Go accumulates in a \<open>uint64\<close> with an overflow test; the model
  reads the digits as an unbounded number and tests the range once.
\<close>

definition strip_sign :: "string \<Rightarrow> bool \<times> string" where
  "strip_sign s =
     (case s of
        [] \<Rightarrow> (False, [])
      | c # cs \<Rightarrow> if c = CHR ''+'' then (False, cs)
                  else if c = CHR ''-'' then (True, cs) else (False, s))"

definition parse_int :: "string \<Rightarrow> i64 option" where
  "parse_int s =
     (let (neg, ds) = strip_sign s; n = digits_val ds in
      if ds = [] \<or> \<not> list_all is_digit ds then None
      else if \<not> neg \<and> 2 ^ 63 \<le> n then None
      else if neg \<and> 2 ^ 63 < n then None
      else Some (word_of_int (if neg then - int n else int n)))"

definition format_int :: "i64 \<Rightarrow> string" where
  "format_int w =
     (if w <s 0 then CHR ''-'' # nat_digits (nat (- sint w)) else nat_digits (nat (sint w)))"

text \<open>Printing then parsing gives the number back, over the whole range.\<close>

lemma parse_format_int [simp]: "parse_int (format_int w) = Some w"
proof (cases "sint w < 0")
  case True
  obtain c cs where c: "nat_digits (nat (- sint w)) = c # cs"
    using nat_digits_hd by blast
  have "digits_val (c # cs) = nat (- sint w)"
    using digits_val_nat_digits [of "nat (- sint w)"] c by simp
  moreover have "list_all is_digit (c # cs)"
    using nat_digits_all [of "nat (- sint w)"] c by simp
  ultimately show ?thesis
    using True sint_lower [of w] c
    by (simp add: parse_int_def format_int_def strip_sign_def i64_simps nat_le_iff Let_def)
next
  case False
  obtain c cs where c: "nat_digits (nat (sint w)) = c # cs"
      "c \<noteq> CHR ''-''" "c \<noteq> CHR ''+''"
    using nat_digits_hd by blast
  have "digits_val (c # cs) = nat (sint w)"
    using digits_val_nat_digits [of "nat (sint w)"] c by simp
  moreover have "list_all is_digit (c # cs)"
    using nat_digits_all [of "nat (sint w)"] c by simp
  ultimately show ?thesis
    using False sint_upper [of w] c
    by (simp add: parse_int_def format_int_def strip_sign_def i64_simps le_nat_iff Let_def)
qed

lemma format_int_inj: "format_int a = format_int b \<longleftrightarrow> a = b"
  by (metis option.inject parse_format_int)

lemma format_int_nonempty [simp]: "format_int w \<noteq> []"
  using nat_digits_hd by (auto simp: format_int_def) (metis list.discI)+

section \<open>Trimming\<close>

text \<open>
  The UTF-8 encodings of the characters that \<open>unicode.IsSpace\<close> accepts: the ASCII
  spaces, U+0085, U+00A0, U+1680, U+2000 to U+200A, U+2028, U+2029, U+202F, U+205F and
  U+3000.
\<close>

definition space_codes :: "nat list list" where
  "space_codes =
     [[9], [10], [11], [12], [13], [32], [194, 133], [194, 160], [225, 154, 128],
      [226, 128, 128], [226, 128, 129], [226, 128, 130], [226, 128, 131], [226, 128, 132],
      [226, 128, 133], [226, 128, 134], [226, 128, 135], [226, 128, 136], [226, 128, 137],
      [226, 128, 138], [226, 128, 168], [226, 128, 169], [226, 128, 175], [226, 129, 159],
      [227, 128, 128]]"

definition spaces :: "string list" where
  "spaces = map (map char_of) space_codes"

text \<open>Strips members of a list of non-empty strings off the front, as long as one fits.\<close>

definition strip_one :: "string list \<Rightarrow> string \<Rightarrow> string option" where
  "strip_one ps s =
     map_option (\<lambda>p. drop (length p) s)
       (List.find (\<lambda>p. p \<noteq> [] \<and> take (length p) s = p) ps)"

lemma strip_one_shorter: "strip_one ps s = Some t \<Longrightarrow> length t < length s"
  by (cases s) (auto simp: strip_one_def find_Some_iff)

function strip_all :: "string list \<Rightarrow> string \<Rightarrow> string" where
  "strip_all ps s = (case strip_one ps s of None \<Rightarrow> s | Some t \<Rightarrow> strip_all ps t)"
  by pat_completeness auto
termination
  by (relation "measure (\<lambda>(ps, s). length s)") (auto dest: strip_one_shorter)

declare strip_all.simps [simp del]

lemma strip_all_fixed: "strip_one ps (strip_all ps s) = None"
proof (induction ps s rule: strip_all.induct)
  case (1 ps s)
  then show ?case
    by (cases "strip_one ps s") (simp_all add: strip_all.simps [of ps s])
qed

lemma strip_all_length: "length (strip_all ps s) \<le> length s"
proof (induction ps s rule: strip_all.induct)
  case (1 ps s)
  show ?case
  proof (cases "strip_one ps s")
    case None
    then show ?thesis by (simp add: strip_all.simps [of ps s])
  next
    case (Some t)
    then show ?thesis
      using 1 strip_one_shorter [OF Some] by (simp add: strip_all.simps [of ps s])
  qed
qed

definition trim_space :: "string \<Rightarrow> string" where
  "trim_space s = rev (strip_all (map rev spaces) (rev (strip_all spaces s)))"

lemma strip_all_suffix: "\<exists>u. s = u @ strip_all ps s"
proof (induction ps s rule: strip_all.induct)
  case (1 ps s)
  show ?case
  proof (cases "strip_one ps s")
    case None
    then show ?thesis by (simp add: strip_all.simps [of ps s])
  next
    case (Some t)
    then obtain n where "t = drop n s" unfolding strip_one_def by blast
    then have "s = take n s @ t" by simp
    moreover obtain u where "t = u @ strip_all ps t" using 1 Some by blast
    ultimately have "s = (take n s @ u) @ strip_all ps s"
      using Some by (metis append.assoc option.simps(5) strip_all.simps)
    then show ?thesis by blast
  qed
qed

lemma strip_one_prefix: "strip_one ps (y @ z) = None \<Longrightarrow> strip_one ps y = None"
  by (auto simp: strip_one_def find_None_iff)

lemma trim_space_idem [simp]: "trim_space (trim_space s) = trim_space s"
proof -
  let ?x = "strip_all spaces s" and ?rs = "map rev spaces"
  obtain u where "rev ?x = u @ strip_all ?rs (rev ?x)" using strip_all_suffix by blast
  then have "?x = trim_space s @ rev u" by (metis rev_append rev_rev_ident trim_space_def)
  then have "strip_one spaces (trim_space s) = None" using strip_all_fixed [of spaces s] strip_one_prefix by metis
  then have "strip_all spaces (trim_space s) = trim_space s" by (simp add: strip_all.simps)
  moreover have "strip_all ?rs (rev (trim_space s)) = rev (trim_space s)"
    using strip_all_fixed [of ?rs "rev ?x"] by (simp add: trim_space_def strip_all.simps [of _ "strip_all _ _"])
  ultimately show ?thesis by (simp add: trim_space_def [of "trim_space s"])
qed

definition trim_prefix :: "string \<Rightarrow> string \<Rightarrow> string" where
  "trim_prefix p s = (if take (length p) s = p then drop (length p) s else s)"

section \<open>Splitting\<close>

text \<open>\<open>strings.Split(s, c)\<close> for a one-byte separator: never the empty list.\<close>

fun split_on :: "char \<Rightarrow> string \<Rightarrow> string list" where
  "split_on d [] = [[]]"
| "split_on d (c # cs) =
     (if c = d then [] # split_on d cs
      else (case split_on d cs of [] \<Rightarrow> [[c]] | w # ws \<Rightarrow> (c # w) # ws))"

text \<open>\<open>strings.Join(ws, c)\<close> for a one-byte separator.\<close>

fun join_with :: "char \<Rightarrow> string list \<Rightarrow> string" where
  "join_with d [] = []"
| "join_with d [w] = w"
| "join_with d (w # ws) = w @ d # join_with d ws"

lemma split_on_nonempty [simp]: "split_on d s \<noteq> []"
  by (induction s) (auto split: list.splits)

lemma join_split [simp]: "join_with d (split_on d s) = s"
proof (induction s)
  case Nil
  then show ?case by simp
next
  case (Cons c cs)
  obtain w ws where w: "split_on d cs = w # ws"
    by (cases "split_on d cs") simp_all
  with Cons show ?case
    by (cases ws) auto
qed

lemma split_on_no_sep: "w \<in> set (split_on d s) \<Longrightarrow> d \<notin> set w"
  by (induction s arbitrary: w) (auto split: if_splits list.splits)

lemma split_on_no_dot: "d \<notin> set w \<Longrightarrow> split_on d w = [w]"
  by (induction w) auto

lemma split_on_append: "d \<notin> set w \<Longrightarrow> split_on d (w @ d # s) = w # split_on d s"
  by (induction w) auto

lemma split_join:
  "ws \<noteq> [] \<Longrightarrow> list_all (\<lambda>w. d \<notin> set w) ws \<Longrightarrow> split_on d (join_with d ws) = ws"
  by (induction d ws rule: join_with.induct) (auto simp: split_on_no_dot split_on_append)

lemma parse_int_no_number:
  "\<not> is_digit (hd s) \<Longrightarrow> hd s \<noteq> CHR ''+'' \<Longrightarrow> hd s \<noteq> CHR ''-'' \<Longrightarrow> parse_int s = None"
  by (cases s) (simp_all add: parse_int_def strip_sign_def)

end
