(* ===== verification/Errors.thy ===== *)
theory Errors
  imports GoStd
begin

text \<open>
  Go's errors and contexts as the code uses them (\<open>errors.go\<close>, and the standard packages
  \<open>errors\<close>, \<open>fmt\<close> and \<open>context\<close>).  A function that returns \<open>error\<close> returns a
  \<open>gerr option\<close>, with \<open>None\<close> for \<open>nil\<close>; one that returns a value and an error returns
  a sum with the error on the left.
\<close>

section \<open>Error values\<close>

text \<open>
  The package-level error variables: the six of \<open>errors.go\<close>, and the two of the
  runtime budget policy in \<open>nexssflow/storage_backend.go\<close>.
\<close>

datatype sentinel =
    ErrNilContext
  | ErrBudgetExceeded
  | ErrValidation
  | ErrInvalidEstimate
  | ErrInvalidCost
  | ErrReservationNotFound
  | ErrRuntimePolicyMissing
  | ErrRuntimePolicyInvalid

text \<open>What \<open>ctx.Err()\<close> returns on a context that is done.\<close>

datatype ctx_error = Canceled | DeadlineExceeded

text \<open>
  \<open>ErrorsNew\<close> is \<open>errors.New\<close>, and \<open>fmt.Errorf\<close> without \<open>%w\<close>; \<open>Errorf\<close> keeps the
  format string and its arguments, and an error among them is one that \<open>%w\<close> wraps;
  \<open>ErrorsJoin\<close> is \<open>errors.Join\<close>; \<open>External\<close> is an error that a driver, a service or
  the guarded action returned.
\<close>

datatype gerr =
    Sentinel sentinel
  | CtxErr ctx_error
  | ValidationError string i64
  | ErrorsNew string
  | Errorf string "fmt_arg list"
  | ErrorsJoin "gerr list"
  | External string
and fmt_arg =
    FInt i64
  | FStr string
  | FErr gerr

text \<open>\<open>(*ValidationError).Unwrap\<close>: the field decides which sentinel is behind the error.\<close>

definition validation_unwrap :: "string \<Rightarrow> sentinel" where
  "validation_unwrap field =
     (if field = ''estimate_micros'' then ErrInvalidEstimate
      else if field = ''cost_micros'' then ErrInvalidCost
      else ErrValidation)"

text \<open>\<open>(*ValidationError).Error\<close>: the text \<open>cost: invalid FIELD: VALUE\<close>.\<close>

definition validation_error_text :: "string \<Rightarrow> i64 \<Rightarrow> string" where
  "validation_error_text field value =
     ''cost: invalid '' @ field @ '': '' @ format_int value"

text \<open>\<open>errors.Is(e, t)\<close> for a sentinel \<open>t\<close>: the tree of wrapped errors is searched.\<close>

fun errors_is :: "gerr \<Rightarrow> sentinel \<Rightarrow> bool"
  and arg_is :: "fmt_arg \<Rightarrow> sentinel \<Rightarrow> bool"
where
  "errors_is (Sentinel s) t = (s = t)"
| "errors_is (CtxErr _) t = False"
| "errors_is (ValidationError f _) t = (validation_unwrap f = t)"
| "errors_is (ErrorsNew _) t = False"
| "errors_is (Errorf _ args) t = list_ex (\<lambda>a. arg_is a t) args"
| "errors_is (ErrorsJoin es) t = list_ex (\<lambda>e. errors_is e t) es"
| "errors_is (External _) t = False"
| "arg_is (FInt _) t = False"
| "arg_is (FStr _) t = False"
| "arg_is (FErr e) t = errors_is e t"

abbreviation invalid_estimate :: "i64 \<Rightarrow> gerr" where
  "invalid_estimate v \<equiv> ValidationError ''estimate_micros'' v"

abbreviation invalid_cost :: "i64 \<Rightarrow> gerr" where
  "invalid_cost v \<equiv> ValidationError ''cost_micros'' v"

lemma validation_unwrap_simps [simp]:
  "validation_unwrap ''estimate_micros'' = ErrInvalidEstimate"
  "validation_unwrap ''cost_micros'' = ErrInvalidCost"
  by (simp_all add: validation_unwrap_def)

section \<open>Contexts\<close>

text \<open>
  A \<open>context.Context\<close> argument: the nil interface, or a context and what its \<open>Err()\<close>
  answers at the time it is asked.
\<close>

datatype gctx = NilCtx | Ctx "ctx_error option"

abbreviation background :: gctx where
  "background \<equiv> Ctx None"

text \<open>
  The two checks that open every operation: \<open>if ctx == nil\<close>, then \<open>ctx.Err()\<close>.
\<close>

definition ctx_check :: "gctx \<Rightarrow> gerr option" where
  "ctx_check c =
     (case c of
        NilCtx \<Rightarrow> Some (Sentinel ErrNilContext)
      | Ctx (Some e) \<Rightarrow> Some (CtxErr e)
      | Ctx None \<Rightarrow> None)"

lemma ctx_check_simps [simp]:
  "ctx_check NilCtx = Some (Sentinel ErrNilContext)"
  "ctx_check (Ctx (Some e)) = Some (CtxErr e)"
  "ctx_check (Ctx None) = None"
  by (simp_all add: ctx_check_def)

lemma ctx_check_None: "ctx_check c = None \<longleftrightarrow> c = background"
  by (auto simp: ctx_check_def split: gctx.splits option.splits)

text \<open>
  \<open>context.WithTimeout(context.WithoutCancel(ctx), t)\<close>: a context that carries the values
  of \<open>ctx\<close> and is not done when it is made, whatever the state of \<open>ctx\<close>.
\<close>

definition accounting_ctx :: "gctx \<Rightarrow> gctx" where
  "accounting_ctx c = background"

section \<open>Properties\<close>

text \<open>An error wrapped \<open>n\<close> times by \<open>fmt.Errorf("%w", err)\<close>.\<close>

fun wrap_times :: "nat \<Rightarrow> gerr \<Rightarrow> gerr" where
  "wrap_times 0 e = e"
| "wrap_times (Suc n) e = Errorf ''%w'' [FErr (wrap_times n e)]"

lemma errors_is_wrap_times [simp]: "errors_is (wrap_times n e) t = errors_is e t"
  by (induction n) simp_all

text \<open>
  A validation error is its sentinel under \<open>errors.Is\<close>, also when it is wrapped
  any number of times: an estimate error is \<open>ErrInvalidEstimate\<close>, a cost error is
  \<open>ErrInvalidCost\<close>, every other field is \<open>ErrValidation\<close>, and none is anything else.
\<close>

theorem validation_error_is:
  "errors_is (wrap_times n (ValidationError field v)) t \<longleftrightarrow>
     t = (if field = ''estimate_micros'' then ErrInvalidEstimate
          else if field = ''cost_micros'' then ErrInvalidCost else ErrValidation)"
  by (auto simp: validation_unwrap_def)

end
