(* ===== verification/Currency.thy ===== *)
theory Currency
  imports Errors
begin

text \<open>
  \<open>currency.go\<close>: the three-byte currency code, its text form, and the parser that the
  configuration goes through.  A \<open>[3]byte\<close> is three characters; a receiver of pointer
  type is an option, with \<open>None\<close> for the nil pointer.
\<close>

section \<open>The code\<close>

datatype currency = Currency char char char

definition USD :: currency where "USD = Currency CHR ''U'' CHR ''S'' CHR ''D''"
definition EUR :: currency where "EUR = Currency CHR ''E'' CHR ''U'' CHR ''R''"
definition GBP :: currency where "GBP = Currency CHR ''G'' CHR ''B'' CHR ''P''"
definition PLN :: currency where "PLN = Currency CHR ''P'' CHR ''L'' CHR ''N''"
definition TOK :: currency where "TOK = Currency CHR ''T'' CHR ''O'' CHR ''K''"

text \<open>The zero value \<open>Currency{}\<close>, three zero bytes.\<close>

definition empty_currency :: currency where
  "empty_currency = Currency (CHR 0x00) (CHR 0x00) (CHR 0x00)"

fun currency_string :: "currency \<Rightarrow> string" where
  "currency_string (Currency a b c) = [a, b, c]"

definition marshal_text :: "currency \<Rightarrow> gerr + string" where
  "marshal_text c =
     (if c = empty_currency then Inl (ErrorsNew ''cost: empty currency'')
      else Inr (currency_string c))"

text \<open>The loop over the bytes: the first one outside \<open>A\<close> to \<open>Z\<close> is an error.\<close>

fun check_letters :: "string \<Rightarrow> gerr option" where
  "check_letters [] = None"
| "check_letters (ch # cs) =
     (if ch < CHR ''A'' \<or> CHR ''Z'' < ch
      then Some (ErrorsNew ''cost: currency must contain uppercase ASCII letters'')
      else check_letters cs)"

text \<open>\<open>copy(c[:], b)\<close> for a slice of three bytes.\<close>

definition copy3 :: "string \<Rightarrow> currency" where
  "copy3 b = Currency (b ! 0) (b ! 1) (b ! 2)"

text \<open>The error returned and what the receiver points to afterwards.\<close>

definition unmarshal_text :: "currency option \<Rightarrow> string \<Rightarrow> gerr option \<times> currency option" where
  "unmarshal_text c b =
     (case c of
        None \<Rightarrow> (Some (ErrorsNew ''cost: nil Currency pointer''), None)
      | Some old \<Rightarrow>
          if length b \<noteq> 3
          then (Some (Errorf ''cost: currency must be exactly 3 bytes, got %d''
                       [FInt (of_nat (length b))]), Some old)
          else (case check_letters b of
                  Some e \<Rightarrow> (Some e, Some old)
                | None \<Rightarrow> (None, Some (copy3 b))))"

section \<open>Lemmas\<close>

definition upper_letter :: "char \<Rightarrow> bool" where
  "upper_letter ch \<longleftrightarrow> CHR ''A'' \<le> ch \<and> ch \<le> CHR ''Z''"

lemma check_letters_None: "check_letters s = None \<longleftrightarrow> list_all upper_letter s"
  by (induction s) (auto simp: upper_letter_def)

lemma check_letters_Some: "check_letters s = Some e \<Longrightarrow> \<not> list_all upper_letter s"
  by (metis check_letters_None option.discI)

lemma length_3_conv: "length b = 3 \<longleftrightarrow> (\<exists>x y z. b = [x, y, z])"
  by (auto simp: numeral_3_eq_3 length_Suc_conv)

lemma currency_string_copy3 [simp]: "length b = 3 \<Longrightarrow> currency_string (copy3 b) = b"
  by (auto simp: length_3_conv copy3_def)

lemma copy3_currency_string [simp]: "copy3 (currency_string c) = c"
  by (cases c) (simp add: copy3_def)

lemma length_currency_string [simp]: "length (currency_string c) = 3"
  by (cases c) simp

lemma currency_string_inj [simp]: "currency_string a = currency_string b \<longleftrightarrow> a = b"
  by (cases a; cases b) simp

lemma upper_letter_nonzero: "upper_letter ch \<Longrightarrow> ch \<noteq> CHR 0x00"
  by (auto simp: upper_letter_def less_eq_char_def)

definition valid_code :: "string \<Rightarrow> bool" where
  "valid_code b \<longleftrightarrow> length b = 3 \<and> list_all upper_letter b"

lemma copy3_nonempty: "valid_code b \<Longrightarrow> copy3 b \<noteq> empty_currency"
  by (auto simp: valid_code_def length_3_conv copy3_def empty_currency_def
      dest: upper_letter_nonzero)

section \<open>Properties\<close>

text \<open>
  \<open>UnmarshalText\<close> accepts exactly the three-byte strings of upper-case ASCII letters.
  On acceptance the receiver is the currency whose text form, by \<open>MarshalText\<close> and by
  \<open>String\<close>, is the input; on rejection an error is returned and the receiver keeps its
  value.
\<close>

theorem unmarshal_text_roundtrip:
  "(fst (unmarshal_text (Some old) b) = None) = valid_code b
   \<and> snd (unmarshal_text (Some old) b) = Some (if valid_code b then copy3 b else old)
   \<and> (if valid_code b then marshal_text (copy3 b) = Inr b \<and> currency_string (copy3 b) = b
      else True)"
proof (cases "valid_code b")
  case True
  then have "check_letters b = None" and "length b = 3" and "copy3 b \<noteq> empty_currency"
    by (simp_all add: valid_code_def copy3_nonempty check_letters_None)
  then show ?thesis
    using True by (simp add: unmarshal_text_def marshal_text_def)
next
  case False
  then show ?thesis
    by (auto simp: unmarshal_text_def valid_code_def iff: check_letters_None dest: check_letters_Some
        split: option.splits)
qed

text \<open>
  A currency that \<open>UnmarshalText\<close> produced survives the trip through its text form:
  \<open>MarshalText\<close> followed by \<open>UnmarshalText\<close> into any receiver gives it back.  The five
  currencies the package declares are such.
\<close>

theorem marshal_text_roundtrip:
  assumes "list_all upper_letter (currency_string c)" and "marshal_text c = Inr b"
  shows "unmarshal_text (Some old) b = (None, Some c)"
  using assms
  by (auto simp: marshal_text_def unmarshal_text_def iff: check_letters_None dest: check_letters_Some
      split: if_splits option.splits)

theorem marshal_text_roundtrip_witness:
  "list_all (\<lambda>c. unmarshal_text (Some empty_currency) (currency_string c) = (None, Some c))
     [USD, EUR, GBP, PLN, TOK]"
proof -
  have go: "unmarshal_text (Some empty_currency) (currency_string c) = (None, Some c)"
    if "list_all upper_letter (currency_string c)" "c \<noteq> empty_currency" for c
    using marshal_text_roundtrip [of c "currency_string c" empty_currency] that
    by (simp add: marshal_text_def)
  have "list_all (\<lambda>c. list_all upper_letter (currency_string c) \<and> c \<noteq> empty_currency)
      [USD, EUR, GBP, PLN, TOK]"
    by (simp add: USD_def EUR_def GBP_def PLN_def TOK_def upper_letter_def
        empty_currency_def less_eq_char_def)
  then show ?thesis
    by (simp only: list.pred_inject go simp_thms)
qed

end
