(* ===== verification/Reserver.thy ===== *)
theory Reserver
  imports Currency
begin

text \<open>
  The backend-neutral contract: \<open>entry.go\<close> (the event), \<open>reserver.go\<close> (the interfaces
  \<open>Reserver\<close> and \<open>Reservation\<close>) and \<open>testkit/contract.go\<close> (the scenario every adapter has
  to pass).  An interface value is the record of its methods; each method takes the state
  of the backend and returns it.  A \<open>Reservation\<close> is a handle into that state.
  The guarantees of the contract are the locales: \<open>reserver_contract\<close> is what a client
  may rely on when calls can fail and leases can expire, \<open>prompt_reserver\<close> adds what a
  backend does when nothing fails.
\<close>

section \<open>Events\<close>

text \<open>\<open>Event\<close>; a zero \<open>time.Time\<close> is \<open>None\<close>.\<close>

record event =
  ev_id :: string
  ev_domain :: string
  ev_operation :: string
  ev_cost :: i64
  ev_currency :: currency
  ev_time :: "int option"

section \<open>The interfaces\<close>

record ('s, 'h) reserver =
  Reserve :: "gctx \<Rightarrow> i64 \<Rightarrow> 's \<Rightarrow> (gerr + 'h) \<times> 's"
  RecordEvent :: "gctx \<Rightarrow> event \<Rightarrow> 's \<Rightarrow> gerr option \<times> 's"
  Commit :: "'h \<Rightarrow> gctx \<Rightarrow> i64 \<Rightarrow> 's \<Rightarrow> gerr option \<times> 's"
  Release :: "'h \<Rightarrow> gctx \<Rightarrow> 's \<Rightarrow> gerr option \<times> 's"

section \<open>The contract test of the test kit\<close>

text \<open>
  \<open>RunContract\<close>: the message of the \<open>Fatal\<close> that stops the test, or \<open>None\<close> when the
  backend passes.  \<open>s\<close> is the state \<open>newBackend\<close> made, with a limit of 100.
\<close>

definition run_contract :: "('s, 'h) reserver \<Rightarrow> 's \<Rightarrow> string option" where
  "run_contract R s =
     (case Reserve R background 100 s of
        (Inl e, _) \<Rightarrow> Some ''unexpected reserve error''
      | (Inr reservation, s) \<Rightarrow>
     (case Commit R reservation background 40 s of
        (Some e, _) \<Rightarrow> Some ''unexpected commit error''
      | (None, s) \<Rightarrow>
     (case Commit R reservation background 90 s of
        (Some e, _) \<Rightarrow> Some ''expected commit idempotency''
      | (None, s) \<Rightarrow>
     (case Reserve R background 61 s of
        (Inr _, _) \<Rightarrow> Some ''expected budget rejection when limit exceeded''
      | (Inl e, s) \<Rightarrow>
     (case Reserve R background 20 s of
        (Inl e, _) \<Rightarrow> Some ''unexpected reserve error''
      | (Inr toRelease, s) \<Rightarrow>
     (case Release R toRelease background s of
        (Some e, _) \<Rightarrow> Some ''unexpected release error''
      | (None, s) \<Rightarrow>
     (case Release R toRelease background s of
        (Some e, _) \<Rightarrow> Some ''expected release idempotency''
      | (None, s) \<Rightarrow> None)))))))"

section \<open>The contract\<close>

text \<open>
  \<open>used\<close> is the budget in use, \<open>limit\<close> the configured limit (negative for none),
  \<open>held s h\<close> the amount that the open reservation \<open>h\<close> holds, and \<open>finished s h\<close> says
  that a terminal operation of \<open>h\<close> has succeeded.  A successful commit is only promised
  to account correctly when the new total is at most \<open>cap\<close>, the largest total that the
  arithmetic of the backend counts exactly: an \<open>int64\<close>, or less where it uses doubles.
\<close>

locale reserver_contract =
  fixes R :: "('s, 'h) reserver"
    and inv :: "'s \<Rightarrow> bool"
    and used :: "'s \<Rightarrow> int"
    and limit :: "'s \<Rightarrow> int"
    and held :: "'s \<Rightarrow> 'h \<Rightarrow> int option"
    and finished :: "'s \<Rightarrow> 'h \<Rightarrow> bool"
    and cap :: int
  assumes reserve_ok:
      "inv s \<Longrightarrow> Reserve R c e s = (Inr h, s') \<Longrightarrow>
         inv s' \<and> c = background \<and> 0 \<le> sint e \<and> held s' h = Some (sint e)
         \<and> used s' \<le> used s + sint e \<and> (0 \<le> limit s \<longrightarrow> used s' \<le> limit s)"
    and reserve_err:
      "inv s \<Longrightarrow> Reserve R c e s = (Inl x, s') \<Longrightarrow> inv s' \<and> used s' \<le> used s"
    and commit_ok:
      "inv s \<Longrightarrow> held s h = Some r \<Longrightarrow> Commit R h c a s = (None, s') \<Longrightarrow>
         used s - r + max 0 (sint a) \<le> cap \<Longrightarrow>
         inv s' \<and> finished s' h \<and> held s' h = None \<and> used s' \<le> used s - r + max 0 (sint a)"
    and commit_err:
      "inv s \<Longrightarrow> Commit R h c a s = (Some x, s') \<Longrightarrow> inv s' \<and> used s' \<le> used s"
    and release_ok:
      "inv s \<Longrightarrow> held s h = Some r \<Longrightarrow> Release R h c s = (None, s') \<Longrightarrow>
         inv s' \<and> finished s' h \<and> held s' h = None \<and> used s' \<le> used s - r"
    and release_err:
      "inv s \<Longrightarrow> Release R h c s = (Some x, s') \<Longrightarrow> inv s' \<and> used s' \<le> used s"
    and finished_commit: "finished s h \<Longrightarrow> Commit R h background a s = (None, s)"
    and finished_release: "finished s h \<Longrightarrow> Release R h background s = (None, s)"
    and limit_fixed:
      "inv s \<Longrightarrow> Reserve R c e s = (res, s') \<Longrightarrow> limit s' = limit s"
      "inv s \<Longrightarrow> Commit R h c a s = (err, s') \<Longrightarrow> limit s' = limit s"
      "inv s \<Longrightarrow> Release R h c s = (err, s') \<Longrightarrow> limit s' = limit s"
    and record_neutral:
      "inv s \<Longrightarrow> RecordEvent R c ev s = (err, s') \<Longrightarrow>
         inv s' \<and> used s' = used s \<and> limit s' = limit s
         \<and> held s' h = held s h \<and> finished s' h = finished s h"
begin

text \<open>A commit within the estimate, or a release, never raises the usage.\<close>

lemma commit_within_estimate:
  assumes "inv s" and "held s h = Some r" and "Commit R h c a s = (None, s')"
    and "sint a \<le> r" and "0 \<le> r" and "used s \<le> cap"
  shows "used s' \<le> used s"
proof -
  have "used s - r + max 0 (sint a) \<le> used s"
    using assms(4,5) by simp
  then show ?thesis
    using commit_ok [OF assms(1-3)] assms(6) by linarith
qed

text \<open>Reserving and then releasing gives the whole amount back.\<close>

lemma reserve_release_restores:
  assumes "inv s" and "Reserve R c e s = (Inr h, s1)" and "Release R h d s1 = (None, s2)"
  shows "used s2 \<le> used s \<and> finished s2 h"
  using reserve_ok [OF assms(1,2)] release_ok [of s1 h "sint e" d s2] assms(3) by force

end

text \<open>
  What holds in addition when no call fails and no lease is expired.  That a commit beyond
  the limit succeeds is not promised: the ledgers accept it, a prepaid wallet does not.
\<close>

locale prompt_reserver = reserver_contract +
  assumes reserve_prompt:
      "inv s \<Longrightarrow> 0 < sint e \<Longrightarrow> sint e \<le> sint MaxEstimate \<Longrightarrow>
         used s + sint e \<le> cap \<Longrightarrow> 0 \<le> limit s \<Longrightarrow> used s + sint e \<le> limit s \<Longrightarrow>
         \<exists>h s'. Reserve R background e s = (Inr h, s') \<and> used s' = used s + sint e"
    and reserve_denied:
      "inv s \<Longrightarrow> 0 < sint e \<Longrightarrow> sint e \<le> sint MaxEstimate \<Longrightarrow>
         used s + sint e \<le> cap \<Longrightarrow> 0 \<le> limit s \<Longrightarrow> limit s < used s + sint e \<Longrightarrow>
         \<exists>x s'. Reserve R background e s = (Inl x, s') \<and> errors_is x ErrBudgetExceeded
           \<and> used s' = used s"
    and commit_prompt:
      "inv s \<Longrightarrow> held s h = Some r \<Longrightarrow> 0 < r \<Longrightarrow>
         used s - r + max 0 (sint a) \<le> cap \<Longrightarrow>
         (0 \<le> limit s \<longrightarrow> used s - r + max 0 (sint a) \<le> limit s) \<Longrightarrow>
         \<exists>s'. Commit R h background a s = (None, s') \<and> used s' = used s - r + max 0 (sint a)"
    and release_prompt:
      "inv s \<Longrightarrow> held s h = Some r \<Longrightarrow> 0 < r \<Longrightarrow>
         \<exists>s'. Release R h background s = (None, s') \<and> used s' = used s - r"
begin

text \<open>Every such backend, fresh and with a limit of 100, passes the contract test.\<close>

lemma run_contract_passes:
  assumes "inv s" and "used s = 0" and "limit s = 100" and "101 \<le> cap"
  shows "run_contract R s = None"
proof -
  have r100: "sint (100 :: i64) = 100" and r40: "sint (40 :: i64) = 40"
    and r61: "sint (61 :: i64) = 61" and r20: "sint (20 :: i64) = 20"
    by simp_all
  note nums = r100 r40 r61 r20 sint_MaxEstimate
  obtain h s1 where 1: "Reserve R background 100 s = (Inr h, s1)" "used s1 = 100"
    using reserve_prompt [of s 100] assms by (auto simp: nums)
  have i1: "inv s1" "held s1 h = Some 100"
    using reserve_ok [OF assms(1) 1(1)] by (simp_all add: nums)
  obtain s2 where 2: "Commit R h background 40 s1 = (None, s2)" "used s2 = 40"
    using commit_prompt [of s1 h 100 40] i1 1(2) limit_fixed(1) [OF assms(1) 1(1)] assms(3,4) by (auto simp: nums)
  have i2: "inv s2" "finished s2 h"
    using commit_ok [OF i1(1,2) 2(1)] 1(2) assms(4) by (simp_all add: nums)
  have 3: "Commit R h background 90 s2 = (None, s2)"
    using i2(2) by (rule finished_commit)
  have l2: "limit s2 = 100"
    using limit_fixed(1) [OF assms(1) 1(1)] limit_fixed(2) [OF i1(1) 2(1)] assms(3) by simp
  obtain x s4 where 4: "Reserve R background 61 s2 = (Inl x, s4)" "used s4 = 40"
    using reserve_denied [of s2 61] i2(1) l2 2(2) assms(4) by (auto simp: nums)
  have i4: "inv s4" "limit s4 = 100"
    using reserve_err [OF i2(1) 4(1)] limit_fixed(1) [OF i2(1) 4(1)] l2 by simp_all
  obtain k s5 where 5: "Reserve R background 20 s4 = (Inr k, s5)" "used s5 = 60"
    using reserve_prompt [of s4 20] i4 4(2) assms(4) by (auto simp: nums)
  have i5: "inv s5" "held s5 k = Some 20"
    using reserve_ok [OF i4(1) 5(1)] by (simp_all add: nums)
  obtain s6 where 6: "Release R k background s5 = (None, s6)"
    using release_prompt [of s5 k 20] i5 by auto
  have "finished s6 k"
    using release_ok [OF i5(1,2) 6] by simp
  then have 7: "Release R k background s6 = (None, s6)"
    by (rule finished_release)
  show ?thesis
    by (simp add: run_contract_def 1 2 3 4 5 6 7)
qed

end

end
