(* ===== verification/LocalLedger.thy ===== *)
theory LocalLedger
  imports Reserver
begin

text \<open>
  \<open>ledger.go\<close> and \<open>reservation.go\<close>: the in-process ledger, one operation at a time.  The
  state is the ledger, the reservations it has handed out (a pointer is an index into
  their list) and the clock.  The compare-and-swap loop of \<open>Reserve\<close> is kept as a loop:
  it takes what the other goroutines do to the counter between its load and its swap.
  The interleaving of whole goroutines is in \<open>LocalConcurrency\<close>.
\<close>

section \<open>State\<close>

abbreviation ring_capacity :: nat where
  "ring_capacity \<equiv> 1024"

record ledger =
  lg_currency :: currency
  lg_limit :: i64
  lg_used :: i64
  lg_spent :: i64
  lg_head :: u64
  lg_entries :: "event list"

record local_reservation =
  lr_reserved :: i64
  lr_done :: bool

record local_state =
  ls_ledger :: ledger
  ls_reservations :: "local_reservation list"
  ls_now :: int

text \<open>The zero \<open>Event\<close> that fills a fresh ring.\<close>

definition zero_event :: event where
  "zero_event = \<lparr>ev_id = [], ev_domain = [], ev_operation = [], ev_cost = 0,
     ev_currency = empty_currency, ev_time = None\<rparr>"

definition NewLedger :: "i64 \<Rightarrow> currency \<Rightarrow> ledger" where
  "NewLedger limit c = \<lparr>lg_currency = c, lg_limit = limit, lg_used = 0, lg_spent = 0,
     lg_head = 0, lg_entries = replicate ring_capacity zero_event\<rparr>"

definition new_local :: "i64 \<Rightarrow> currency \<Rightarrow> int \<Rightarrow> local_state" where
  "new_local limit c now = \<lparr>ls_ledger = NewLedger limit c, ls_reservations = [], ls_now = now\<rparr>"

section \<open>Reserve\<close>

text \<open>
  The two checks on a loaded counter: the overflow guard, then the limit.  All of the
  arithmetic is on 64-bit words.
\<close>

definition reserve_check :: "ledger \<Rightarrow> i64 \<Rightarrow> i64 \<Rightarrow> gerr option" where
  "reserve_check l used estimate =
     (if MaxInt64 - used <s estimate
      then Some (Errorf ''%w: overflow prevented used=%d estimate=%d''
             [FErr (Sentinel ErrBudgetExceeded), FInt used, FInt estimate])
      else if 0 \<le>s lg_limit l \<and> lg_limit l - estimate <s used
      then Some (Errorf ''%w: used=%d estimate=%d limit=%d''
             [FErr (Sentinel ErrBudgetExceeded), FInt used, FInt estimate, FInt (lg_limit l)])
      else None)"

text \<open>
  One element of the schedule per round of the loop: the counter as the other goroutines
  leave it before the swap, and what \<open>ctx.Err()\<close> says if the swap fails.  After the last
  element the others leave the counter alone.
\<close>

record interference =
  if_used :: i64
  if_ctx :: "ctx_error option"

fun reserve_loop :: "interference list \<Rightarrow> i64 \<Rightarrow> ledger \<Rightarrow> (gerr + unit) \<times> ledger" where
  "reserve_loop [] estimate l =
     (let used = lg_used l in
      case reserve_check l used estimate of
        Some e \<Rightarrow> (Inl e, l)
      | None \<Rightarrow> (Inr (), l\<lparr>lg_used := used + estimate\<rparr>))"
| "reserve_loop (i # is) estimate l =
     (let used = lg_used l in
      case reserve_check l used estimate of
        Some e \<Rightarrow> (Inl e, l)
      | None \<Rightarrow>
          let l = l\<lparr>lg_used := if_used i\<rparr> in
          if lg_used l = used then (Inr (), l\<lparr>lg_used := used + estimate\<rparr>)
          else (case if_ctx i of
                  Some e \<Rightarrow> (Inl (CtxErr e), l)
                | None \<Rightarrow> reserve_loop is estimate l))"

definition ledger_reserve ::
  "interference list \<Rightarrow> gctx \<Rightarrow> i64 \<Rightarrow> local_state \<Rightarrow> (gerr + nat) \<times> local_state" where
  "ledger_reserve is ctx estimate s =
     (case ctx_check ctx of
        Some e \<Rightarrow> (Inl e, s)
      | None \<Rightarrow>
          if estimate <s 0 \<or> MaxEstimate <s estimate
          then (Inl (invalid_estimate estimate), s)
          else (case reserve_loop is estimate (ls_ledger s) of
                  (Inl e, l) \<Rightarrow> (Inl e, s\<lparr>ls_ledger := l\<rparr>)
                | (Inr _, l) \<Rightarrow>
                    (Inr (length (ls_reservations s)),
                     s\<lparr>ls_ledger := l, ls_reservations := ls_reservations s @
                          [\<lparr>lr_reserved = estimate, lr_done = False\<rparr>]\<rparr>)))"

section \<open>Commit and Release\<close>

text \<open>
  A handle beyond the list is a pointer that was never handed out; using it is a panic
  in Go and an \<open>External\<close> error here.  Every theorem below is about handles that exist.
\<close>

definition local_commit :: "nat \<Rightarrow> gctx \<Rightarrow> i64 \<Rightarrow> local_state \<Rightarrow> gerr option \<times> local_state" where
  "local_commit h ctx actual s =
     (if length (ls_reservations s) \<le> h then (Some (External ''nil pointer''), s)
      else case ctx_check ctx of
        Some e \<Rightarrow> (Some e, s)
      | None \<Rightarrow>
          let actual = (if actual <s 0 then 0 else actual);
              r = ls_reservations s ! h;
              l = ls_ledger s in
          if lr_done r then (None, s)
          else
            let l = l\<lparr>lg_used := lg_used l + (actual - lr_reserved r)\<rparr>;
                l = (if 0 <s actual then l\<lparr>lg_spent := lg_spent l + actual\<rparr> else l) in
            (None, s\<lparr>ls_ledger := l,
                     ls_reservations := (ls_reservations s)[h := r\<lparr>lr_done := True\<rparr>]\<rparr>))"

definition local_release :: "nat \<Rightarrow> gctx \<Rightarrow> local_state \<Rightarrow> gerr option \<times> local_state" where
  "local_release h ctx s =
     (if length (ls_reservations s) \<le> h then (Some (External ''nil pointer''), s)
      else case ctx_check ctx of
        Some e \<Rightarrow> (Some e, s)
      | None \<Rightarrow>
          let r = ls_reservations s ! h; l = ls_ledger s in
          if lr_done r then (None, s)
          else (None, s\<lparr>ls_ledger := l\<lparr>lg_used := lg_used l + (- lr_reserved r)\<rparr>,
                        ls_reservations := (ls_reservations s)[h := r\<lparr>lr_done := True\<rparr>]\<rparr>))"

section \<open>Record and Entries\<close>

text \<open>The event as it is stored: the ledger's currency and the time are filled in.\<close>

definition fill_currency :: "currency \<Rightarrow> event \<Rightarrow> event" where
  "fill_currency c ev = (if ev_currency ev = empty_currency then ev\<lparr>ev_currency := c\<rparr> else ev)"

definition fill_time :: "int \<Rightarrow> event \<Rightarrow> event" where
  "fill_time now ev = (if ev_time ev = None then ev\<lparr>ev_time := Some now\<rparr> else ev)"

definition ring_put :: "event \<Rightarrow> ledger \<Rightarrow> ledger" where
  "ring_put ev l = l\<lparr>lg_entries := (lg_entries l)[unat (lg_head l mod 1024) := ev],
                     lg_head := lg_head l + 1\<rparr>"

definition ledger_record :: "gctx \<Rightarrow> event \<Rightarrow> local_state \<Rightarrow> gerr option \<times> local_state" where
  "ledger_record ctx ev s =
     (case ctx_check ctx of
        Some e \<Rightarrow> (Some e, s)
      | None \<Rightarrow>
          if ev_cost ev \<le>s 0 then (Some (invalid_cost (ev_cost ev)), s)
          else
            let l = ls_ledger s; ev = fill_currency (lg_currency l) ev in
            if ev_currency ev \<noteq> lg_currency l
            then (Some (Errorf ''cost: currency mismatch: event=%s ledger=%s''
                    [FStr (currency_string (ev_currency ev)),
                     FStr (currency_string (lg_currency l))]), s)
            else (None, s\<lparr>ls_ledger := ring_put (fill_time (ls_now s) ev) l\<rparr>))"

definition ledger_entries :: "ledger \<Rightarrow> event list" where
  "ledger_entries l =
     (let count = min (lg_head l) 1024;
          start = lg_head l - count in
      map (\<lambda>i. lg_entries l ! unat ((start + of_nat i) mod 1024)) [0..<unat count])"

section \<open>The interface\<close>

text \<open>\<open>*Ledger\<close> as a \<open>Reserver\<close>, called by one goroutine.\<close>

definition local_ledger :: "(local_state, nat) reserver" where
  "local_ledger = \<lparr>Reserve = ledger_reserve [], RecordEvent = ledger_record,
     Commit = local_commit, Release = local_release\<rparr>"

lemma local_ledger_simps [simp]:
  "Reserve local_ledger = ledger_reserve []"
  "RecordEvent local_ledger = ledger_record"
  "Commit local_ledger = local_commit"
  "Release local_ledger = local_release"
  by (simp_all add: local_ledger_def)

section \<open>Lemmas: the checks of Reserve\<close>

lemma reserve_check_denies:
  "reserve_check l u e = Some x \<Longrightarrow> errors_is x ErrBudgetExceeded"
  by (auto simp: reserve_check_def split: if_splits)

text \<open>A negative counter, which only an overflow can leave behind, denies everything.\<close>

lemma reserve_check_negative:
  assumes "sint u < 0" and "0 \<le> sint e"
  shows "reserve_check l u e \<noteq> None"
  using sint_max_minus_negative [OF assms(1)] assms(2)
  by (simp add: reserve_check_def i64_simps)

lemma reserve_check_None:
  assumes "0 \<le> sint e"
  shows "reserve_check l u e = None \<longleftrightarrow>
    0 \<le> sint u \<and> sint u + sint e \<le> max_int64
    \<and> (0 \<le> sint (lg_limit l) \<longrightarrow> sint u + sint e \<le> sint (lg_limit l))"
proof (cases "sint u < 0")
  case True
  then show ?thesis
    using reserve_check_negative [OF True assms] by simp
next
  case False
  then have m: "sint (MaxInt64 - u) = max_int64 - sint u"
    by (intro sint_max_minus) simp
  have d: "0 \<le> sint (lg_limit l) \<Longrightarrow> sint (lg_limit l - e) = sint (lg_limit l) - sint e"
    using assms sint_upper [of "lg_limit l"] sint_upper [of e] by (intro sint_diff_i64) simp_all
  show ?thesis
  proof (cases "0 \<le> sint (lg_limit l)")
    case True
    then show ?thesis
      using False m d [OF True] by (auto simp: reserve_check_def i64_simps)
  next
    case nolimit: False
    then show ?thesis
      using False m by (auto simp: reserve_check_def i64_simps)
  qed
qed

section \<open>Lemmas: the loop under interference\<close>

lemma reserve_check_used [simp]: "reserve_check (l\<lparr>lg_used := v\<rparr>) u e = reserve_check l u e"
  by (simp add: reserve_check_def)

lemma reserve_loop_ok:
  "reserve_loop is e l = (Inr r, l') \<Longrightarrow>
     \<exists>u. reserve_check l u e = None \<and> l' = l\<lparr>lg_used := u + e\<rparr>
       \<and> (u = lg_used l \<or> u \<in> if_used ` set is)"
proof (induction "is" arbitrary: l)
  case Nil
  then show ?case
    by (auto simp: Let_def split: option.splits)
next
  case (Cons i "is")
  show ?case
  proof (cases "if_used i = lg_used l")
    case True
    with Cons.prems show ?thesis
      by (auto simp: Let_def split: option.splits)
  next
    case False
    with Cons.prems have "reserve_loop is e (l\<lparr>lg_used := if_used i\<rparr>) = (Inr r, l')"
      by (auto simp: Let_def split: option.splits)
    from Cons.IH [OF this] show ?thesis by auto
  qed
qed

lemma reserve_loop_err:
  "reserve_loop is e l = (Inl x, l') \<Longrightarrow>
     \<exists>u. l' = l\<lparr>lg_used := u\<rparr> \<and> (u = lg_used l \<or> u \<in> if_used ` set is)"
proof (induction "is" arbitrary: l)
  case Nil
  then show ?case
    by (auto simp: Let_def split: option.splits)
next
  case (Cons i "is")
  show ?case
  proof (cases "reserve_check l (lg_used l) e = None \<and> if_used i \<noteq> lg_used l \<and> if_ctx i = None")
    case True
    with Cons.prems have "reserve_loop is e (l\<lparr>lg_used := if_used i\<rparr>) = (Inl x, l')"
      by (auto simp: Let_def)
    from Cons.IH [OF this] show ?thesis by auto
  next
    case False
    have "l' = l \<or> l' = l\<lparr>lg_used := if_used i\<rparr>"
      using False Cons.prems by (auto simp: Let_def split: option.splits if_splits)
    then show ?thesis
    proof
      assume "l' = l"
      then have "l' = l\<lparr>lg_used := lg_used l\<rparr>" by simp
      then show ?thesis by blast
    qed auto
  qed
qed

section \<open>Invariant and abstraction\<close>

text \<open>
  The counter covers what the open reservations hold.  This is what a commit or a
  release needs so that the counter does not fall below zero.
\<close>

definition open_amount :: "local_reservation \<Rightarrow> int" where
  "open_amount r = (if lr_done r then 0 else sint (lr_reserved r))"

definition local_inv :: "local_state \<Rightarrow> bool" where
  "local_inv s \<longleftrightarrow>
     list_all (\<lambda>r. 0 \<le> sint (lr_reserved r)) (ls_reservations s)
     \<and> sum_list (map open_amount (ls_reservations s)) \<le> sint (lg_used (ls_ledger s))"

definition local_used :: "local_state \<Rightarrow> int" where
  "local_used s = sint (lg_used (ls_ledger s))"

definition local_limit :: "local_state \<Rightarrow> int" where
  "local_limit s = sint (lg_limit (ls_ledger s))"

definition local_held :: "local_state \<Rightarrow> nat \<Rightarrow> int option" where
  "local_held s h =
     (if h < length (ls_reservations s) \<and> \<not> lr_done (ls_reservations s ! h)
      then Some (sint (lr_reserved (ls_reservations s ! h))) else None)"

definition local_finished :: "local_state \<Rightarrow> nat \<Rightarrow> bool" where
  "local_finished s h \<longleftrightarrow>
     h < length (ls_reservations s) \<and> lr_done (ls_reservations s ! h)"

lemmas local_abs_defs = local_used_def local_limit_def local_held_def local_finished_def

lemma new_local_abs [simp]:
  "local_inv (new_local limit c now)" "local_used (new_local limit c now) = 0"
  "local_limit (new_local limit c now) = sint limit"
  "local_held (new_local limit c now) h = None"
  by (simp_all add: new_local_def NewLedger_def local_inv_def local_abs_defs)

lemma open_amount_nonneg:
  "local_inv s \<Longrightarrow> r \<in> set (ls_reservations s) \<Longrightarrow> 0 \<le> open_amount r"
  by (auto simp: local_inv_def open_amount_def list_all_iff)

lemma local_held_bounds:
  assumes "local_inv s" and "local_held s h = Some r"
  shows "0 \<le> r" and "r \<le> local_used s"
proof -
  let ?x = "ls_reservations s ! h"
  have x: "?x \<in> set (ls_reservations s)" "open_amount ?x = r"
    using assms(2) by (auto simp: local_held_def open_amount_def split: if_splits)
  show "0 \<le> r" using open_amount_nonneg [OF assms(1) x(1)] x(2) by simp
  have "open_amount ?x \<le> sum_list (map open_amount (ls_reservations s))"
    using open_amount_nonneg [OF assms(1)] x(1) by (intro member_le_sum_list_int) auto
  then show "r \<le> local_used s"
    using assms(1) x(2) by (simp add: local_inv_def local_used_def)
qed

text \<open>Each operation, once its guards are passed.\<close>

lemma ledger_reserve_Inr:
  assumes "ledger_reserve is c e s = (Inr h, s')"
  shows "\<exists>u. c = background \<and> 0 \<le> sint e \<and> sint e \<le> sint MaxEstimate
     \<and> reserve_check (ls_ledger s) u e = None \<and> h = length (ls_reservations s)
     \<and> s' = s\<lparr>ls_ledger := (ls_ledger s)\<lparr>lg_used := u + e\<rparr>,
              ls_reservations := ls_reservations s @ [\<lparr>lr_reserved = e, lr_done = False\<rparr>]\<rparr>
     \<and> (u = lg_used (ls_ledger s) \<or> u \<in> if_used ` set is)"
  using assms
  by (auto simp: ledger_reserve_def i64_simps ctx_check_None split: option.splits if_splits
      prod.splits sum.splits dest!: reserve_loop_ok)

lemma ledger_reserve_alone_Inl:
  assumes "ledger_reserve [] c e s = (Inl x, s')"
  shows "s' = s"
  using assms
  by (auto simp: ledger_reserve_def Let_def split: option.splits if_splits)

lemma local_commit_open:
  assumes "local_held s h = Some r"
  shows "local_commit h background a s =
    (None, s\<lparr>ls_ledger := (ls_ledger s)\<lparr>
        lg_used := lg_used (ls_ledger s) + (clamp0 a - lr_reserved (ls_reservations s ! h)),
        lg_spent := lg_spent (ls_ledger s) + clamp0 a\<rparr>,
      ls_reservations := (ls_reservations s)[h := (ls_reservations s ! h)\<lparr>lr_done := True\<rparr>]\<rparr>)"
proof -
  have "h < length (ls_reservations s)" and "\<not> lr_done (ls_reservations s ! h)"
    using assms by (auto simp: local_held_def split: if_splits)
  then show ?thesis
    using clamp0_zero_or_pos [of a] by (auto simp: local_commit_def Let_def clamp0_def)
qed

lemma local_release_open:
  assumes "local_held s h = Some r"
  shows "local_release h background s =
    (None, s\<lparr>ls_ledger := (ls_ledger s)\<lparr>
        lg_used := lg_used (ls_ledger s) + (- lr_reserved (ls_reservations s ! h))\<rparr>,
      ls_reservations := (ls_reservations s)[h := (ls_reservations s ! h)\<lparr>lr_done := True\<rparr>]\<rparr>)"
  using assms by (auto simp: local_held_def local_release_def Let_def split: if_splits)

lemma local_terminal_error:
  "local_commit h c a s = (Some x, s') \<Longrightarrow> s' = s"
  "local_release h c s = (Some x, s') \<Longrightarrow> s' = s"
  by (auto simp: local_commit_def local_release_def Let_def split: option.splits if_splits)

lemma local_terminal_ctx:
  "local_commit h c a s = (None, s') \<Longrightarrow> c = background"
  "local_release h c s = (None, s') \<Longrightarrow> c = background"
  by (auto simp: local_commit_def local_release_def ctx_check_None split: option.splits if_splits)

section \<open>The ledger meets the contract\<close>

lemma sum_open_close:
  assumes "local_held s h = Some r"
  shows "sum_list (map open_amount ((ls_reservations s)[h := (ls_reservations s ! h)\<lparr>lr_done := True\<rparr>]))
    = sum_list (map open_amount (ls_reservations s)) - r"
  using assms
  by (auto simp: local_held_def sum_list_map_upd open_amount_def split: if_splits)

lemma reserved_nonneg_close:
  assumes "local_inv s" and "local_held s h = Some r"
  shows "list_all (\<lambda>r. 0 \<le> sint (lr_reserved r))
    ((ls_reservations s)[h := (ls_reservations s ! h)\<lparr>lr_done := True\<rparr>])"
proof -
  have "h < length (ls_reservations s)"
    using assms(2) by (auto simp: local_held_def split: if_splits)
  then show ?thesis
    using assms(1) by (auto simp: local_inv_def list_all_iff dest!: set_update_cases)
qed

text \<open>The counter after a commit and after a release of an open reservation.\<close>

lemma commit_used:
  assumes "local_inv s" and "local_held s h = Some r"
    and "local_used s - r + max 0 (sint a) \<le> max_int64"
  shows "sint (lg_used (ls_ledger s) + (clamp0 a - lr_reserved (ls_reservations s ! h)))
    = local_used s - r + max 0 (sint a)"
proof -
  have r: "sint (lr_reserved (ls_reservations s ! h)) = r"
    using assms(2) by (auto simp: local_held_def split: if_splits)
  have b: "0 \<le> r" "r \<le> local_used s"
    using local_held_bounds [OF assms(1,2)] by simp_all
  have d: "sint (clamp0 a - lr_reserved (ls_reservations s ! h)) = max 0 (sint a) - r"
    using b r sint_upper [of a] sint_upper [of "lr_reserved (ls_reservations s ! h)"]
    by (subst sint_diff_i64) (simp_all add: i64_simps)
  show ?thesis
    using b assms(3) d by (subst sint_add_i64) (simp_all add: local_used_def)
qed

lemma release_used:
  assumes "local_inv s" and "local_held s h = Some r"
  shows "sint (lg_used (ls_ledger s) + (- lr_reserved (ls_reservations s ! h)))
    = local_used s - r"
  using commit_used [of s h r 0] assms sint_upper [of "lg_used (ls_ledger s)"]
    local_held_bounds [OF assms]
  by (simp add: clamp0_def local_used_def)

lemma local_commit_effect:
  assumes "local_inv s" and "local_held s h = Some r"
    and "local_used s - r + max 0 (sint a) \<le> max_int64"
    and "local_commit h background a s = (None, s')"
  shows "local_inv s' \<and> local_finished s' h \<and> local_held s' h = None
    \<and> local_used s' = local_used s - r + max 0 (sint a)"
proof -
  have h: "h < length (ls_reservations s)"
    using assms(2) by (auto simp: local_held_def split: if_splits)
  note s' = assms(4) [unfolded local_commit_open [OF assms(2)]]
  have u: "local_used s' = local_used s - r + max 0 (sint a)"
    using s' commit_used [OF assms(1-3)] by (auto simp: local_used_def)
  have "sum_list (map open_amount (ls_reservations s')) \<le> local_used s'"
    using s' u sum_open_close [OF assms(2)] assms(1)
    by (auto simp: local_inv_def local_used_def)
  moreover have "list_all (\<lambda>r. 0 \<le> sint (lr_reserved r)) (ls_reservations s')"
    using s' reserved_nonneg_close [OF assms(1,2)] by auto
  ultimately have "local_inv s'"
    by (simp add: local_inv_def local_used_def)
  moreover have "local_finished s' h" and "local_held s' h = None"
    using s' h by (auto simp: local_finished_def local_held_def)
  ultimately show ?thesis using u by simp
qed

lemma local_release_effect:
  assumes "local_inv s" and "local_held s h = Some r"
    and "local_release h background s = (None, s')"
  shows "local_inv s' \<and> local_finished s' h \<and> local_held s' h = None
    \<and> local_used s' = local_used s - r"
proof -
  have h: "h < length (ls_reservations s)"
    using assms(2) by (auto simp: local_held_def split: if_splits)
  note s' = assms(3) [unfolded local_release_open [OF assms(2)]]
  have u: "local_used s' = local_used s - r"
    using s' release_used [OF assms(1,2)] by (auto simp: local_used_def)
  have "sum_list (map open_amount (ls_reservations s')) \<le> local_used s'"
    using s' u sum_open_close [OF assms(2)] assms(1)
    by (auto simp: local_inv_def local_used_def)
  moreover have "list_all (\<lambda>r. 0 \<le> sint (lr_reserved r)) (ls_reservations s')"
    using s' reserved_nonneg_close [OF assms(1,2)] by auto
  ultimately have "local_inv s'"
    by (simp add: local_inv_def local_used_def)
  moreover have "local_finished s' h" and "local_held s' h = None"
    using s' h by (auto simp: local_finished_def local_held_def)
  ultimately show ?thesis using u by simp
qed

lemma local_reserve_effect:
  assumes "local_inv s" and "ledger_reserve [] c e s = (Inr h, s')"
  shows "local_inv s' \<and> c = background \<and> 0 \<le> sint e \<and> local_held s' h = Some (sint e)
    \<and> local_used s' = local_used s + sint e
    \<and> (0 \<le> local_limit s \<longrightarrow> local_used s' \<le> local_limit s)"
proof -
  from ledger_reserve_Inr [OF assms(2)] obtain u where
    e: "c = background" "0 \<le> sint e" and chk: "reserve_check (ls_ledger s) u e = None"
    and h: "h = length (ls_reservations s)"
    and s': "s' = s\<lparr>ls_ledger := (ls_ledger s)\<lparr>lg_used := u + e\<rparr>,
              ls_reservations := ls_reservations s @ [\<lparr>lr_reserved = e, lr_done = False\<rparr>]\<rparr>"
    and u: "u = lg_used (ls_ledger s)"
    by auto
  from chk e(2) have b: "0 \<le> sint u" "sint u + sint e \<le> max_int64"
    "0 \<le> local_limit s \<longrightarrow> sint u + sint e \<le> local_limit s"
    by (simp_all add: reserve_check_None local_limit_def)
  have "sint (u + e) = sint u + sint e"
    using b e(2) by (intro sint_add_i64) simp_all
  then show ?thesis
    using assms(1) e h s' u b
    by (simp add: local_inv_def local_held_def local_used_def open_amount_def)
qed

lemma reserve_loop_limit: "lg_limit (snd (reserve_loop is e l)) = lg_limit l"
  by (cases "reserve_loop is e l"; cases "fst (reserve_loop is e l)")
    (auto dest!: reserve_loop_ok reserve_loop_err)

lemma local_limit_fixed:
  "local_limit (snd (ledger_reserve is c e s)) = local_limit s"
  "local_limit (snd (local_commit h c a s)) = local_limit s"
  "local_limit (snd (local_release h c s)) = local_limit s"
  using reserve_loop_limit [of "is" e "ls_ledger s"]
  by (cases "reserve_loop is e (ls_ledger s)";
      simp add: ledger_reserve_def local_commit_def local_release_def Let_def local_limit_def
        split: option.split sum.split)+

lemma local_limit_fixed':
  "ledger_reserve is c e s = (res, s') \<Longrightarrow> local_limit s' = local_limit s"
  "local_commit h c a s = (err, s') \<Longrightarrow> local_limit s' = local_limit s"
  "local_release h c s = (err, s') \<Longrightarrow> local_limit s' = local_limit s"
  using local_limit_fixed(1) [of "is" c e s] local_limit_fixed(2) [of h c a s]
    local_limit_fixed(3) [of h c s] by simp_all

lemma ledger_record_neutral:
  assumes "ledger_record c ev s = (err, s')"
  shows "ls_reservations s' = ls_reservations s \<and> lg_used (ls_ledger s') = lg_used (ls_ledger s)
    \<and> lg_spent (ls_ledger s') = lg_spent (ls_ledger s)
    \<and> lg_limit (ls_ledger s') = lg_limit (ls_ledger s)"
  using assms
  by (auto simp: ledger_record_def ring_put_def Let_def split: option.splits if_splits)

interpretation local: reserver_contract
  local_ledger local_inv local_used local_limit local_held local_finished max_int64
proof (unfold_locales, goal_cases)
  case (1 s c e h s')
  then show ?case using local_reserve_effect [of s c e h s'] by auto
next
  case (2 s c e x s')
  then show ?case using ledger_reserve_alone_Inl [of c e s x s'] by simp
next
  case (3 s h r c a s')
  then show ?case
    using local_commit_effect [of s h r a s'] local_terminal_ctx(1) [of h c a s s'] by simp
next
  case (4 s h c a x s')
  then show ?case using local_terminal_error(1) [of h c a s x s'] by simp
next
  case (5 s h r c s')
  then show ?case
    using local_release_effect [of s h r s'] local_terminal_ctx(2) [of h c s s'] by simp
next
  case (6 s h c x s')
  then show ?case using local_terminal_error(2) [of h c s x s'] by simp
next
  case (7 s h a)
  then show ?case by (simp add: local_finished_def local_commit_def)
next
  case (8 s h)
  then show ?case by (simp add: local_finished_def local_release_def)
next
  case (12 s c ev err s' h)
  then show ?case
    using ledger_record_neutral [of c ev s err s'] by (simp add: local_inv_def local_abs_defs)
qed (simp_all add: local_limit_fixed')

text \<open>Alone, and with the budget left, no call fails.\<close>

lemma local_used_nonneg:
  assumes "local_inv s"
  shows "0 \<le> local_used s"
proof -
  have "0 \<le> sum_list (map open_amount (ls_reservations s))"
    using open_amount_nonneg [OF assms] by (rule sum_list_nonneg_int)
  then show ?thesis
    using assms by (simp add: local_inv_def local_used_def)
qed

text \<open>The amount fits: the sum is an \<open>int64\<close> and is within the limit, if there is one.\<close>

definition local_fits :: "local_state \<Rightarrow> i64 \<Rightarrow> bool" where
  "local_fits s e \<longleftrightarrow> local_used s + sint e \<le> max_int64
     \<and> (0 \<le> local_limit s \<longrightarrow> local_used s + sint e \<le> local_limit s)"

lemma ledger_reserve_alone:
  assumes "local_inv s" and "0 \<le> sint e" and "sint e \<le> sint MaxEstimate"
  shows "if local_fits s e then \<exists>s'. ledger_reserve [] background e s = (Inr (length (ls_reservations s)), s')
     else \<exists>x. ledger_reserve [] background e s = (Inl x, s) \<and> errors_is x ErrBudgetExceeded"
proof -
  let ?l = "ls_ledger s" and ?u = "lg_used (ls_ledger s)"
  have g: "\<not> e <s 0" "\<not> MaxEstimate <s e"
    using assms(2,3) by (simp_all add: i64_simps)
  have c: "reserve_check ?l ?u e = None \<longleftrightarrow> local_fits s e"
    using assms(2) local_used_nonneg [OF assms(1)]
    by (simp add: reserve_check_None local_fits_def local_used_def local_limit_def)
  show ?thesis
  proof (cases "reserve_check ?l ?u e")
    case None
    then show ?thesis
      using g c by (simp add: ledger_reserve_def)
  next
    case (Some x)
    then show ?thesis
      using g c by (simp add: ledger_reserve_def reserve_check_denies [OF Some])
  qed
qed

interpretation local_prompt: prompt_reserver
  local_ledger local_inv local_used local_limit local_held local_finished max_int64
proof (unfold_locales, goal_cases)
  case (1 s e)
  then have "local_fits s e" by (simp add: local_fits_def)
  then obtain s' where s': "ledger_reserve [] background e s = (Inr (length (ls_reservations s)), s')"
    using ledger_reserve_alone [of s e] 1 by auto
  then show ?case
    using local_reserve_effect [OF 1(1) s'] by auto
next
  case (2 s e)
  then have "\<not> local_fits s e" by (simp add: local_fits_def)
  then show ?case
    using ledger_reserve_alone [of s e] 2 by auto
next
  case (3 s h r a)
  then show ?case
    using local_commit_open [of s h r a] local_commit_effect [of s h r a] by auto
next
  case (4 s h r)
  then show ?case
    using local_release_open [of s h r] local_release_effect [of s h r] by auto
qed

end
