(* ===== verification/LocalConcurrency.thy ===== *)
theory LocalConcurrency
  imports LocalLedger
begin

text \<open>
  Goroutines sharing one local ledger (\<open>ledger.go\<close>, \<open>reservation.go\<close>).  Each atomic
  operation of the code is one step: the load of the used counter with the checks on the
  loaded value, the compare-and-swap of \<open>Reserve\<close>, the compare-and-swap on \<open>done\<close>, the
  add on the used counter and the add on the spent counter.  Any number of goroutines
  take steps in any order.
\<close>

section \<open>State and steps\<close>

text \<open>
  Where a goroutine is: outside the ledger; before the load, with its estimate; before
  the swap, with the value it loaded; after it has won \<open>done\<close> and before the add to the
  used counter, with the difference and the actual cost; before the add to the spent
  counter.
\<close>

datatype pc =
    Idle
  | AtLoad i64
  | AtSwap i64 i64
  | AtAddUsed i64 i64
  | AtAddSpent i64

text \<open>A reservation carries, for the proofs only, the amount its terminal call charged.\<close>

record conc_reservation = local_reservation +
  cr_charged :: i64

record conc =
  cc_ledger :: ledger
  cc_resv :: "conc_reservation list"
  cc_pcs :: "pc list"

definition conc_init :: "i64 \<Rightarrow> currency \<Rightarrow> nat \<Rightarrow> conc" where
  "conc_init limit c n =
     \<lparr>cc_ledger = NewLedger limit c, cc_resv = [], cc_pcs = replicate n Idle\<rparr>"

abbreviation set_used :: "i64 \<Rightarrow> conc \<Rightarrow> conc" where
  "set_used v s \<equiv> s\<lparr>cc_ledger := (cc_ledger s)\<lparr>lg_used := v\<rparr>\<rparr>"

abbreviation set_pc :: "nat \<Rightarrow> pc \<Rightarrow> conc \<Rightarrow> conc" where
  "set_pc i p s \<equiv> s\<lparr>cc_pcs := (cc_pcs s)[i := p]\<rparr>"

text \<open>The reservation after its terminal call has set \<open>done\<close>.\<close>

definition settle :: "i64 \<Rightarrow> conc_reservation \<Rightarrow> conc_reservation" where
  "settle a r = r\<lparr>lr_done := True, cr_charged := a\<rparr>"

inductive conc_step :: "conc \<Rightarrow> conc \<Rightarrow> bool" where
  call_reserve:
    "i < length (cc_pcs s) \<Longrightarrow> cc_pcs s ! i = Idle \<Longrightarrow> \<not> e <s 0 \<Longrightarrow> \<not> MaxEstimate <s e \<Longrightarrow>
     conc_step s (set_pc i (AtLoad e) s)"
| load_deny:
    "i < length (cc_pcs s) \<Longrightarrow> cc_pcs s ! i = AtLoad e \<Longrightarrow>
     reserve_check (cc_ledger s) (lg_used (cc_ledger s)) e = Some x \<Longrightarrow>
     conc_step s (set_pc i Idle s)"
| load:
    "i < length (cc_pcs s) \<Longrightarrow> cc_pcs s ! i = AtLoad e \<Longrightarrow> u = lg_used (cc_ledger s) \<Longrightarrow>
     reserve_check (cc_ledger s) u e = None \<Longrightarrow>
     conc_step s (set_pc i (AtSwap e u) s)"
| swap:
    "i < length (cc_pcs s) \<Longrightarrow> cc_pcs s ! i = AtSwap e u \<Longrightarrow> lg_used (cc_ledger s) = u \<Longrightarrow>
     conc_step s (set_pc i Idle (set_used (u + e)
       (s\<lparr>cc_resv := cc_resv s @ [\<lparr>lr_reserved = e, lr_done = False, cr_charged = 0\<rparr>]\<rparr>)))"
| swap_retry:
    "i < length (cc_pcs s) \<Longrightarrow> cc_pcs s ! i = AtSwap e u \<Longrightarrow> lg_used (cc_ledger s) \<noteq> u \<Longrightarrow>
     conc_step s (set_pc i (AtLoad e) s)"
| swap_cancelled:
    "i < length (cc_pcs s) \<Longrightarrow> cc_pcs s ! i = AtSwap e u \<Longrightarrow> lg_used (cc_ledger s) \<noteq> u \<Longrightarrow>
     conc_step s (set_pc i Idle s)"
| commit_done:
    "i < length (cc_pcs s) \<Longrightarrow> cc_pcs s ! i = Idle \<Longrightarrow> h < length (cc_resv s) \<Longrightarrow>
     \<not> lr_done (cc_resv s ! h) \<Longrightarrow> d = clamp0 a - lr_reserved (cc_resv s ! h) \<Longrightarrow>
     conc_step s (set_pc i (AtAddUsed d (clamp0 a))
       (s\<lparr>cc_resv := (cc_resv s)[h := settle (clamp0 a) (cc_resv s ! h)]\<rparr>))"
| release_done:
    "i < length (cc_pcs s) \<Longrightarrow> cc_pcs s ! i = Idle \<Longrightarrow> h < length (cc_resv s) \<Longrightarrow>
     \<not> lr_done (cc_resv s ! h) \<Longrightarrow> d = - lr_reserved (cc_resv s ! h) \<Longrightarrow>
     conc_step s (set_pc i (AtAddUsed d 0)
       (s\<lparr>cc_resv := (cc_resv s)[h := settle 0 (cc_resv s ! h)]\<rparr>))"
| add_used:
    "i < length (cc_pcs s) \<Longrightarrow> cc_pcs s ! i = AtAddUsed d a \<Longrightarrow>
     conc_step s (set_pc i (if 0 <s a then AtAddSpent a else Idle)
       (set_used (lg_used (cc_ledger s) + d) s))"
| add_spent:
    "i < length (cc_pcs s) \<Longrightarrow> cc_pcs s ! i = AtAddSpent a \<Longrightarrow>
     conc_step s (set_pc i Idle
       (s\<lparr>cc_ledger := (cc_ledger s)\<lparr>lg_spent := lg_spent (cc_ledger s) + a\<rparr>\<rparr>))"

inductive_cases conc_stepE: "conc_step s t"

inductive conc_reach :: "i64 \<Rightarrow> currency \<Rightarrow> nat \<Rightarrow> conc \<Rightarrow> bool" for limit c n where
  start: "conc_reach limit c n (conc_init limit c n)"
| step: "conc_reach limit c n s \<Longrightarrow> conc_step s t \<Longrightarrow> conc_reach limit c n t"

lemma conc_step_limit: "conc_step s t \<Longrightarrow> lg_limit (cc_ledger t) = lg_limit (cc_ledger s)"
  by (induction rule: conc_step.induct) simp_all

lemma conc_reach_limit: "conc_reach limit c n s \<Longrightarrow> lg_limit (cc_ledger s) = limit"
  by (induction rule: conc_reach.induct) (auto simp: conc_init_def NewLedger_def dest: conc_step_limit)

section \<open>Conservation, in wrapping arithmetic\<close>

definition charge :: "conc_reservation \<Rightarrow> i64" where
  "charge r = (if lr_done r then cr_charged r else lr_reserved r)"

definition spent_charge :: "conc_reservation \<Rightarrow> i64" where
  "spent_charge r = (if lr_done r then cr_charged r else 0)"

text \<open>What a goroutine still has to add to the two counters.\<close>

fun due_used :: "pc \<Rightarrow> i64" where
  "due_used (AtAddUsed d a) = d"
| "due_used _ = 0"





lemma list_all_upd: "list_all P xs \<Longrightarrow> P v \<Longrightarrow> list_all P (xs[i := v])"
  by (auto simp: list_all_iff dest: set_update_cases)


lemma settle_charge [simp]: "charge (settle a r) = a" "spent_charge (settle a r) = a"
  by (simp_all add: settle_def charge_def spent_charge_def)

lemma open_charge [simp]:
  "\<not> lr_done r \<Longrightarrow> charge r = lr_reserved r" "\<not> lr_done r \<Longrightarrow> spent_charge r = 0"
  by (simp_all add: charge_def spent_charge_def)



section \<open>The limit\<close>

text \<open>
  A run without overruns: no commit charged more than its reservation.  A terminal call
  is never undone, so a state without overruns is reached through such states only.
\<close>

definition within_estimate :: "conc_reservation \<Rightarrow> bool" where
  "within_estimate r = (if lr_done r then sint (cr_charged r) \<le> sint (lr_reserved r) else True)"

definition no_overrun :: "conc \<Rightarrow> bool" where
  "no_overrun s \<longleftrightarrow> list_all within_estimate (cc_resv s)"

lemma within_estimate_open: "\<not> lr_done r \<Longrightarrow> within_estimate r"
  by (simp add: within_estimate_def)

lemma within_estimate_settle:
  "within_estimate (settle a r) \<longleftrightarrow> sint a \<le> sint (lr_reserved r)"
  by (simp add: within_estimate_def settle_def)

lemma list_all_nth_upd:
  "list_all P (xs[i := v]) \<Longrightarrow> (i < length xs \<Longrightarrow> P (xs ! i)) \<Longrightarrow> list_all P xs"
  by (metis list_all_length length_list_update nth_list_update_neq)

lemma no_overrun_back: "conc_step s t \<Longrightarrow> no_overrun t \<Longrightarrow> no_overrun s"
  by (induction rule: conc_step.induct)
    (auto simp: no_overrun_def within_estimate_open elim!: list_all_nth_upd)

fun pc_ok :: "ledger \<Rightarrow> pc \<Rightarrow> bool" where
  "pc_ok l Idle = True"
| "pc_ok l (AtLoad e) = (0 \<le> sint e)"
| "pc_ok l (AtSwap e u) = (0 \<le> sint e \<and> reserve_check l u e = None)"
| "pc_ok l (AtAddUsed d a) = (sint d \<le> 0)"
| "pc_ok l (AtAddSpent a) = True"

definition resv_ok :: "conc_reservation \<Rightarrow> bool" where
  "resv_ok r \<longleftrightarrow> 0 \<le> sint (lr_reserved r) \<and> 0 \<le> sint (charge r)"

text \<open>Without overruns the counter, as a number, is what is charged or held plus what is still to be given back.\<close>

definition charge_int :: "conc_reservation \<Rightarrow> int" where
  "charge_int r = sint (charge r)"

definition give_back :: "pc \<Rightarrow> int" where
  "give_back p = - sint (due_used p)"

definition limit_inv :: "conc \<Rightarrow> bool" where
  "limit_inv s \<longleftrightarrow>
     list_all (pc_ok (cc_ledger s)) (cc_pcs s) \<and> list_all resv_ok (cc_resv s)
     \<and> sint (lg_used (cc_ledger s))
       = sum_list (map charge_int (cc_resv s)) + sum_list (map give_back (cc_pcs s))
     \<and> (0 \<le> sint (lg_limit (cc_ledger s)) \<longrightarrow>
          sint (lg_used (cc_ledger s)) \<le> sint (lg_limit (cc_ledger s)))"

lemma pc_ok_used [simp]:
  "pc_ok (l\<lparr>lg_used := v\<rparr>) = pc_ok l" "pc_ok (l\<lparr>lg_spent := v\<rparr>) = pc_ok l"
proof -
  have "pc_ok (l\<lparr>lg_used := v\<rparr>) p = pc_ok l p" "pc_ok (l\<lparr>lg_spent := v\<rparr>) p = pc_ok l p" for p
    by (cases p; simp add: reserve_check_def)+
  then show "pc_ok (l\<lparr>lg_used := v\<rparr>) = pc_ok l" "pc_ok (l\<lparr>lg_spent := v\<rparr>) = pc_ok l"
    by (simp_all add: fun_eq_iff)
qed

lemma give_back_nonneg: "pc_ok l p \<Longrightarrow> 0 \<le> give_back p"
  by (cases p) (simp_all add: give_back_def)

lemma charge_int_nonneg: "resv_ok r \<Longrightarrow> 0 \<le> charge_int r"
  by (simp add: resv_ok_def charge_int_def)

lemma give_back_simps [simp]:
  "give_back Idle = 0" "give_back (AtLoad e) = 0" "give_back (AtSwap e u) = 0"
  "give_back (AtAddSpent a) = 0" "give_back (AtAddUsed d a) = - sint d"
  by (simp_all add: give_back_def)

lemma limit_inv_bounds:
  assumes "limit_inv s"
  shows "0 \<le> sum_list (map charge_int (cc_resv s))" and "0 \<le> sum_list (map give_back (cc_pcs s))"
    and "p \<in> set (cc_pcs s) \<Longrightarrow> give_back p \<le> sint (lg_used (cc_ledger s))"
proof -
  show c: "0 \<le> sum_list (map charge_int (cc_resv s))"
    using assms by (intro sum_list_nonneg_int) (auto simp: limit_inv_def list_all_iff charge_int_nonneg)
  show "0 \<le> sum_list (map give_back (cc_pcs s))"
    using assms by (intro sum_list_nonneg_int) (auto simp: limit_inv_def list_all_iff give_back_nonneg)
  assume "p \<in> set (cc_pcs s)"
  then have "give_back p \<le> sum_list (map give_back (cc_pcs s))"
    using assms by (intro member_le_sum_list_int) (auto simp: limit_inv_def list_all_iff give_back_nonneg)
  then show "give_back p \<le> sint (lg_used (cc_ledger s))"
    using assms c by (simp add: limit_inv_def)
qed

text \<open>The step that admits a reservation: the check made at the load still holds at the swap.\<close>

lemma limit_inv_swap:
  assumes inv: "limit_inv s" and i: "i < length (cc_pcs s)" and pc: "cc_pcs s ! i = AtSwap e u"
    and u: "lg_used (cc_ledger s) = u"
  shows "limit_inv (set_pc i Idle (set_used (u + e)
    (s\<lparr>cc_resv := cc_resv s @ [\<lparr>lr_reserved = e, lr_done = False, cr_charged = 0\<rparr>]\<rparr>)))"
proof -
  have "pc_ok (cc_ledger s) (AtSwap e u)"
    using inv i pc by (metis limit_inv_def list_all_length)
  then have e: "0 \<le> sint e" and chk: "reserve_check (cc_ledger s) u e = None"
    by simp_all
  then have b: "0 \<le> sint u" "sint u + sint e \<le> max_int64"
    "0 \<le> sint (lg_limit (cc_ledger s)) \<longrightarrow> sint u + sint e \<le> sint (lg_limit (cc_ledger s))"
    by (simp_all add: reserve_check_None)
  have "sint (u + e) = sint u + sint e"
    using b e by (intro sint_add_i64) simp_all
  then show ?thesis
    using inv i pc u b e
    by (auto simp: limit_inv_def resv_ok_def charge_int_def charge_def sum_list_map_upd
        intro!: list_all_upd)
qed

lemma sum_list_give_back_upd:
  "i < length ps \<Longrightarrow> sum_list (map give_back (ps[i := p])) =
     sum_list (map give_back ps) - give_back (ps ! i) + give_back p"
  by (rule sum_list_map_upd)

text \<open>A terminal call takes over the reservation; the counter moves later.\<close>

lemma limit_inv_settle:
  assumes inv: "limit_inv s" and i: "i < length (cc_pcs s)" "cc_pcs s ! i = Idle"
    and h: "h < length (cc_resv s)" "\<not> lr_done (cc_resv s ! h)"
    and a: "0 \<le> sint a" "sint a \<le> sint (lr_reserved (cc_resv s ! h))"
    and d: "d = a - lr_reserved (cc_resv s ! h)"
  shows "limit_inv (set_pc i (AtAddUsed d a)
    (s\<lparr>cc_resv := (cc_resv s)[h := settle a (cc_resv s ! h)]\<rparr>))"
proof -
  let ?r = "lr_reserved (cc_resv s ! h)"
  have "resv_ok (cc_resv s ! h)"
    using inv h by (simp add: limit_inv_def list_all_length)
  then have r: "0 \<le> sint ?r" by (simp add: resv_ok_def)
  have d': "sint d = sint a - sint ?r"
    unfolding d using a r sint_upper [of a] sint_upper [of ?r] by (intro sint_diff_i64) simp_all
  have "resv_ok (settle a (cc_resv s ! h))"
    using r a by (simp add: resv_ok_def) (simp add: settle_def)
  then show ?thesis
    using inv i h a d'
    by (auto simp: limit_inv_def sum_list_map_upd charge_int_def intro!: list_all_upd)
qed

lemma limit_inv_add_used:
  assumes inv: "limit_inv s" and i: "i < length (cc_pcs s)" "cc_pcs s ! i = AtAddUsed d a"
  shows "limit_inv (set_pc i (if 0 <s a then AtAddSpent a else Idle)
    (set_used (lg_used (cc_ledger s) + d) s))"
proof -
  have m: "AtAddUsed d a \<in> set (cc_pcs s)"
    using i by (metis nth_mem)
  then have d: "sint d \<le> 0"
    using inv by (auto simp: limit_inv_def list_all_iff)
  have "- sint d \<le> sint (lg_used (cc_ledger s))"
    using limit_inv_bounds(3) [OF inv m] by simp
  then have "sint (lg_used (cc_ledger s) + d) = sint (lg_used (cc_ledger s)) + sint d"
    using d sint_upper [of "lg_used (cc_ledger s)"] by (intro sint_add_i64) simp_all
  then show ?thesis
    using inv i d by (auto simp: limit_inv_def sum_list_map_upd intro!: list_all_upd)
qed

lemma limit_inv_pc: "limit_inv s \<Longrightarrow> i < length (cc_pcs s) \<Longrightarrow> pc_ok (cc_ledger s) (cc_pcs s ! i)"
  by (simp add: limit_inv_def list_all_length)

lemma limit_inv_move:
  assumes "limit_inv s" and "i < length (cc_pcs s)" and "give_back (cc_pcs s ! i) = 0"
    and "give_back p = 0" and "pc_ok (cc_ledger s) p"
  shows "limit_inv (set_pc i p s)"
  using assms by (auto simp: limit_inv_def sum_list_map_upd intro!: list_all_upd)

lemma limit_inv_step:
  assumes "conc_step s t" and "limit_inv s" and "no_overrun t"
  shows "limit_inv t"
  using assms
proof (induction rule: conc_step.induct)
  case (swap i s e u)
  then show ?case by (intro limit_inv_swap)
next
  case (commit_done i s h d a)
  have "sint (clamp0 a) \<le> sint (lr_reserved (cc_resv s ! h))"
    using commit_done.prems(2) commit_done.hyps(3)
    by (auto simp: no_overrun_def list_all_length within_estimate_settle dest!: spec [of _ h])
  then show ?case
    using commit_done by (intro limit_inv_settle) simp_all
next
  case (release_done i s h d)
  have "resv_ok (cc_resv s ! h)"
    using release_done by (simp add: limit_inv_def list_all_length)
  then show ?case
    using release_done by (intro limit_inv_settle) (simp_all add: resv_ok_def)
next
  case (add_used i s d a)
  then show ?case by (intro limit_inv_add_used)
next
  case (add_spent i s a)
  then show ?case by (auto simp: limit_inv_def sum_list_map_upd intro!: list_all_upd)
qed (auto intro!: limit_inv_move simp: i64_simps dest: limit_inv_pc)

lemma limit_inv_reach: "conc_reach limit c n s \<Longrightarrow> no_overrun s \<Longrightarrow> limit_inv s"
proof (induction rule: conc_reach.induct)
  case start
  show ?case
    by (simp add: conc_init_def NewLedger_def limit_inv_def list_all_iff sum_list_replicate)
next
  case (step s t)
  then show ?case by (blast intro: limit_inv_step no_overrun_back)
qed

section \<open>Properties\<close>

text \<open>
  A race: two goroutines load the counter at zero with an estimate of 60 against a limit
  of 100; the first swap wins, the second has to load again and is denied.
\<close>

definition race1 :: conc where
  "race1 = set_pc 1 (AtSwap 60 0) (set_pc 0 (AtSwap 60 0)
     (set_pc 1 (AtLoad 60) (set_pc 0 (AtLoad 60) (conc_init 100 USD 2))))"

definition race2 :: conc where
  "race2 = set_pc 0 Idle (set_used (0 + 60)
     (race1\<lparr>cc_resv := cc_resv race1 @ [\<lparr>lr_reserved = 60, lr_done = False, cr_charged = 0\<rparr>]\<rparr>))"

definition race3 :: conc where
  "race3 = set_pc 1 Idle (set_pc 1 (AtLoad 60) race2)"

lemma two_idle: "replicate 2 Idle = [Idle, Idle]"
  by (simp add: numeral_2_eq_2)

lemma reserve_check_60:
  "lg_limit l = 100 \<Longrightarrow> reserve_check l 0 60 = None"
  "lg_limit l = 100 \<Longrightarrow> \<exists>x. reserve_check l 60 60 = Some x"
  by (simp_all add: reserve_check_def i64_simps MaxInt64_def)

lemma race1_reach: "conc_reach 100 USD 2 race1"
proof -
  note init = conc_init_def NewLedger_def two_idle
  let ?s1 = "set_pc 0 (AtLoad 60) (conc_init 100 USD 2)"
  let ?s2 = "set_pc 1 (AtLoad 60) ?s1"
  let ?s3 = "set_pc 0 (AtSwap 60 0) ?s2"
  have "conc_reach 100 USD 2 ?s1"
    by (rule conc_reach.step [OF conc_reach.start], rule conc_step.call_reserve)
      (simp_all add: init i64_simps)
  then have "conc_reach 100 USD 2 ?s2"
    by (rule conc_reach.step, intro conc_step.call_reserve) (simp_all add: init i64_simps)
  then have "conc_reach 100 USD 2 ?s3"
    by (rule conc_reach.step, intro conc_step.load) (simp_all add: init reserve_check_60)
  then show ?thesis
    unfolding race1_def
    by (rule conc_reach.step, intro conc_step.load) (simp_all add: init reserve_check_60)
qed

lemma race2_reach: "conc_reach 100 USD 2 race2"
  unfolding race2_def using race1_reach
  by (rule conc_reach.step, intro conc_step.swap)
    (simp_all add: race1_def conc_init_def NewLedger_def two_idle)

lemma race3_reach: "conc_reach 100 USD 2 race3"
proof -
  note defs = race2_def race1_def conc_init_def NewLedger_def two_idle
  have "conc_reach 100 USD 2 (set_pc 1 (AtLoad 60) race2)"
    using race2_reach
    by (rule conc_reach.step, intro conc_step.swap_retry [where u = 0]) (simp_all add: defs)
  moreover obtain x where "reserve_check (cc_ledger race2) 60 60 = Some x"
    using reserve_check_60(2) [of "cc_ledger race2"] by (auto simp: defs)
  ultimately show ?thesis
    unfolding race3_def
    by (elim conc_reach.step, intro conc_step.load_deny [where e = 60 and x = x])
      (simp_all add: defs)
qed

text \<open>
  C1.  Concurrent callers cannot exceed the limit.  In every state that any number of
  goroutines can reach by interleaving their atomic operations, if no commit has charged
  more than its reservation, the used counter is between zero and the limit, and so is
  all that open reservations hold and finished ones were charged.
\<close>

theorem concurrent_limit:
  assumes "conc_reach limit c n s" and "no_overrun s" and "0 \<le> sint limit"
  shows "0 \<le> sint (lg_used (cc_ledger s)) \<and> sint (lg_used (cc_ledger s)) \<le> sint limit
    \<and> sum_list (map charge_int (cc_resv s)) \<le> sint limit"
proof -
  have inv: "limit_inv s"
    using limit_inv_reach [OF assms(1,2)] .
  have "sint (lg_used (cc_ledger s)) \<le> sint limit"
    using inv conc_reach_limit [OF assms(1)] assms(3) by (simp add: limit_inv_def)
  moreover have "sint (lg_used (cc_ledger s))
      = sum_list (map charge_int (cc_resv s)) + sum_list (map give_back (cc_pcs s))"
    using inv by (simp add: limit_inv_def)
  ultimately show ?thesis
    using limit_inv_bounds(1,2) [OF inv] by linarith
qed

theorem concurrent_limit_witness:
  "conc_reach 100 USD 2 race3 \<and> lg_used (cc_ledger race3) = 60
   \<and> sum_list (map charge_int (cc_resv race3)) \<le> 100"
proof -
  have "no_overrun race3" and "lg_used (cc_ledger race3) = 60"
    by (simp_all add: no_overrun_def within_estimate_def race3_def race2_def race1_def
        conc_init_def NewLedger_def)
  then show ?thesis
    using concurrent_limit [OF race3_reach] race3_reach by simp
qed



end
