(* ===== verification/Estimate.thy ===== *)
theory Estimate
  imports Errors
begin

text \<open>
  \<open>nexssflow/estimate.go\<close> and the identifier check of \<open>nexssflow/postgres.go\<close>: the value
  of the \<open>cost_estimate\<close> modifier is parsed once into a literal or a path, and a path is
  looked up in the input of each request.  An input of type \<open>any\<close> is a value of the
  datatype below, with one constructor per case the reflection code tells apart.
\<close>

section \<open>Values\<close>

text \<open>
  A float is not a number, an infinity, or \<open>m * 2 ^ e\<close>.  \<open>GInt\<close> and \<open>GUint\<close> stand for
  every signed and unsigned width; \<open>GNumber\<close> is a \<open>json.Number\<close>; \<open>GMap\<close> is a map with
  keys of a string kind, \<open>GMapOther\<close> any other map; a struct field has its Go name, whether
  it is exported, and its \<open>json\<close> tag; \<open>GPtr\<close> is a pointer, nil or not.
\<close>

datatype gfloat = FNaN | FInf | FFin int int

datatype gval =
    GNil
  | GBool bool
  | GString string
  | GNumber string
  | GInt i64
  | GUint u64
  | GFloat gfloat
  | GMap "(string \<times> gval) list"
  | GMapOther
  | GStruct "gfield list"
  | GPtr gval
  | GPtrNil
  | GOther
and gfield = GField string bool string gval

section \<open>The specification of an estimate\<close>

record estimate_spec =
  es_literal :: i64
  es_path :: "string list"

definition dynamic :: "estimate_spec \<Rightarrow> bool" where
  "dynamic s \<longleftrightarrow> length (es_path s) \<noteq> 0"

definition valid_identifier_character :: "char \<Rightarrow> bool \<Rightarrow> bool" where
  "valid_identifier_character ch first =
     (if ch = CHR ''_'' \<or> (CHR ''A'' \<le> ch \<and> ch \<le> CHR ''Z'') \<or> (CHR ''a'' \<le> ch \<and> ch \<le> CHR ''z'')
      then True
      else \<not> first \<and> CHR ''0'' \<le> ch \<and> ch \<le> CHR ''9'')"

fun identifier_loop :: "bool \<Rightarrow> string \<Rightarrow> bool" where
  "identifier_loop first [] = True"
| "identifier_loop first (ch # cs) =
     (if \<not> valid_identifier_character ch first then False else identifier_loop False cs)"

definition is_identifier :: "string \<Rightarrow> bool" where
  "is_identifier value = (if value = [] then False else identifier_loop True value)"

definition parse_estimate_spec :: "string \<Rightarrow> gerr + estimate_spec" where
  "parse_estimate_spec raw =
     (let raw = trim_space raw in
      case parse_int raw of
        Some amount \<Rightarrow>
          if amount <s 0 then Inl (ErrorsNew ''estimate must be non-negative'')
          else Inr \<lparr>es_literal = amount, es_path = []\<rparr>
      | None \<Rightarrow>
          let path = trim_prefix ''.'' (trim_prefix ''$'' raw) in
          if path = []
          then Inl (ErrorsNew ''expected a non-negative integer or an input field path such as .cost_micros'')
          else let parts = split_on (CHR ''.'') path in
            if list_all is_identifier parts then Inr \<lparr>es_literal = 0, es_path = parts\<rparr>
            else Inl (Errorf ''expected a non-negative integer or an input field path such as .cost_micros, got %q''
                   [FStr raw]))"

section \<open>Looking an estimate up\<close>

text \<open>The name of a field: its tag up to the first comma, or its Go name if that is empty.\<close>

definition json_name :: "string \<Rightarrow> string \<Rightarrow> string" where
  "json_name name tag =
     (let j = takeWhile (\<lambda>c. c \<noteq> CHR '','') tag in if j = [] then name else j)"

fun estimate_struct_field :: "gfield list \<Rightarrow> string \<Rightarrow> gval option" where
  "estimate_struct_field [] name = None"
| "estimate_struct_field (GField fname exported tag v # fs) name =
     (if \<not> exported then estimate_struct_field fs name
      else if takeWhile (\<lambda>c. c \<noteq> CHR '','') tag = ''-'' then estimate_struct_field fs name
      else if json_name fname tag = name then Some v
      else estimate_struct_field fs name)"

fun estimate_field :: "gval \<Rightarrow> string \<Rightarrow> gval option" where
  "estimate_field (GPtr v) name = estimate_field v name"
| "estimate_field (GMap kvs) name = map_of kvs name"
| "estimate_field (GStruct fs) name = estimate_struct_field fs name"
| "estimate_field _ name = None"

text \<open>The integer a finite float is, if \<open>math.Trunc\<close> leaves it alone.\<close>

definition float_integer :: "int \<Rightarrow> int \<Rightarrow> int option" where
  "float_integer m e =
     (if 0 \<le> e then Some (m * 2 ^ nat e)
      else if m mod 2 ^ nat (- e) = 0 then Some (m div 2 ^ nat (- e)) else None)"

text \<open>The bound \<open>float64(math.MaxInt64/2)\<close> is rounded up to 2^62.\<close>

fun integer_micros :: "gval \<Rightarrow> i64 option" where
  "integer_micros (GNumber s) = parse_int s"
| "integer_micros (GInt w) = Some w"
| "integer_micros (GUint u) = (if MaxInt64 < u then None else Some u)"
| "integer_micros (GFloat (FFin m e)) =
     (case float_integer m e of
        None \<Rightarrow> None
      | Some n \<Rightarrow> if n < 0 \<or> 4611686018427387904 < n then None else Some (word_of_int n))"
| "integer_micros _ = None"

fun walk_path :: "string list \<Rightarrow> gval \<Rightarrow> gval option" where
  "walk_path [] value = Some value"
| "walk_path (field # fs) value =
     (case estimate_field value field of None \<Rightarrow> None | Some next \<Rightarrow> walk_path fs next)"

definition path_text :: "estimate_spec \<Rightarrow> string" where
  "path_text s = ''.'' @ join_with (CHR ''.'') (es_path s)"

definition resolve :: "estimate_spec \<Rightarrow> gval \<Rightarrow> gerr + i64" where
  "resolve s input =
     (if \<not> dynamic s then Inr (es_literal s)
      else case walk_path (es_path s) input of
        None \<Rightarrow> Inl (Errorf ''cost: estimate input is missing field path %q'' [FStr (path_text s)])
      | Some value \<Rightarrow>
          (case integer_micros value of
             None \<Rightarrow> Inl (Errorf ''cost: estimate field %q must contain a non-negative integer number of micros, got %T''
                       [FStr (path_text s)])
           | Some amount \<Rightarrow>
               if amount <s 0 \<or> MaxEstimate <s amount
               then Inl (Errorf ''cost: estimate field %q is outside the supported range [0,%d]''
                      [FStr (path_text s), FInt MaxEstimate])
               else Inr amount))"

section \<open>Lemmas: identifiers and trimming\<close>

text \<open>Printable ASCII without the space: no character of a space's encoding is one.\<close>

definition graphic :: "char \<Rightarrow> bool" where
  "graphic c \<longleftrightarrow> CHR 0x20 < c \<and> c < CHR 0x80"

lemma spaces_not_graphic: "p \<in> set spaces \<Longrightarrow> \<exists>c \<in> set p. \<not> graphic c"
proof -
  have "list_all (\<lambda>p. list_ex (\<lambda>c. \<not> graphic c) p) spaces"
    by (simp add: spaces_def space_codes_def graphic_def less_char_def)
  moreover assume "p \<in> set spaces"
  ultimately show ?thesis
    by (metis (mono_tags, lifting) list_all_iff list_ex_iff)
qed

lemma strip_all_graphic:
  assumes "list_all graphic s" and "set ` set ps \<subseteq> set ` set spaces"
  shows "strip_all ps s = s"
proof -
  have "\<not> (p \<noteq> [] \<and> take (length p) s = p)" if "p \<in> set ps" for p
  proof
    assume p: "p \<noteq> [] \<and> take (length p) s = p"
    have "set p \<in> set ` set spaces"
      using that assms(2) by blast
    then obtain q where "q \<in> set spaces" "set q = set p"
      by (elim imageE) simp
    then obtain c where "c \<in> set p" "\<not> graphic c"
      using spaces_not_graphic by blast
    moreover have "set p \<subseteq> set s"
      using p set_take_subset by metis
    ultimately show False
      using assms(1) by (auto simp: list_all_iff)
  qed
  then have "strip_one ps s = None"
    by (auto simp: strip_one_def find_None_iff)
  then show ?thesis
    by (simp add: strip_all.simps [of ps s])
qed

lemma trim_space_graphic:
  assumes "list_all graphic s"
  shows "trim_space s = s"
proof -
  have "strip_all spaces s = s"
    using assms by (intro strip_all_graphic) auto
  moreover have "strip_all (map rev spaces) (rev s) = rev s"
    using assms by (intro strip_all_graphic) (auto simp: image_image)
  ultimately show ?thesis by (simp add: trim_space_def)
qed

lemma char_bounds [simp]:
  "of_char (CHR 0x20) = (32 :: nat)" "of_char (CHR 0x80) = (128 :: nat)"
  by simp_all

lemma identifier_char_graphic: "valid_identifier_character c b \<Longrightarrow> graphic c"
  by (auto simp: valid_identifier_character_def graphic_def less_char_def less_eq_char_def
      split: if_splits)

lemma identifier_loop_graphic: "identifier_loop b s \<Longrightarrow> list_all graphic s"
  by (induction b s rule: identifier_loop.induct) (auto split: if_splits intro: identifier_char_graphic)

lemma identifier_loop_no_dot: "identifier_loop b s \<Longrightarrow> CHR ''.'' \<notin> set s"
  by (induction b s rule: identifier_loop.induct)
    (auto simp: valid_identifier_character_def less_eq_char_def split: if_splits)

lemma is_identifier_props:
  assumes "is_identifier s"
  shows "s \<noteq> []" and "list_all graphic s" and "CHR ''.'' \<notin> set s"
    and "\<not> is_digit (hd s)" and "hd s \<noteq> CHR ''+''" and "hd s \<noteq> CHR ''-''" and "hd s \<noteq> CHR ''$''"
proof -
  have l: "s \<noteq> []" "identifier_loop True s"
    using assms by (auto simp: is_identifier_def split: if_splits)
  then have "valid_identifier_character (hd s) True"
    by (cases s) (auto split: if_splits)
  then show "\<not> is_digit (hd s)" and "hd s \<noteq> CHR ''+''" and "hd s \<noteq> CHR ''-''" and "hd s \<noteq> CHR ''$''"
    by (auto simp: valid_identifier_character_def is_digit_def less_eq_char_def split: if_splits)
  show "s \<noteq> []" "list_all graphic s" "CHR ''.'' \<notin> set s"
    using l identifier_loop_graphic identifier_loop_no_dot by auto
qed

lemma join_hd: "ws \<noteq> [] \<Longrightarrow> hd ws \<noteq> [] \<Longrightarrow> hd (join_with d ws) = hd (hd ws) \<and> join_with d ws \<noteq> []"
  by (induction d ws rule: join_with.induct) auto

lemma join_graphic:
  "graphic d \<Longrightarrow> list_all (list_all graphic) ws \<Longrightarrow> list_all graphic (join_with d ws)"
  by (induction d ws rule: join_with.induct) auto

lemma dot_props: "graphic (CHR ''.'')" "graphic (CHR ''$'')" "\<not> is_digit (CHR ''.'')" "\<not> is_digit (CHR ''$'')"
  by (simp_all add: graphic_def is_digit_def less_char_def less_eq_char_def)

definition path_prefixes :: "string list" where
  "path_prefixes = [[], ''.'', ''$'', ''$.'']"

lemma parse_path:
  assumes "ps \<noteq> []" and "list_all is_identifier ps" and "pre \<in> set path_prefixes"
  shows "parse_estimate_spec (pre @ join_with (CHR ''.'') ps) = Inr \<lparr>es_literal = 0, es_path = ps\<rparr>"
proof -
  let ?j = "join_with (CHR ''.'') ps"
  obtain w ws where w: "ps = w # ws" using assms(1) by (cases ps) auto
  have id: "is_identifier w" using assms(2) w by simp
  note first = is_identifier_props [OF id]
  have j: "?j \<noteq> []" "hd ?j = hd w"
    using join_hd [of ps "CHR ''.''"] w first(1) by simp_all
  obtain c cs where c: "?j = c # cs" "c = hd w"
    using j by (cases ?j) auto
  have "c \<in> set w" using c(2) first(1) by simp
  then have c': "c \<noteq> CHR ''.''" "c \<noteq> CHR ''$''"
    using first(3,7) c(2) by auto
  have "list_all graphic ?j"
    using assms(2)
    by (intro join_graphic) (simp_all add: dot_props list_all_iff [of _ ps] is_identifier_props(2))
  then have trim: "trim_space (pre @ ?j) = pre @ ?j"
    using assms(3) by (intro trim_space_graphic) (auto simp: dot_props path_prefixes_def)
  have num: "parse_int (pre @ ?j) = None"
    using assms(3) c first(4-6) by (intro parse_int_no_number) (auto simp: dot_props path_prefixes_def)
  have path: "trim_prefix ''.'' (trim_prefix ''$'' (pre @ ?j)) = ?j"
    using assms(3) c c' by (auto simp: trim_prefix_def path_prefixes_def)
  have "split_on (CHR ''.'') ?j = ps"
    using assms(1,2) by (intro split_join) (auto simp: list_all_iff is_identifier_props)
  then show ?thesis
    using j assms(2) by (simp add: parse_estimate_spec_def trim num path Let_def)
qed

lemma format_int_graphic: "list_all graphic (format_int w)"
proof -
  have "list_all graphic s" if "list_all is_digit s" for s
    using that by (induction s) (auto simp: is_digit_def graphic_def less_char_def less_eq_char_def)
  then show ?thesis
    by (auto simp: format_int_def nat_digits_all graphic_def less_char_def)
qed

section \<open>What a value denotes\<close>

text \<open>
  The integer a value stands for, whatever its representation: a machine integer, a
  float without a fractional part, or the decimal text of a \<open>json.Number\<close> of any length.
\<close>

fun denotes :: "gval \<Rightarrow> int \<Rightarrow> bool" where
  "denotes (GInt w) n \<longleftrightarrow> n = sint w"
| "denotes (GUint u) n \<longleftrightarrow> n = uint u"
| "denotes (GFloat (FFin m e)) n \<longleftrightarrow> (if 0 \<le> e then n = m * 2 ^ nat e else n * 2 ^ nat (- e) = m)"
| "denotes (GNumber s) n \<longleftrightarrow>
     (let (neg, ds) = strip_sign s in
      ds \<noteq> [] \<and> list_all is_digit ds \<and> n = (if neg then - int (digits_val ds) else int (digits_val ds)))"
| "denotes _ n \<longleftrightarrow> False"

lemma float_integer_Some: "float_integer m e = Some n \<longleftrightarrow> denotes (GFloat (FFin m e)) n"
proof (cases "0 \<le> e")
  case True
  then show ?thesis by (auto simp: float_integer_def)
next
  case False
  have "(m mod 2 ^ nat (- e) = 0 \<and> m div 2 ^ nat (- e) = n) \<longleftrightarrow> n * 2 ^ nat (- e) = m"
    by auto
  then show ?thesis using False by (auto simp: float_integer_def)
qed

lemma sint_of_small_uint:
  assumes "uint (u :: u64) \<le> max_int64"
  shows "sint u = uint u"
  using assms sint_word_of_int_i64 [of "uint u"] uint_ge_0 [of u] by (simp del: uint_ge_0)

text \<open>In the supported range the conversion is exact; outside it, it fails or leaves the range.\<close>

lemma integer_micros_denotes:
  "(\<exists>a. integer_micros v = Some a \<and> 0 \<le> sint a \<and> sint a \<le> sint MaxEstimate \<and> a = w)
   \<longleftrightarrow> (\<exists>n. denotes v n \<and> 0 \<le> n \<and> n \<le> sint MaxEstimate \<and> w = word_of_int n)"
proof (cases v)
  case (GInt x)
  then show ?thesis by auto
next
  case (GUint u)
  have "MaxInt64 < u \<longleftrightarrow> max_int64 < uint u"
    by (simp add: word_less_def MaxInt64_def)
  then show ?thesis
    using GUint sint_of_small_uint [of u] by (auto simp: sint_MaxEstimate)
next
  case (GFloat f)
  show ?thesis
  proof (cases f)
    case (FFin m e)
    have ex: "(\<exists>n. denotes (GFloat (FFin m e)) n \<and> P n)
        \<longleftrightarrow> (case float_integer m e of None \<Rightarrow> False | Some n \<Rightarrow> P n)" for P
      by (auto simp: float_integer_Some [symmetric] simp del: denotes.simps split: option.splits)
    have small: "sint (word_of_int n :: i64) = n" if "0 \<le> n" "n \<le> 4611686018427387904" for n
      using that by (intro sint_word_of_int_i64) simp_all
    show ?thesis
      unfolding GFloat FFin ex
      using small by (auto simp: sint_MaxEstimate split: option.splits)
  qed (simp_all add: GFloat)
next
  case (GNumber s)
  obtain neg ds where sd: "strip_sign s = (neg, ds)"
    by (cases "strip_sign s")
  let ?n = "if neg then - int (digits_val ds) else int (digits_val ds)"
  have small: "sint (word_of_int ?n :: i64) = ?n" if "min_int64 \<le> ?n" "?n \<le> max_int64"
    using that by (rule sint_word_of_int_i64)
  show ?thesis
    using GNumber sd small
    by (auto simp: parse_int_def Let_def sint_MaxEstimate split: if_splits)
qed simp_all

section \<open>Properties\<close>

text \<open>
  Every value of the modifier can be written.  The decimal text of a number is read
  back as that literal when it is not negative and refused when it is; and a non-empty
  path of identifiers, written with dots and with or without a leading dollar sign and
  dot, is read back as that path.
\<close>

theorem parse_estimate_roundtrip:
  assumes "ps \<noteq> []" and "list_all is_identifier ps" and "pre \<in> set path_prefixes"
  shows "parse_estimate_spec (pre @ join_with (CHR ''.'') ps) = Inr \<lparr>es_literal = 0, es_path = ps\<rparr>
    \<and> parse_estimate_spec (format_int w) =
        (if 0 \<le> sint w then Inr \<lparr>es_literal = w, es_path = []\<rparr>
         else Inl (ErrorsNew ''estimate must be non-negative''))"
  using parse_path [OF assms]
  by (simp add: parse_estimate_spec_def trim_space_graphic [OF format_int_graphic] i64_simps Let_def)

theorem parse_estimate_roundtrip_witness:
  "parse_estimate_spec ''$.policy.estimate_micros'' =
     Inr \<lparr>es_literal = 0, es_path = [''policy'', ''estimate_micros'']\<rparr>"
proof -
  have "list_all is_identifier [''policy'', ''estimate_micros'']"
    by (simp add: is_identifier_def valid_identifier_character_def less_eq_char_def)
  then show ?thesis
    using parse_estimate_roundtrip [of "[''policy'', ''estimate_micros'']" "''$.''"]
    by (simp add: path_prefixes_def)
qed

text \<open>
  Nothing else is accepted.  A specification that the parser returns is a
  non-negative literal, the number the trimmed text denotes, or a non-empty path of
  identifiers whose dotted form is the trimmed text without its prefix.
\<close>

theorem parse_estimate_sound:
  assumes "parse_estimate_spec raw = Inr s"
  shows "if dynamic s
     then list_all is_identifier (es_path s)
       \<and> join_with (CHR ''.'') (es_path s) = trim_prefix ''.'' (trim_prefix ''$'' (trim_space raw))
     else parse_int (trim_space raw) = Some (es_literal s) \<and> 0 \<le> sint (es_literal s)"
  using assms
  by (auto simp: parse_estimate_spec_def dynamic_def Let_def i64_simps split: option.splits if_splits)

theorem parse_estimate_sound_witness:
  "\<exists>s. parse_estimate_spec ''.cost'' = Inr s \<and> dynamic s \<and> list_all is_identifier (es_path s)"
proof -
  have id: "list_all is_identifier [''cost'']"
    by (simp add: is_identifier_def valid_identifier_character_def less_eq_char_def)
  then have p: "parse_estimate_spec ''.cost'' = Inr \<lparr>es_literal = 0, es_path = [''cost'']\<rparr>"
    using parse_path [of "[''cost'']" "''.''"] by (simp add: path_prefixes_def)
  show ?thesis
    using p parse_estimate_sound [OF p] by (simp add: dynamic_def)
qed

text \<open>
  C40.  A dynamic estimate is exactly the integer the input holds at the path.  Whether the
  value is a machine integer of any width and sign, a float or a JSON number, it is
  accepted if and only if it denotes an integer between 0 and MaxInt64/2, and the
  estimate is that integer; everything else, also a value beyond 64 bits, is an error.
\<close>

theorem resolve_exact:
  assumes "dynamic s" and "walk_path (es_path s) input = Some v"
  shows "resolve s input = Inr a \<longleftrightarrow>
    (\<exists>n. denotes v n \<and> 0 \<le> n \<and> n \<le> sint MaxEstimate \<and> a = word_of_int n)"
proof -
  have "resolve s input = Inr a \<longleftrightarrow>
      (\<exists>x. integer_micros v = Some x \<and> 0 \<le> sint x \<and> sint x \<le> sint MaxEstimate \<and> x = a)"
    using assms by (auto simp: resolve_def i64_simps split: option.splits)
  then show ?thesis
    by (simp only: integer_micros_denotes)
qed

theorem resolve_exact_witness:
  "resolve \<lparr>es_literal = 0, es_path = [''policy'', ''n'']\<rparr>
     (GMap [(''policy'', GPtr (GStruct [GField ''Secret'' False ''n'' GNil,
        GField ''N'' True ''n,omitempty'' (GFloat (FFin 3 4))]))]) = Inr 48"
proof -
  let ?s = "\<lparr>es_literal = 0, es_path = [''policy'', ''n'']\<rparr>"
  let ?v = "GMap [(''policy'', GPtr (GStruct [GField ''Secret'' False ''n'' GNil,
        GField ''N'' True ''n,omitempty'' (GFloat (FFin 3 4))]))]"
  have "dynamic ?s" and "walk_path (es_path ?s) ?v = Some (GFloat (FFin 3 4))"
    by (simp_all add: dynamic_def json_name_def)
  then show ?thesis
    using resolve_exact [of ?s ?v "GFloat (FFin 3 4)" 48] by (simp add: sint_MaxEstimate)
qed

end
