(* ===== verification/LocalSpec.thy ===== *)
theory LocalSpec
  imports LocalLedger
begin

text \<open>
  What the local ledger promises, on numbers without a width: the abstract budget, and
  the functional refinement of the ledger to it; the audit ring as the list of the last
  1024 events; and the properties of single operations, of terminal calls and of the
  swap loop.
\<close>

section \<open>The abstract budget\<close>

record budget =
  bg_limit :: int
  bg_used :: int
  bg_spent :: int
  bg_open :: "nat \<Rightarrow> int option"
  bg_next :: nat

datatype call = CallReserve i64 | CallCommit nat i64 | CallRelease nat

definition spec_fits :: "budget \<Rightarrow> int \<Rightarrow> bool" where
  "spec_fits b e \<longleftrightarrow> 0 \<le> e \<and> e \<le> sint MaxEstimate \<and> bg_used b + e \<le> max_int64
     \<and> (0 \<le> bg_limit b \<longrightarrow> bg_used b + e \<le> bg_limit b)"

fun spec_call :: "call \<Rightarrow> budget \<Rightarrow> budget" where
  "spec_call (CallReserve e) b =
     (if spec_fits b (sint e)
      then b\<lparr>bg_used := bg_used b + sint e, bg_open := (bg_open b)(bg_next b \<mapsto> sint e),
             bg_next := Suc (bg_next b)\<rparr>
      else b)"
| "spec_call (CallCommit h a) b =
     (case bg_open b h of
        None \<Rightarrow> b
      | Some r \<Rightarrow> b\<lparr>bg_used := bg_used b - r + max 0 (sint a),
                    bg_spent := bg_spent b + max 0 (sint a),
                    bg_open := (bg_open b)(h := None)\<rparr>)"
| "spec_call (CallRelease h) b =
     (case bg_open b h of
        None \<Rightarrow> b
      | Some r \<Rightarrow> b\<lparr>bg_used := bg_used b - r, bg_open := (bg_open b)(h := None)\<rparr>)"

fun local_call :: "call \<Rightarrow> local_state \<Rightarrow> local_state" where
  "local_call (CallReserve e) s = snd (ledger_reserve [] background e s)"
| "local_call (CallCommit h a) s = snd (local_commit h background a s)"
| "local_call (CallRelease h) s = snd (local_release h background s)"

text \<open>A run whose totals stay within an \<open>int64\<close>.\<close>

fun spec_in_range :: "call list \<Rightarrow> budget \<Rightarrow> bool" where
  "spec_in_range [] b \<longleftrightarrow> True"
| "spec_in_range (c # cs) b \<longleftrightarrow>
     bg_used (spec_call c b) \<le> max_int64 \<and> bg_spent (spec_call c b) \<le> max_int64
     \<and> spec_in_range cs (spec_call c b)"

definition local_abs :: "local_state \<Rightarrow> budget" where
  "local_abs s = \<lparr>bg_limit = local_limit s, bg_used = local_used s,
     bg_spent = sint (lg_spent (ls_ledger s)), bg_open = local_held s,
     bg_next = length (ls_reservations s)\<rparr>"

section \<open>One call refines its specification\<close>

lemma local_held_append:
  "local_held (s\<lparr>ls_ledger := l, ls_reservations := ls_reservations s @ [r]\<rparr>) =
     (if lr_done r then local_held s
      else (local_held s)(length (ls_reservations s) \<mapsto> sint (lr_reserved r)))"
  by (auto simp: local_held_def fun_eq_iff nth_append)

lemma local_held_close:
  "h < length (ls_reservations s) \<Longrightarrow>
   local_held (s\<lparr>ls_ledger := l, ls_reservations :=
      (ls_reservations s)[h := (ls_reservations s ! h)\<lparr>lr_done := True\<rparr>]\<rparr>) =
     (local_held s)(h := None)"
  by (auto simp: local_held_def fun_eq_iff nth_list_update)

lemma local_terminal_closed:
  assumes "local_held s h = None"
  shows "snd (local_commit h c a s) = s" and "snd (local_release h c s) = s"
proof -
  have "length (ls_reservations s) \<le> h \<or> lr_done (ls_reservations s ! h)"
    using assms by (auto simp: local_held_def split: if_splits)
  then show "snd (local_commit h c a s) = s" and "snd (local_release h c s) = s"
    by (auto simp: local_commit_def local_release_def Let_def split: option.split)
qed

definition local_good :: "local_state \<Rightarrow> bool" where
  "local_good s \<longleftrightarrow> local_inv s \<and> 0 \<le> sint (lg_spent (ls_ledger s))"

lemma reserve_refines:
  assumes "local_good s"
  shows "local_good (local_call (CallReserve e) s)
    \<and> local_abs (local_call (CallReserve e) s) = spec_call (CallReserve e) (local_abs s)"
proof -
  have inv: "local_inv s" using assms by (simp add: local_good_def)
  show ?thesis
  proof (cases "0 \<le> sint e \<and> sint e \<le> sint MaxEstimate \<and> local_fits s e")
    case True
    then obtain s' where s': "ledger_reserve [] background e s = (Inr (length (ls_reservations s)), s')"
      using ledger_reserve_alone [OF inv, of e] by auto
    have fits: "spec_fits (local_abs s) (sint e)"
      using True by (simp add: spec_fits_def local_fits_def local_abs_def)
    have eff: "local_inv s'" "local_used s' = local_used s + sint e"
      using local_reserve_effect [OF inv s'] by simp_all
    from ledger_reserve_Inr [OF s'] obtain u where
      eq: "s' = s\<lparr>ls_ledger := (ls_ledger s)\<lparr>lg_used := u + e\<rparr>,
              ls_reservations := ls_reservations s @ [\<lparr>lr_reserved = e, lr_done = False\<rparr>]\<rparr>"
      by auto
    have "local_held s' = (local_held s)(length (ls_reservations s) \<mapsto> sint e)"
      by (simp add: eq local_held_append)
    moreover have "local_limit s' = local_limit s" "lg_spent (ls_ledger s') = lg_spent (ls_ledger s)"
      "length (ls_reservations s') = Suc (length (ls_reservations s))"
      by (simp_all add: eq local_limit_def)
    ultimately show ?thesis
      using assms fits eff s' by (simp add: local_abs_def local_good_def)
  next
    case False
    then have nofit: "\<not> spec_fits (local_abs s) (sint e)"
      by (auto simp: spec_fits_def local_fits_def local_abs_def)
    obtain x where "ledger_reserve [] background e s = (Inl x, s)"
    proof (cases "0 \<le> sint e \<and> sint e \<le> sint MaxEstimate")
      case True
      then show ?thesis
        using that ledger_reserve_alone [OF inv, of e] False by auto
    next
      case False
      then have "ledger_reserve [] background e s = (Inl (invalid_estimate e), s)"
        by (auto simp: ledger_reserve_def i64_simps)
      then show ?thesis by (rule that)
    qed
    then show ?thesis using assms nofit by simp
  qed
qed

lemma commit_refines:
  assumes "local_good s"
    and "bg_used (spec_call (CallCommit h a) (local_abs s)) \<le> max_int64"
    and "bg_spent (spec_call (CallCommit h a) (local_abs s)) \<le> max_int64"
  shows "local_good (local_call (CallCommit h a) s)
    \<and> local_abs (local_call (CallCommit h a) s) = spec_call (CallCommit h a) (local_abs s)"
proof (cases "local_held s h")
  case None
  then show ?thesis
    using assms(1) by (simp add: local_terminal_closed local_abs_def)
next
  case (Some r)
  have inv: "local_inv s" and sp: "0 \<le> sint (lg_spent (ls_ledger s))"
    using assms(1) by (simp_all add: local_good_def)
  have h: "h < length (ls_reservations s)"
    using Some by (auto simp: local_held_def split: if_splits)
  have b: "local_used s - r + max 0 (sint a) \<le> max_int64"
    "sint (lg_spent (ls_ledger s)) + max 0 (sint a) \<le> max_int64"
    using assms(2,3) Some by (simp_all add: local_abs_def)
  have spent: "sint (lg_spent (ls_ledger s) + clamp0 a)
      = sint (lg_spent (ls_ledger s)) + max 0 (sint a)"
    using b(2) sp by (subst sint_add_i64) (simp_all add: i64_simps)
  note eq = local_commit_open [OF Some, of a]
  note eff = local_commit_effect [OF inv Some b(1) eq]
  show ?thesis
    using eff spent sp Some h
    by (simp add: eq local_good_def local_abs_def local_held_close local_limit_def)
qed

lemma release_refines:
  assumes "local_good s"
  shows "local_good (local_call (CallRelease h) s)
    \<and> local_abs (local_call (CallRelease h) s) = spec_call (CallRelease h) (local_abs s)"
proof (cases "local_held s h")
  case None
  then show ?thesis
    using assms(1) by (simp add: local_terminal_closed local_abs_def)
next
  case (Some r)
  have inv: "local_inv s" and sp: "0 \<le> sint (lg_spent (ls_ledger s))"
    using assms(1) by (simp_all add: local_good_def)
  have h: "h < length (ls_reservations s)"
    using Some by (auto simp: local_held_def split: if_splits)
  note eq = local_release_open [OF Some]
  note eff = local_release_effect [OF inv Some eq]
  show ?thesis
    using eff sp Some h
    by (simp add: eq local_good_def local_abs_def local_held_close local_limit_def)
qed

lemma call_refines:
  assumes "local_good s"
    and "bg_used (spec_call c (local_abs s)) \<le> max_int64"
    and "bg_spent (spec_call c (local_abs s)) \<le> max_int64"
  shows "local_good (local_call c s) \<and> local_abs (local_call c s) = spec_call c (local_abs s)"
proof (cases c)
  case (CallReserve e)
  show ?thesis unfolding CallReserve by (rule reserve_refines [OF assms(1)])
next
  case (CallCommit h a)
  show ?thesis
    using assms unfolding CallCommit by (rule commit_refines)
next
  case (CallRelease h)
  show ?thesis unfolding CallRelease by (rule release_refines [OF assms(1)])
qed

section \<open>The audit ring as a list\<close>

text \<open>
  A ledger stands for the list of all events ever recorded: \<open>head\<close> counts them, and
  each of the last 1024 is at its index modulo 1024.
\<close>

definition ring_repr :: "ledger \<Rightarrow> event list \<Rightarrow> bool" where
  "ring_repr l evs \<longleftrightarrow>
     length evs < 2 ^ 64 \<and> lg_head l = of_nat (length evs)
     \<and> length (lg_entries l) = ring_capacity
     \<and> (\<forall>i < length evs. length evs - ring_capacity \<le> i
            \<longrightarrow> lg_entries l ! (i mod ring_capacity) = evs ! i)"

lemma unat_of_nat_u64: "n < 2 ^ 64 \<Longrightarrow> unat (of_nat n :: u64) = n"
  by (simp add: unat_of_nat take_bit_nat_eq_self)

lemma ring_index: "n < 2 ^ 64 \<Longrightarrow> unat ((of_nat n :: u64) mod 1024) = n mod ring_capacity"
  by (simp add: unat_mod unat_of_nat_u64)

lemma ring_repr_new: "ring_repr (NewLedger limit c) []"
  by (simp add: ring_repr_def NewLedger_def)

lemma ring_put_repr:
  assumes "ring_repr l evs" and "Suc (length evs) < 2 ^ 64"
  shows "ring_repr (ring_put ev l) (evs @ [ev])"
proof -
  let ?n = "length evs"
  have idx: "unat ((of_nat ?n :: u64) mod 1024) = ?n mod ring_capacity"
    using assms(2) by (intro ring_index) simp
  have "(lg_entries l)[?n mod ring_capacity := ev] ! (i mod ring_capacity) = (evs @ [ev]) ! i"
    if i: "i < Suc ?n" "Suc ?n - ring_capacity \<le> i" for i
  proof (cases "i = ?n")
    case True
    then show ?thesis
      using assms(1) by (simp add: ring_repr_def)
  next
    case False
    with i have "i < ?n" "?n - ring_capacity \<le> i" "?n < i + ring_capacity" by auto
    then have "i mod ring_capacity \<noteq> ?n mod ring_capacity"
      using mod_eq_dvd_iff_nat [of i ?n ring_capacity] dvd_imp_le [of ring_capacity "?n - i"]
      by fastforce
    then show ?thesis
      using assms(1) \<open>i < ?n\<close> \<open>?n - ring_capacity \<le> i\<close>
      by (simp add: ring_repr_def nth_append)
  qed
  then show ?thesis
    using assms by (simp add: ring_repr_def ring_put_def idx)
qed

text \<open>\<open>Entries\<close> returns the last 1024 events, oldest first.\<close>

lemma entries_of_repr:
  assumes "ring_repr l evs"
  shows "ledger_entries l = drop (length evs - ring_capacity) evs"
proof -
  let ?n = "length evs"
  define count :: u64 where "count = min (lg_head l) 1024"
  have n: "?n < 2 ^ 64" and head: "lg_head l = of_nat ?n"
    using assms by (simp_all add: ring_repr_def)
  have count: "unat count = min ?n ring_capacity"
    using n by (simp add: count_def head min_def word_le_nat_alt unat_of_nat_u64)
  have idx: "unat ((lg_head l - count + of_nat i) mod 1024) = (?n - ring_capacity + i) mod ring_capacity"
    if "i < unat count" for i
  proof -
    have "lg_head l - count = of_nat (?n - ring_capacity)"
      using n count by (simp add: word_unat_eq_iff unat_sub word_le_nat_alt head unat_of_nat_u64)
    then have "lg_head l - count + of_nat i = of_nat (?n - ring_capacity + i)"
      by simp
    moreover have "?n - ring_capacity + i < 2 ^ 64"
      using that count n by (cases "?n \<le> ring_capacity") auto
    ultimately show ?thesis
      by (metis ring_index)
  qed
  have "ledger_entries l = map (\<lambda>i. lg_entries l ! unat ((lg_head l - count + of_nat i) mod 1024)) [0..<unat count]"
    by (simp add: ledger_entries_def count_def Let_def)
  also have "\<dots> = drop (?n - ring_capacity) evs"
  proof (intro nth_equalityI, goal_cases)
    case 1
    then show ?case using count by auto
  next
    case (2 i)
    then have i: "i < min ?n ring_capacity" using count by simp
    then have "?n - ring_capacity + i < ?n" by (cases "?n \<le> ring_capacity") auto
    then have "lg_entries l ! ((?n - ring_capacity + i) mod ring_capacity) = evs ! (?n - ring_capacity + i)"
      using assms by (simp add: ring_repr_def)
    then show ?case
      using 2 idx [of i] i count by simp
  qed
  finally show ?thesis .
qed

section \<open>Runs\<close>

fun local_run :: "call list \<Rightarrow> local_state \<Rightarrow> local_state" where
  "local_run [] s = s"
| "local_run (c # cs) s = local_run cs (local_call c s)"

fun spec_run :: "call list \<Rightarrow> budget \<Rightarrow> budget" where
  "spec_run [] b = b"
| "spec_run (c # cs) b = spec_run cs (spec_call c b)"

lemma run_refines:
  "local_good s \<Longrightarrow> spec_in_range cs (local_abs s) \<Longrightarrow>
     local_good (local_run cs s) \<and> local_abs (local_run cs s) = spec_run cs (local_abs s)"
proof (induction cs arbitrary: s)
  case Nil
  then show ?case by simp
next
  case (Cons c cs)
  have c: "local_good (local_call c s)" "local_abs (local_call c s) = spec_call c (local_abs s)"
    using call_refines [OF Cons.prems(1), of c] Cons.prems(2) by simp_all
  show ?case
    using Cons.IH [OF c(1)] Cons.prems(2) by (simp add: c(2))
qed

lemma local_good_new: "local_good (new_local limit c now)"
  by (simp add: local_good_def) (simp add: new_local_def NewLedger_def)

text \<open>
  The identity behind the counters, in wrapping arithmetic: usage is what open
  reservations hold plus what has been spent.
\<close>

definition open_word :: "local_reservation \<Rightarrow> i64" where
  "open_word r = (if lr_done r then 0 else lr_reserved r)"

definition balanced :: "local_state \<Rightarrow> bool" where
  "balanced s \<longleftrightarrow> lg_used (ls_ledger s) =
     sum_list (map open_word (ls_reservations s)) + lg_spent (ls_ledger s)"

lemma balanced_close:
  assumes "local_held s h = Some r" and "balanced s"
  shows "sum_list (map open_word ((ls_reservations s)[h := (ls_reservations s ! h)\<lparr>lr_done := True\<rparr>]))
    = lg_used (ls_ledger s) - lg_spent (ls_ledger s) - lr_reserved (ls_reservations s ! h)"
  using assms
  by (auto simp: local_held_def balanced_def sum_list_map_upd open_word_def split: if_splits)

lemma balanced_call:
  assumes "balanced s"
  shows "balanced (local_call c s)"
proof (cases c)
  case (CallReserve e)
  obtain res s' where res: "ledger_reserve [] background e s = (res, s')"
    by (cases "ledger_reserve [] background e s")
  show ?thesis
  proof (cases res)
    case (Inl x)
    then show ?thesis
      using CallReserve res ledger_reserve_alone_Inl [of background e s x s'] assms by simp
  next
    case (Inr h)
    then show ?thesis
      using CallReserve res ledger_reserve_Inr [of "[]" background e s h s'] assms
      by (auto simp: balanced_def open_word_def)
  qed
next
  case (CallCommit h a)
  then show ?thesis
    using assms balanced_close [of s h] local_commit_open [of s h] local_terminal_closed(1) [of s h]
    by (cases "local_held s h") (auto simp: balanced_def)
next
  case (CallRelease h)
  then show ?thesis
    using assms balanced_close [of s h] local_release_open [of s h] local_terminal_closed(2) [of s h]
    by (cases "local_held s h") (auto simp: balanced_def)
qed

lemma balanced_run: "balanced s \<Longrightarrow> balanced (local_run cs s)"
  by (induction cs arbitrary: s) (auto intro: balanced_call)

fun record_all :: "event list \<Rightarrow> local_state \<Rightarrow> local_state" where
  "record_all [] s = s"
| "record_all (ev # evs) s = record_all evs (snd (ledger_record background ev s))"

text \<open>The events \<open>Record\<close> accepts on a ledger in currency \<open>c\<close>, and what it stores.\<close>

definition recordable :: "currency \<Rightarrow> event \<Rightarrow> bool" where
  "recordable c ev \<longleftrightarrow> 0 < sint (ev_cost ev) \<and> (ev_currency ev = empty_currency \<or> ev_currency ev = c)"

definition stored :: "currency \<Rightarrow> int \<Rightarrow> event \<Rightarrow> event" where
  "stored c now ev = fill_time now (fill_currency c ev)"

lemma ledger_record_background:
  "ledger_record background ev s =
     (if recordable (lg_currency (ls_ledger s)) ev
      then (None, s\<lparr>ls_ledger := ring_put (stored (lg_currency (ls_ledger s)) (ls_now s) ev) (ls_ledger s)\<rparr>)
      else (fst (ledger_record background ev s), s))"
  "fst (ledger_record background ev s) = None \<longleftrightarrow> recordable (lg_currency (ls_ledger s)) ev"
  by (auto simp: ledger_record_def recordable_def stored_def fill_currency_def Let_def i64_simps)

lemma record_all_repr:
  "ring_repr (ls_ledger s) log \<Longrightarrow> length log + length evs < 2 ^ 64 \<Longrightarrow>
   lg_currency (ls_ledger s) = c \<Longrightarrow> ls_now s = now \<Longrightarrow>
     ring_repr (ls_ledger (record_all evs s)) (log @ map (stored c now) (filter (recordable c) evs))
     \<and> lg_used (ls_ledger (record_all evs s)) = lg_used (ls_ledger s)
     \<and> lg_spent (ls_ledger (record_all evs s)) = lg_spent (ls_ledger s)"
proof (induction evs arbitrary: s log)
  case Nil
  then show ?case by simp
next
  case (Cons ev evs)
  show ?case
  proof (cases "recordable c ev")
    case True
    let ?s = "s\<lparr>ls_ledger := ring_put (stored c now ev) (ls_ledger s)\<rparr>"
    have s: "snd (ledger_record background ev s) = ?s"
      using True Cons.prems by (subst ledger_record_background) simp
    have "ring_repr (ls_ledger ?s) (log @ [stored c now ev])"
      using Cons.prems by (simp add: ring_put_repr)
    from Cons.IH [OF this] show ?thesis
      using Cons.prems True by (simp add: s) (simp add: ring_put_def)
  next
    case False
    have s: "snd (ledger_record background ev s) = s"
      using False Cons.prems by (subst ledger_record_background) simp
    show ?thesis
      using Cons.IH [OF Cons.prems(1)] Cons.prems False by (simp add: s)
  qed
qed

section \<open>Properties\<close>

text \<open>
  C2.  The local ledger refines the abstract budget.  For every sequence of \<open>Reserve\<close>,
  \<open>Commit\<close> and \<open>Release\<close> calls, in any order and on any handles, whose totals stay within
  an \<open>int64\<close>, the ledger's limit, used and spent counters and its open reservations are
  those the specification computes with unbounded integers.
\<close>

theorem local_refines_budget:
  assumes "spec_in_range cs (local_abs (new_local limit c now))"
  shows "local_abs (local_run cs (new_local limit c now))
    = spec_run cs (local_abs (new_local limit c now))"
  using run_refines [OF local_good_new assms] by simp

text \<open>The calls of the life-cycle test: a commit below the estimate, twice, and a release.\<close>

definition example_calls :: "call list" where
  "example_calls = [CallReserve 100, CallCommit 0 40, CallCommit 0 80, CallReserve 200,
     CallRelease 1, CallCommit 1 150]"

theorem local_refines_budget_witness:
  "spec_in_range example_calls (local_abs (new_local 1000 USD 0))
   \<and> bg_used (local_abs (local_run example_calls (new_local 1000 USD 0))) = 40
   \<and> bg_spent (local_abs (local_run example_calls (new_local 1000 USD 0))) = 40"
proof -
  have abs: "local_abs (new_local 1000 USD 0) = \<lparr>bg_limit = 1000, bg_used = 0, bg_spent = 0,
      bg_open = (\<lambda>_. None), bg_next = 0\<rparr>"
    by (simp add: local_abs_def new_local_def NewLedger_def local_abs_defs fun_eq_iff)
  have r: "spec_in_range example_calls (local_abs (new_local 1000 USD 0))"
    unfolding abs by (simp add: example_calls_def spec_fits_def sint_MaxEstimate)
  show ?thesis
    using r unfolding local_refines_budget [OF r]
    unfolding abs by (simp add: example_calls_def spec_fits_def sint_MaxEstimate)
qed

text \<open>
  Conservation, for every sequence of calls and without any bound on the amounts: the
  used counter is the sum of the open reservations plus the spent counter, in 64-bit
  arithmetic.  No call leaks or loses budget, whatever it returns.
\<close>

theorem local_conservation:
  "lg_used (ls_ledger (local_run cs (new_local limit c now))) =
     sum_list (map open_word (ls_reservations (local_run cs (new_local limit c now))))
     + lg_spent (ls_ledger (local_run cs (new_local limit c now)))"
proof -
  have "balanced (new_local limit c now)"
    by (simp add: balanced_def new_local_def NewLedger_def)
  from balanced_run [OF this, of cs] show ?thesis
    by (simp only: balanced_def)
qed

text \<open>
  \<open>Reserve\<close> on every branch.  It succeeds exactly when the context is live, the
  estimate is between 0 and MaxInt64/2 and the amount fits; then the usage grows by the
  estimate, a new handle holds it, and the limit is respected.  Otherwise the state is
  unchanged and the error says why: the context's error, a validation error, or
  \<open>ErrBudgetExceeded\<close>.
\<close>

theorem reserve_decision:
  assumes "local_inv s"
  shows "case ledger_reserve [] c e s of
      (Inr h, s') \<Rightarrow> ctx_check c = None \<and> 0 \<le> sint e \<and> sint e \<le> sint MaxEstimate \<and> local_fits s e
        \<and> local_used s' = local_used s + sint e \<and> local_held s h = None
        \<and> local_held s' h = Some (sint e)
    | (Inl x, s') \<Rightarrow> s' = s \<and>
        (if ctx_check c \<noteq> None then ctx_check c = Some x
         else if sint e < 0 \<or> sint MaxEstimate < sint e then x = invalid_estimate e
         else \<not> local_fits s e \<and> errors_is x ErrBudgetExceeded)"
proof (cases "c = background \<and> 0 \<le> sint e \<and> sint e \<le> sint MaxEstimate")
  case True
  then show ?thesis
    using ledger_reserve_alone [OF assms, of e] local_reserve_effect [OF assms, of background e]
    by (auto simp: local_held_def split: if_splits)
next
  case False
  then show ?thesis
    by (cases "ctx_check c") (auto simp: ledger_reserve_def i64_simps ctx_check_None)
qed

theorem reserve_decision_witness:
  "local_inv (new_local 100 USD 0)
   \<and> (case ledger_reserve [] background 101 (new_local 100 USD 0) of
        (Inr _, _) \<Rightarrow> False | (Inl x, s') \<Rightarrow> s' = new_local 100 USD 0 \<and> errors_is x ErrBudgetExceeded)"
  using reserve_decision [OF new_local_abs(1), of 100 USD 0 background 101]
  by (auto simp: local_fits_def sint_MaxEstimate split: sum.splits prod.splits)

text \<open>
  The swap loop, round by round: what round \<open>k\<close> loads from the counter, and what the counter
  is when the round compares and swaps.
\<close>

definition loads :: "interference list \<Rightarrow> i64 \<Rightarrow> nat \<Rightarrow> i64" where
  "loads is u k = (u # map if_used is) ! k"

definition at_swap :: "interference list \<Rightarrow> i64 \<Rightarrow> nat \<Rightarrow> i64" where
  "at_swap is u k = (if k < length is then if_used (is ! k) else loads is u k)"

lemma rounds_simps [simp]:
  "loads is u 0 = u" "loads (i # is) u (Suc k) = loads is (if_used i) k"
  "at_swap (i # is) u 0 = if_used i" "at_swap [] u 0 = u" "at_swap (i # is) u (Suc k) = at_swap is (if_used i) k"
  by (simp_all add: loads_def at_swap_def)

text \<open>A round that has admitted the estimate, has lost the swap, and whose context is alive.\<close>

definition lost_round :: "interference list \<Rightarrow> i64 \<Rightarrow> ledger \<Rightarrow> nat \<Rightarrow> bool" where
  "lost_round is e l k \<longleftrightarrow> reserve_check l (loads is (lg_used l) k) e = None
     \<and> at_swap is (lg_used l) k \<noteq> loads is (lg_used l) k \<and> if_ctx (is ! k) = None"

lemma lost_round_simps [simp]:
  "lost_round (i # is) e l 0 \<longleftrightarrow> reserve_check l (lg_used l) e = None \<and> if_used i \<noteq> lg_used l \<and> if_ctx i = None"
  "lost_round (i # is) e l (Suc k) = lost_round is e (l\<lparr>lg_used := if_used i\<rparr>) k"
  by (simp_all add: lost_round_def)

text \<open>How the round \<open>k\<close> ends the loop.\<close>

definition last_round :: "interference list \<Rightarrow> i64 \<Rightarrow> ledger \<Rightarrow> nat \<Rightarrow> (gerr + unit) \<times> ledger \<Rightarrow> bool" where
  "last_round is e l k r \<longleftrightarrow> (let u = loads is (lg_used l) k; v = at_swap is (lg_used l) k in
     case reserve_check l u e of
       Some x \<Rightarrow> r = (Inl x, l\<lparr>lg_used := u\<rparr>)
     | None \<Rightarrow> if v = u then r = (Inr (), l\<lparr>lg_used := u + e\<rparr>)
         else \<exists>c. k < length is \<and> if_ctx (is ! k) = Some c \<and> r = (Inl (CtxErr c), l\<lparr>lg_used := v\<rparr>))"

lemma last_round_simps [simp]:
  "last_round (i # is) e l (Suc k) r = last_round is e (l\<lparr>lg_used := if_used i\<rparr>) k r"
  by (auto simp: last_round_def Let_def split: option.splits)

lemma reserve_loop_rounds:
  "\<exists>k\<le>length is. (\<forall>j<k. lost_round is e l j) \<and> last_round is e l k (reserve_loop is e l)"
proof (induction "is" arbitrary: l)
  case Nil
  show ?case by (simp add: last_round_def Let_def split: option.split)
next
  case (Cons i "is")
  show ?case
  proof (cases "lost_round (i # is) e l 0")
    case True
    obtain k where k: "k \<le> length is" "\<forall>j<k. lost_round is e (l\<lparr>lg_used := if_used i\<rparr>) j"
      "last_round is e (l\<lparr>lg_used := if_used i\<rparr>) k (reserve_loop is e (l\<lparr>lg_used := if_used i\<rparr>))"
      using Cons.IH by blast
    have "reserve_loop (i # is) e l = reserve_loop is e (l\<lparr>lg_used := if_used i\<rparr>)"
      using True by (simp add: Let_def)
    then have "(\<forall>j<Suc k. lost_round (i # is) e l j) \<and> last_round (i # is) e l (Suc k) (reserve_loop (i # is) e l)"
      using k(2,3) True by (simp add: All_less_Suc2)
    then show ?thesis using k(1) by (intro exI [of _ "Suc k"]) simp
  next
    case False
    then have "last_round (i # is) e l 0 (reserve_loop (i # is) e l)"
      by (auto simp: last_round_def Let_def split: option.split)
    then show ?thesis by (intro exI [of _ 0]) simp
  qed
qed

text \<open>
  C35.  The swap loop under interference.  \<open>Reserve\<close> ends, whatever other goroutines write to
  the counter: it only goes into another round when the counter is not what it has loaded,
  so with \<open>n\<close> writes of others it ends in one of the first \<open>n + 1\<close> rounds.  A success is a
  swap on a counter that still had the value \<open>u\<close> of the check, for which the sum is an \<open>int64\<close>
  within the limit: no write of another goroutine is lost.  A failure leaves the counter as
  the others last wrote it and hands out no reservation; it is the refusal of the value
  loaded last, or the error of the context after a lost swap.
\<close>

theorem reserve_under_interference:
  assumes "0 \<le> sint e" and "sint e \<le> sint MaxEstimate" and "ledger_reserve is background e s = (res, t)"
  shows "\<exists>k\<le>length is.
      (\<forall>j<k. at_swap is (lg_used (ls_ledger s)) j \<noteq> loads is (lg_used (ls_ledger s)) j \<and> if_ctx (is ! j) = None)
    \<and> (let u = loads is (lg_used (ls_ledger s)) k; v = at_swap is (lg_used (ls_ledger s)) k in
        case res of
          Inr h \<Rightarrow> v = u \<and> 0 \<le> sint u \<and> local_used t = sint u + sint e
            \<and> (0 \<le> local_limit s \<longrightarrow> local_used t \<le> local_limit s)
            \<and> h = length (ls_reservations s) \<and> t = s\<lparr>ls_ledger := (ls_ledger s)\<lparr>lg_used := u + e\<rparr>,
                ls_reservations := ls_reservations s @ [\<lparr>lr_reserved = e, lr_done = False\<rparr>]\<rparr>
        | Inl x \<Rightarrow> reserve_check (ls_ledger s) u e = Some x \<and> t = s\<lparr>ls_ledger := (ls_ledger s)\<lparr>lg_used := u\<rparr>\<rparr>
            \<or> v \<noteq> u \<and> (\<exists>c. if_ctx (is ! k) = Some c \<and> x = CtxErr c)
              \<and> t = s\<lparr>ls_ledger := (ls_ledger s)\<lparr>lg_used := v\<rparr>\<rparr>)"
proof -
  let ?l = "ls_ledger s"
  obtain k where k: "k \<le> length is" "\<forall>j<k. lost_round is e ?l j" and last: "last_round is e ?l k (reserve_loop is e ?l)"
    using reserve_loop_rounds by blast
  let ?u = "loads is (lg_used ?l) k"
  obtain r l where r: "reserve_loop is e ?l = (r, l)" by fastforce
  have t: "case r of Inl x \<Rightarrow> res = Inl x \<and> t = s\<lparr>ls_ledger := l\<rparr>
      | Inr _ \<Rightarrow> res = Inr (length (ls_reservations s)) \<and> t = s\<lparr>ls_ledger := l, ls_reservations :=
          ls_reservations s @ [\<lparr>lr_reserved = e, lr_done = False\<rparr>]\<rparr>"
    using assms r by (auto simp: ledger_reserve_def i64_simps split: sum.splits)
  have "0 \<le> sint ?u \<and> sint (?u + e) = sint ?u + sint e \<and> (0 \<le> local_limit s \<longrightarrow> sint (?u + e) \<le> local_limit s)"
    if "reserve_check ?l ?u e = None"
    using that assms(1) by (auto simp: reserve_check_None local_limit_def sint_add_i64)
  then show ?thesis
    using k last r t
    by (intro exI [of _ k])
      (auto simp: last_round_def lost_round_def Let_def local_used_def split: option.splits if_splits sum.splits)
qed

text \<open>Two other goroutines take 30 and 40; the third round adds its 25.\<close>

theorem reserve_under_interference_witness:
  "\<exists>h t. ledger_reserve [\<lparr>if_used = 30, if_ctx = None\<rparr>, \<lparr>if_used = 70, if_ctx = None\<rparr>] background 25 (new_local 100 USD 0)
       = (Inr h, t) \<and> local_used t = 95"
proof -
  let ?is = "[\<lparr>if_used = 30, if_ctx = None\<rparr>, \<lparr>if_used = 70, if_ctx = None\<rparr>] :: interference list" and ?s = "new_local 100 USD 0"
  have l: "lg_limit (ls_ledger ?s) = 100" "lg_used (ls_ledger ?s) = 0" by (simp_all add: new_local_def NewLedger_def)
  have "reserve_check (ls_ledger ?s) u 25 = None" if "u \<in> {0, 30, 70}" for u
    using that l(1) by (auto simp: reserve_check_None)
  then obtain h t where run: "ledger_reserve ?is background 25 ?s = (Inr h, t)"
    by (simp add: ledger_reserve_def MaxEstimate_def l i64_simps Let_def)
  then have "\<exists>k\<le>Suc (Suc 0). at_swap ?is 0 k = loads ?is 0 k \<and> local_used t = sint (loads ?is 0 k) + 25"
    using reserve_under_interference [OF _ _ run] by (simp add: l Let_def sint_MaxEstimate) blast
  then have "local_used t = 95"
    by (auto simp: le_Suc_eq)
  then show ?thesis using run by blast
qed

text \<open>
  The ledger fails closed after an overflow.  Commits are not guarded, so a commit
  far above its estimate can wrap the used counter; but while the counter is negative
  \<open>Reserve\<close> admits nothing, whatever the limit, even none, and changes nothing.
\<close>

theorem negative_counter_denies:
  assumes "local_used s < 0"
  shows "\<exists>x. ledger_reserve [] c e s = (Inl x, s)"
proof (cases "c = background \<and> 0 \<le> sint e")
  case True
  then obtain x where "reserve_check (ls_ledger s) (lg_used (ls_ledger s)) e = Some x"
    using reserve_check_negative [of "lg_used (ls_ledger s)" e "ls_ledger s"] assms
    by (auto simp: local_used_def)
  then show ?thesis
    using True by (simp add: ledger_reserve_def)
next
  case False
  then show ?thesis
    by (cases "ctx_check c") (auto simp: ledger_reserve_def i64_simps ctx_check_None)
qed

text \<open>A ledger with a limit of 100 that an excessive commit has driven below zero.\<close>

definition overflown :: local_state where
  "overflown = local_run [CallReserve 50, CallReserve 50, CallCommit 0 MaxInt64] (new_local 100 USD 0)"

lemma overflown_used: "lg_used (ls_ledger overflown) = -9223372036854775759"
proof -
  have s1: "ledger_reserve [] background 50 (new_local 100 USD 0) =
      (Inr 0, (new_local 100 USD 0)\<lparr>ls_ledger := (NewLedger 100 USD)\<lparr>lg_used := 50\<rparr>,
        ls_reservations := [\<lparr>lr_reserved = 50, lr_done = False\<rparr>]\<rparr>)"
    by (simp add: ledger_reserve_def new_local_def NewLedger_def reserve_check_def
        MaxInt64_def MaxEstimate_def i64_simps)
  show ?thesis
    by (simp add: overflown_def s1)
      (simp add: ledger_reserve_def local_commit_def new_local_def NewLedger_def
        reserve_check_def MaxInt64_def MaxEstimate_def i64_simps Let_def)
qed

theorem negative_counter_denies_witness:
  "local_used overflown < 0 \<and> (\<exists>x. ledger_reserve [] background 1 overflown = (Inl x, overflown))"
proof -
  have "local_used overflown < 0"
    by (simp add: local_used_def overflown_used)
  then show ?thesis
    using negative_counter_denies [of overflown background 1] by simp
qed

datatype terminal = TCommit i64 | TRelease

text \<open>What a terminal call charges if it takes effect.\<close>

fun terminal_charge :: "gctx \<times> terminal \<Rightarrow> int" where
  "terminal_charge (c, TCommit a) = max 0 (sint a)"
| "terminal_charge (c, TRelease) = 0"

fun terminal_call :: "nat \<Rightarrow> terminal \<Rightarrow> local_state \<Rightarrow> gerr option \<times> local_state" where
  "terminal_call h (TCommit a) s = local_commit h background a s"
| "terminal_call h TRelease s = local_release h background s"

fun terminal_calls :: "nat \<Rightarrow> terminal list \<Rightarrow> local_state \<Rightarrow> gerr option list \<times> local_state" where
  "terminal_calls h [] s = ([], s)"
| "terminal_calls h (t # ts) s =
     (let (e, s1) = terminal_call h t s; (es, s2) = terminal_calls h ts s1 in (e # es, s2))"

lemma terminal_call_finished:
  "local_finished s h \<Longrightarrow> terminal_call h t s = (None, s)"
  by (cases t) (auto simp: local.finished_commit [simplified] local.finished_release [simplified])

lemma terminal_calls_finished:
  "local_finished s h \<Longrightarrow> terminal_calls h ts s = (replicate (length ts) None, s)"
  by (induction ts) (simp_all add: terminal_call_finished)

lemma terminal_call_open:
  assumes "local_held s h = Some r"
  shows "fst (terminal_call h t s) = None \<and> local_finished (snd (terminal_call h t s)) h"
proof -
  have "h < length (ls_reservations s)"
    using assms by (auto simp: local_held_def split: if_splits)
  then show ?thesis
    using local_commit_open [OF assms] local_release_open [OF assms]
    by (cases t) (simp_all add: local_finished_def)
qed

text \<open>
  Terminal operations are idempotent and the first one decides.  On an open
  reservation, any sequence of commits and releases with a live context succeeds at
  every call and ends in the state the first call left.
\<close>

theorem first_terminal_decides:
  assumes "local_held s h = Some r"
  shows "terminal_calls h (t # ts) s
    = (replicate (Suc (length ts)) None, snd (terminal_call h t s))"
  using terminal_call_open [OF assms, of t]
  by (cases "terminal_call h t s") (simp add: terminal_calls_finished)

theorem first_terminal_decides_witness:
  "\<exists>s h. local_held s h = Some 100
     \<and> terminal_calls h [TCommit 40, TRelease, TCommit 80] s
       = ([None, None, None], snd (terminal_call h (TCommit 40) s))"
proof -
  obtain s' where s': "ledger_reserve [] background 100 (new_local 100 USD 0) = (Inr 0, s')"
    using ledger_reserve_alone [of "new_local 100 USD 0" 100]
    by (auto simp: local_fits_def sint_MaxEstimate) (simp add: new_local_def)
  have h: "local_held s' 0 = Some 100"
    using local_reserve_effect [OF _ s'] by simp
  show ?thesis
    using h first_terminal_decides [OF h, of "TCommit 40" "[TRelease, TCommit 80]"]
    by (intro exI [of _ s'] exI [of _ 0]) (simp add: numeral_3_eq_3)
qed

text \<open>
  C37.  The audit ring.  After any sequence of fewer than 2^64 \<open>Record\<close> calls on a fresh
  ledger, \<open>Entries\<close> returns the accepted events (a positive cost, the ledger's currency
  or none), completed with currency and time, in order, and of these the last 1024; the
  used and spent counters do not move, so a record is never a second charge.
\<close>

theorem entries_last_recorded:
  assumes "length evs < 2 ^ 64"
  shows "ledger_entries (ls_ledger (record_all evs (new_local limit c now))) =
      (let log = map (stored c now) (filter (recordable c) evs)
       in drop (length log - ring_capacity) log)
    \<and> lg_used (ls_ledger (record_all evs (new_local limit c now))) = 0
    \<and> lg_spent (ls_ledger (record_all evs (new_local limit c now))) = 0"
proof -
  have "ring_repr (ls_ledger (new_local limit c now)) []"
    by (simp add: new_local_def ring_repr_new)
  from record_all_repr [OF this, of evs c now]
  have "ring_repr (ls_ledger (record_all evs (new_local limit c now)))
      (map (stored c now) (filter (recordable c) evs))
    \<and> lg_used (ls_ledger (record_all evs (new_local limit c now))) = 0
    \<and> lg_spent (ls_ledger (record_all evs (new_local limit c now))) = 0"
    using assms by (simp add: new_local_def NewLedger_def)
  then show ?thesis
    using entries_of_repr [of "ls_ledger (record_all evs (new_local limit c now))"
        "map (stored c now) (filter (recordable c) evs)"]
    by (simp add: Let_def)
qed

text \<open>Three events: one without a currency, one in the wrong one, one that costs nothing.\<close>

definition sample_event :: "currency \<Rightarrow> i64 \<Rightarrow> event" where
  "sample_event c n = zero_event\<lparr>ev_currency := c, ev_cost := n\<rparr>"

theorem entries_last_recorded_witness:
  "ledger_entries (ls_ledger (record_all
       [sample_event empty_currency 10, sample_event EUR 20, sample_event USD 0, sample_event USD 30]
       (new_local 100 USD 7)))
     = [(sample_event USD 10)\<lparr>ev_time := Some 7\<rparr>, (sample_event USD 30)\<lparr>ev_time := Some 7\<rparr>]"
proof -
  let ?evs = "[sample_event empty_currency 10, sample_event EUR 20, sample_event USD 0, sample_event USD 30]"
  have len: "length ?evs < 2 ^ 64" by simp
  show ?thesis
    using entries_last_recorded [OF len, of 100 USD 7]
    by (simp add: sample_event_def zero_event_def recordable_def stored_def fill_currency_def
        fill_time_def empty_currency_def USD_def EUR_def)
qed

text \<open>
  The local ledger passes the contract test of the test kit.
\<close>

theorem local_passes_contract: "run_contract local_ledger (new_local 100 c now) = None"
  by (rule local_prompt.run_contract_passes) simp_all

end
