(* ===== verification/Guard.thy ===== *)
theory Guard
  imports Estimate LocalSpec
begin

text \<open>
  \<open>adapters/kernel/guard.go\<close> and \<open>nexssflow/dynamic_guard.go\<close>: the hooks that put a
  reservation around an action.  A hook takes the context of the request and the state
  of the ledger; the context carries the reservation from \<open>Before\<close> to the other hooks.
  The ledger is an interface value, so it is an option, with \<open>None\<close> for nil.  The
  kernel that calls the hooks is not modelled: the theorems hold for hooks that are
  called, in any of the orders they name.
\<close>

section \<open>Domain and operation of an action name\<close>

text \<open>The loops that look for the last dot, from the end of the name to its start.\<close>

fun domain_loop :: "string \<Rightarrow> nat \<Rightarrow> string" where
  "domain_loop name 0 = ''action''"
| "domain_loop name (Suc i) = (if name ! i = CHR ''.'' then take i name else domain_loop name i)"

definition domain :: "string \<Rightarrow> string" where
  "domain name = domain_loop name (length name)"

fun operation_loop :: "string \<Rightarrow> nat \<Rightarrow> string" where
  "operation_loop name 0 = (if name = [] then ''action'' else name)"
| "operation_loop name (Suc i) =
     (if name ! i = CHR ''.'' then drop (Suc i) name else operation_loop name i)"

definition operation :: "string \<Rightarrow> string" where
  "operation name = operation_loop name (length name)"

text \<open>\<open>actionDomainOperation\<close> of \<open>nexssflow/postgres.go\<close>, one loop for both.\<close>

fun domain_operation_loop :: "string \<Rightarrow> nat \<Rightarrow> string \<times> string" where
  "domain_operation_loop name 0 =
     (if name = [] then (''action'', ''action'') else (''action'', name))"
| "domain_operation_loop name (Suc i) =
     (if name ! i = CHR ''.'' then (take i name, drop (Suc i) name)
      else domain_operation_loop name i)"

definition action_domain_operation :: "string \<Rightarrow> string \<times> string" where
  "action_domain_operation name = domain_operation_loop name (length name)"

lemma domain_operation_loop_eq:
  "domain_operation_loop name i = (domain_loop name i, operation_loop name i)"
  by (induction i) simp_all

lemma loops_last_dot:
  "i \<le> length name \<Longrightarrow> CHR ''.'' \<notin> set (drop i name) \<Longrightarrow> CHR ''.'' \<in> set name \<Longrightarrow>
     domain_loop name i @ CHR ''.'' # operation_loop name i = name
     \<and> CHR ''.'' \<notin> set (operation_loop name i)"
proof (induction i)
  case 0
  then show ?case by simp
next
  case (Suc i)
  show ?case
  proof (cases "name ! i = CHR ''.''")
    case True
    then show ?thesis
      using Suc.prems id_take_nth_drop [of i name] by simp
  next
    case False
    then have "CHR ''.'' \<notin> set (drop i name)"
      using Suc.prems Cons_nth_drop_Suc [of i name] by (metis Suc_le_eq set_ConsD)
    then show ?thesis
      using Suc False by simp
  qed
qed

lemma loops_no_dot:
  "i \<le> length name \<Longrightarrow> CHR ''.'' \<notin> set name \<Longrightarrow>
     domain_loop name i = ''action'' \<and> operation_loop name i = (if name = [] then ''action'' else name)"
proof (induction i)
  case 0
  then show ?case by simp
next
  case (Suc i)
  then have "name ! i \<noteq> CHR ''.''"
    by (metis Suc_le_eq nth_mem)
  then show ?case using Suc by simp
qed

section \<open>The hooks of GuardAction\<close>

record 'h hook_ctx =
  hc_ctx :: gctx
  hc_value :: "'h option"

text \<open>What is logged: the message and the error.\<close>

type_synonym log = "(string \<times> gerr) list"

definition guard_before ::
  "('s, 'h) reserver option \<Rightarrow> i64 \<Rightarrow> 'h hook_ctx \<Rightarrow> 's \<Rightarrow> ('h hook_ctx \<times> gerr option) \<times> 's" where
  "guard_before ledger estimate ctx s =
     (case ledger of
        None \<Rightarrow> ((ctx, Some (Sentinel ErrNilContext)), s)
      | Some R \<Rightarrow>
          (case Reserve R (hc_ctx ctx) estimate s of
             (Inl e, s) \<Rightarrow> ((ctx, Some e), s)
           | (Inr reservation, s) \<Rightarrow> ((ctx\<lparr>hc_value := Some reservation\<rparr>, None), s)))"

definition finish_context ::
  "('s, 'h) reserver \<Rightarrow> gctx \<Rightarrow> 'h \<Rightarrow> bool \<Rightarrow> i64 \<Rightarrow> 's \<Rightarrow> gerr option \<times> 's" where
  "finish_context R ctx reservation commit actual s =
     (if commit then Commit R reservation (accounting_ctx ctx) actual s
      else Release R reservation (accounting_ctx ctx) s)"

text \<open>The event that is recorded for an action; currency and time are left to the ledger.\<close>

definition action_event :: "string \<Rightarrow> string \<Rightarrow> i64 \<Rightarrow> event" where
  "action_event d op actual = \<lparr>ev_id = [], ev_domain = d, ev_operation = op, ev_cost = actual,
     ev_currency = empty_currency, ev_time = None\<rparr>"

text \<open>
  \<open>reported\<close> is the cost of a result that implements \<open>Reporter\<close>; \<open>meta\<close> is the name in the
  action's metadata, if there is any.
\<close>

definition guard_after ::
  "('s, 'h) reserver \<Rightarrow> i64 \<Rightarrow> 'h hook_ctx \<Rightarrow> i64 option \<Rightarrow> gerr option \<Rightarrow> string option \<Rightarrow> 's
   \<Rightarrow> log \<times> 's" where
  "guard_after R estimate ctx reported action_err meta s =
     (case hc_value ctx of
        None \<Rightarrow> ([], s)
      | Some reservation \<Rightarrow>
          (case action_err of
             Some _ \<Rightarrow>
               (case finish_context R (hc_ctx ctx) reservation False 0 s of
                  (Some e, s) \<Rightarrow> ([(''failed to release cost reservation after action error'', e)], s)
                | (None, s) \<Rightarrow> ([], s))
           | None \<Rightarrow>
               let actual = (case reported of Some c \<Rightarrow> clamp0 c | None \<Rightarrow> estimate) in
               (case finish_context R (hc_ctx ctx) reservation True actual s of
                  (Some e, s) \<Rightarrow> ([(''failed to commit cost reservation'', e)], s)
                | (None, s) \<Rightarrow>
                    if actual \<le>s 0 then ([], s)
                    else
                      let name = (case meta of None \<Rightarrow> [] | Some n \<Rightarrow> n) in
                      (case RecordEvent R (accounting_ctx (hc_ctx ctx))
                              (action_event (domain name) (operation name) actual) s of
                         (Some e, s) \<Rightarrow> ([(''failed to record cost event'', e)], s)
                       | (None, s) \<Rightarrow> ([], s)))))"

text \<open>\<open>OnPanic\<close> and \<open>OnCancel\<close>.\<close>

definition guard_release :: "('s, 'h) reserver \<Rightarrow> 'h hook_ctx \<Rightarrow> 's \<Rightarrow> log \<times> 's" where
  "guard_release R ctx s =
     (case hc_value ctx of
        None \<Rightarrow> ([], s)
      | Some reservation \<Rightarrow>
          (case finish_context R (hc_ctx ctx) reservation False 0 s of
             (Some e, s) \<Rightarrow> ([(''failed to release cost reservation'', e)], s)
           | (None, s) \<Rightarrow> ([], s)))"

section \<open>The hooks of the dynamic guard\<close>

text \<open>The context value is the reservation with the estimate that was resolved for it.\<close>

definition dynamic_before ::
  "('s, 'h) reserver option \<Rightarrow> estimate_spec \<Rightarrow> ('h \<times> i64) hook_ctx \<Rightarrow> gval \<Rightarrow> 's
   \<Rightarrow> (('h \<times> i64) hook_ctx \<times> gerr option) \<times> 's" where
  "dynamic_before ledger spec ctx input s =
     (if hc_ctx ctx = NilCtx then ((ctx, Some (Sentinel ErrNilContext)), s)
      else case ledger of
        None \<Rightarrow> ((ctx, Some (Sentinel ErrNilContext)), s)
      | Some R \<Rightarrow>
          (case resolve spec input of
             Inl e \<Rightarrow> ((ctx, Some e), s)
           | Inr estimate \<Rightarrow>
               (case Reserve R (hc_ctx ctx) estimate s of
                  (Inl e, s) \<Rightarrow> ((ctx, Some e), s)
                | (Inr reservation, s) \<Rightarrow>
                    ((ctx\<lparr>hc_value := Some (reservation, estimate)\<rparr>, None), s))))"

definition dynamic_after ::
  "('s, 'h) reserver \<Rightarrow> ('h \<times> i64) hook_ctx \<Rightarrow> i64 option \<Rightarrow> gerr option \<Rightarrow> string option \<Rightarrow> 's
   \<Rightarrow> log \<times> 's" where
  "dynamic_after R ctx reported action_err meta s =
     (case hc_value ctx of
        None \<Rightarrow> ([], s)
      | Some (reservation, estimate) \<Rightarrow>
          (case action_err of
             Some _ \<Rightarrow>
               (case finish_context R (hc_ctx ctx) reservation False 0 s of
                  (Some e, s) \<Rightarrow> ([(''failed to release dynamic cost reservation after action error'', e)], s)
                | (None, s) \<Rightarrow> ([], s))
           | None \<Rightarrow>
               let actual = (case reported of Some c \<Rightarrow> clamp0 c | None \<Rightarrow> estimate) in
               (case finish_context R (hc_ctx ctx) reservation True actual s of
                  (Some e, s) \<Rightarrow> ([(''failed to commit dynamic cost reservation'', e)], s)
                | (None, s) \<Rightarrow>
                    if actual \<le>s 0 then ([], s)
                    else
                      let name = (case meta of None \<Rightarrow> [] | Some n \<Rightarrow> n);
                          (d, op) = action_domain_operation name in
                      (case RecordEvent R (accounting_ctx (hc_ctx ctx)) (action_event d op actual) s of
                         (Some e, s) \<Rightarrow> ([(''failed to record dynamic cost event'', e)], s)
                       | (None, s) \<Rightarrow> ([], s)))))"

definition dynamic_release :: "('s, 'h) reserver \<Rightarrow> ('h \<times> i64) hook_ctx \<Rightarrow> 's \<Rightarrow> log \<times> 's" where
  "dynamic_release R ctx s =
     (if hc_ctx ctx = NilCtx then ([], s)
      else case hc_value ctx of
        None \<Rightarrow> ([], s)
      | Some (reservation, _) \<Rightarrow>
          (case finish_context R (hc_ctx ctx) reservation False 0 s of
             (Some e, s) \<Rightarrow> ([(''failed to release dynamic cost reservation'', e)], s)
           | (None, s) \<Rightarrow> ([], s)))"

section \<open>What the hooks rely on\<close>

text \<open>Any reserver that keeps the contract; the log says whether a terminal call failed.\<close>

context reserver_contract
begin

lemma release_accounts:
  assumes "inv s" and "held s h = Some r" and "finish_context R c h False 0 s = (err, s')"
  shows "inv s' \<and> (if err = None then finished s' h \<and> used s' \<le> used s - r else used s' \<le> used s)"
  using assms release_ok [of s h r background s'] release_err [of s h background _ s']
  by (cases err) (auto simp: finish_context_def accounting_ctx_def)

lemma commit_accounts:
  assumes "inv s" and "held s h = Some r" and "finish_context R c h True a s = (err, s')"
    and "used s - r + max 0 (sint a) \<le> cap"
  shows "inv s' \<and> (if err = None then finished s' h \<and> used s' \<le> used s - r + max 0 (sint a)
     else used s' \<le> used s)"
  using assms commit_ok [of s h r background a s'] commit_err [of s h background a _ s']
  by (cases err) (auto simp: finish_context_def accounting_ctx_def)

lemma guard_after_failure:
  assumes "inv s" and "hc_value ctx = Some h" and "held s h = Some r"
    and "guard_after R est ctx rep (Some e) meta s = (log, s')"
  shows "inv s' \<and> (if log = [] then finished s' h \<and> used s' \<le> used s - r else used s' \<le> used s)"
proof -
  obtain err s1 where f: "finish_context R (hc_ctx ctx) h False 0 s = (err, s1)"
    by (cases "finish_context R (hc_ctx ctx) h False 0 s")
  show ?thesis
    using release_accounts [OF assms(1,3) f] assms(2,4) f
    by (cases err) (auto simp: guard_after_def)
qed

lemma guard_release_frees:
  assumes "inv s" and "hc_value ctx = Some h" and "held s h = Some r"
    and "guard_release R ctx s = (log, s')"
  shows "inv s' \<and> (if log = [] then finished s' h \<and> used s' \<le> used s - r else used s' \<le> used s)"
proof -
  obtain err s1 where f: "finish_context R (hc_ctx ctx) h False 0 s = (err, s1)"
    by (cases "finish_context R (hc_ctx ctx) h False 0 s")
  show ?thesis
    using release_accounts [OF assms(1,3) f] assms(2,4) f
    by (cases err) (auto simp: guard_release_def)
qed

lemma guard_after_success:
  assumes "inv s" and "hc_value ctx = Some h" and "held s h = Some r"
    and "actual = (case rep of Some c \<Rightarrow> clamp0 c | None \<Rightarrow> est)"
    and "used s - r + max 0 (sint actual) \<le> cap"
    and "guard_after R est ctx rep None meta s = (log, s')"
  shows "inv s' \<and> (if log = [] then finished s' h \<and> used s' \<le> used s - r + max 0 (sint actual)
     else True)"
proof -
  obtain err s1 where f: "finish_context R (hc_ctx ctx) h True actual s = (err, s1)"
    by (cases "finish_context R (hc_ctx ctx) h True actual s")
  note acc = commit_accounts [OF assms(1,3) f assms(5)]
  let ?name = "case meta of None \<Rightarrow> [] | Some n \<Rightarrow> n"
  let ?ev = "action_event (domain ?name) (operation ?name) actual"
  obtain err2 s2 where rec: "RecordEvent R background ?ev s1 = (err2, s2)"
    by (cases "RecordEvent R background ?ev s1")
  show ?thesis
  proof (cases err)
    case (Some e)
    then show ?thesis
      using f assms(2,4,6) acc by (auto simp: guard_after_def Let_def)
  next
    case None
    have "s' = s1 \<or> s' = s2"
      using f assms(2,4,6) None rec
      by (auto simp: guard_after_def Let_def accounting_ctx_def split: if_splits option.splits)
    then show ?thesis
      using acc None record_neutral [OF _ rec, of h] by auto
  qed
qed

end

section \<open>Lemmas: the guard of the local ledger\<close>

datatype ending = EndError gerr | EndPanic | EndCancel

text \<open>The hook that is called when the action fails, panics or is cancelled.\<close>

fun guard_end ::
  "('s, 'h) reserver \<Rightarrow> i64 \<Rightarrow> 'h hook_ctx \<Rightarrow> string option \<Rightarrow> ending \<Rightarrow> 's \<Rightarrow> log \<times> 's" where
  "guard_end R est ctx meta (EndError e) s = guard_after R est ctx None (Some e) meta s"
| "guard_end R est ctx meta EndPanic s = guard_release R ctx s"
| "guard_end R est ctx meta EndCancel s = guard_release R ctx s"

lemma guard_before_ok:
  assumes "guard_before (Some R) est ctx s = ((ctx1, None), s1)"
  obtains h where "Reserve R (hc_ctx ctx) est s = (Inr h, s1)" and "hc_value ctx1 = Some h"
  using assms by (auto simp: guard_before_def split: prod.splits sum.splits)

lemma ledger_record_action:
  assumes "0 < sint a"
  shows "ledger_record background (action_event d op a) s =
    (None, s\<lparr>ls_ledger := ring_put ((action_event d op a)\<lparr>
        ev_currency := lg_currency (ls_ledger s), ev_time := Some (ls_now s)\<rparr>) (ls_ledger s)\<rparr>)"
  using assms
  by (simp add: ledger_record_def action_event_def fill_currency_def fill_time_def i64_simps Let_def)

text \<open>The state after a successful \<open>Before\<close>: the counter is up, the handle is the last one.\<close>

lemma local_before:
  assumes "guard_before (Some local_ledger) est ctx s = ((ctx1, None), s1)"
  shows "hc_value ctx1 = Some (length (ls_reservations s))
    \<and> s1 = s\<lparr>ls_ledger := (ls_ledger s)\<lparr>lg_used := lg_used (ls_ledger s) + est\<rparr>,
        ls_reservations := ls_reservations s @ [\<lparr>lr_reserved = est, lr_done = False\<rparr>]\<rparr>"
proof (rule guard_before_ok [OF assms])
  fix h
  assume h: "Reserve local_ledger (hc_ctx ctx) est s = (Inr h, s1)" "hc_value ctx1 = Some h"
  from ledger_reserve_Inr [OF h(1) [simplified]] show ?thesis
    using h(2) by auto
qed

text \<open>The ledger after the action has been charged and recorded.\<close>

definition charged_ledger :: "local_state \<Rightarrow> string \<Rightarrow> i64 \<Rightarrow> ledger" where
  "charged_ledger s name actual =
     (let l = (ls_ledger s)\<lparr>lg_used := lg_used (ls_ledger s) + actual,
                            lg_spent := lg_spent (ls_ledger s) + actual\<rparr> in
      if 0 <s actual
      then ring_put ((action_event (domain name) (operation name) actual)\<lparr>
             ev_currency := lg_currency (ls_ledger s), ev_time := Some (ls_now s)\<rparr>) l
      else l)"

lemma local_after_success:
  fixes s :: local_state and est a :: i64
  defines "s1 \<equiv> s\<lparr>ls_ledger := (ls_ledger s)\<lparr>lg_used := lg_used (ls_ledger s) + est\<rparr>,
        ls_reservations := ls_reservations s @ [\<lparr>lr_reserved = est, lr_done = False\<rparr>]\<rparr>"
  assumes v: "hc_value ctx = Some (length (ls_reservations s))"
    and a: "clamp0 a = a" "a = (case rep of Some c \<Rightarrow> clamp0 c | None \<Rightarrow> est)"
  shows "fst (guard_after local_ledger est ctx rep None meta s1) = []
    \<and> ls_ledger (snd (guard_after local_ledger est ctx rep None meta s1))
      = charged_ledger s (case meta of None \<Rightarrow> [] | Some n \<Rightarrow> n) a
    \<and> ls_reservations (snd (guard_after local_ledger est ctx rep None meta s1))
      = ls_reservations s @ [\<lparr>lr_reserved = est, lr_done = True\<rparr>]"
proof -
  let ?h = "length (ls_reservations s)"
  have "local_held s1 ?h = Some (sint est)"
    by (simp add: s1_def local_held_def)
  from local_commit_open [OF this, of a]
  have c: "local_commit ?h background a s1 = (None, s\<lparr>ls_ledger := (ls_ledger s)\<lparr>
        lg_used := lg_used (ls_ledger s) + a, lg_spent := lg_spent (ls_ledger s) + a\<rparr>,
      ls_reservations := ls_reservations s @ [\<lparr>lr_reserved = est, lr_done = True\<rparr>]\<rparr>)"
    by (simp add: s1_def a(1))
  show ?thesis
  proof (cases "0 < sint a")
    case True
    then show ?thesis
      using v a(2) c ledger_record_action [OF True]
      by (simp add: guard_after_def finish_context_def accounting_ctx_def Let_def i64_simps
          charged_ledger_def)
  next
    case False
    then show ?thesis
      using v a(2) c
      by (simp add: guard_after_def finish_context_def accounting_ctx_def Let_def i64_simps
          charged_ledger_def)
  qed
qed

lemma local_end_releases:
  fixes s :: local_state and est :: i64
  defines "s1 \<equiv> s\<lparr>ls_ledger := (ls_ledger s)\<lparr>lg_used := lg_used (ls_ledger s) + est\<rparr>,
        ls_reservations := ls_reservations s @ [\<lparr>lr_reserved = est, lr_done = False\<rparr>]\<rparr>"
  assumes v: "hc_value ctx = Some (length (ls_reservations s))"
  shows "guard_end local_ledger est ctx meta e s1 =
    ([], s\<lparr>ls_reservations := ls_reservations s @ [\<lparr>lr_reserved = est, lr_done = True\<rparr>]\<rparr>)"
proof -
  let ?h = "length (ls_reservations s)"
  have "local_held s1 ?h = Some (sint est)"
    by (simp add: s1_def local_held_def)
  from local_release_open [OF this]
  have "local_release ?h background s1 = (None, s\<lparr>ls_ledger := (ls_ledger s)\<lparr>
        lg_used := lg_used (ls_ledger s)\<rparr>,
      ls_reservations := ls_reservations s @ [\<lparr>lr_reserved = est, lr_done = True\<rparr>]\<rparr>)"
    by (simp add: s1_def)
  then show ?thesis
    using v by (cases e)
      (simp_all add: guard_after_def guard_release_def finish_context_def accounting_ctx_def)
qed

section \<open>Properties\<close>

text \<open>
  C5.  A guarded action that does not succeed costs nothing.  After a successful \<open>Before\<close>
  on the local ledger, the hook for an error, a panic or a cancellation, called with a
  request context in any state (also cancelled or expired), logs nothing, puts the ledger
  back to what it was before, and finishes the reservation; a second such hook changes
  nothing.
\<close>

theorem guard_failure_costs_nothing:
  assumes "guard_before (Some local_ledger) est ctx s = ((ctx1, None), s1)"
    and "guard_end local_ledger est (ctx1\<lparr>hc_ctx := c\<rparr>) meta e1 s1 = (log, s2)"
  shows "log = [] \<and> ls_ledger s2 = ls_ledger s
    \<and> ls_reservations s2 = ls_reservations s @ [\<lparr>lr_reserved = est, lr_done = True\<rparr>]
    \<and> guard_end local_ledger est (ctx1\<lparr>hc_ctx := c\<rparr>) meta e2 s2 = ([], s2)"
proof -
  note b = local_before [OF assms(1)]
  have s2: "log = []" "s2 = s\<lparr>ls_reservations := ls_reservations s @ [\<lparr>lr_reserved = est, lr_done = True\<rparr>]\<rparr>"
    using local_end_releases [of "ctx1\<lparr>hc_ctx := c\<rparr>" s est meta e1] b assms(2) by simp_all
  have "local_release (length (ls_reservations s)) background s2 = (None, s2)"
    by (simp add: s2 local_release_def)
  then have "guard_end local_ledger est (ctx1\<lparr>hc_ctx := c\<rparr>) meta e2 s2 = ([], s2)"
    using b by (cases e2)
      (simp_all add: guard_after_def guard_release_def finish_context_def accounting_ctx_def)
  then show ?thesis
    using s2 by simp
qed

text \<open>A request of 40 against a limit of 100, which is cancelled while the action runs.\<close>

definition fresh_request :: "nat hook_ctx" where
  "fresh_request = \<lparr>hc_ctx = background, hc_value = None\<rparr>"

lemma fresh_before:
  "\<exists>ctx1 s1. guard_before (Some local_ledger) 40 fresh_request (new_local 100 USD 0) = ((ctx1, None), s1)"
  using ledger_reserve_alone [of "new_local 100 USD 0" 40]
  by (auto simp: guard_before_def fresh_request_def local_fits_def sint_MaxEstimate)

theorem guard_failure_costs_nothing_witness:
  "\<exists>ctx1 s1 s2. guard_before (Some local_ledger) 40 fresh_request (new_local 100 USD 0) = ((ctx1, None), s1)
     \<and> guard_end local_ledger 40 (ctx1\<lparr>hc_ctx := Ctx (Some Canceled)\<rparr>) None EndCancel s1 = ([], s2)
     \<and> ls_ledger s2 = NewLedger 100 USD"
proof -
  obtain ctx1 s1 where b: "guard_before (Some local_ledger) 40 fresh_request (new_local 100 USD 0) = ((ctx1, None), s1)"
    using fresh_before by blast
  obtain log s2 where e: "guard_end local_ledger 40 (ctx1\<lparr>hc_ctx := Ctx (Some Canceled)\<rparr>) None EndCancel s1 = (log, s2)"
    by (cases "guard_end local_ledger 40 (ctx1\<lparr>hc_ctx := Ctx (Some Canceled)\<rparr>) None EndCancel s1")
  show ?thesis
    using b e guard_failure_costs_nothing [OF b e, of EndCancel] by (auto simp: new_local_def)
qed

text \<open>
  C6.  A guarded action that succeeds is charged exactly once.  After a successful
  \<open>Before\<close>, \<open>After\<close> without an error, whatever the state of the request context by then,
  raises the used and the spent counter by the cost the result reports (a negative one
  counts as zero), or by the estimate when it reports none, and appends one audit event
  with the domain and operation of the action when that cost is positive.
\<close>

theorem guard_success_charges_actual:
  assumes "guard_before (Some local_ledger) est ctx s = ((ctx1, None), s1)"
    and "guard_after local_ledger est (ctx1\<lparr>hc_ctx := c\<rparr>) rep None meta s1 = (log, s2)"
  shows "log = []
    \<and> ls_ledger s2 = charged_ledger s (case meta of None \<Rightarrow> [] | Some n \<Rightarrow> n)
        (case rep of Some r \<Rightarrow> clamp0 r | None \<Rightarrow> est)
    \<and> ls_reservations s2 = ls_reservations s @ [\<lparr>lr_reserved = est, lr_done = True\<rparr>]"
proof -
  note b = local_before [OF assms(1)]
  have "0 \<le> sint est"
  proof (rule guard_before_ok [OF assms(1)])
    fix h
    assume "Reserve local_ledger (hc_ctx ctx) est s = (Inr h, s1)"
    then show ?thesis by (auto dest: ledger_reserve_Inr)
  qed
  then have "clamp0 (case rep of Some r \<Rightarrow> clamp0 r | None \<Rightarrow> est)
      = (case rep of Some r \<Rightarrow> clamp0 r | None \<Rightarrow> est)"
    by (simp split: option.split)
  from local_after_success [where ctx = "ctx1\<lparr>hc_ctx := c\<rparr>" and s = s and meta = meta, OF _ this refl]
  show ?thesis
    using b assms(2) by simp
qed

theorem guard_success_charges_actual_witness:
  "\<exists>ctx1 s1 s2. guard_before (Some local_ledger) 40 fresh_request (new_local 100 USD 0) = ((ctx1, None), s1)
     \<and> guard_after local_ledger 40 ctx1 (Some 30) None (Some ''orders.checkout'') s1 = ([], s2)
     \<and> lg_used (ls_ledger s2) = 30 \<and> lg_spent (ls_ledger s2) = 30
     \<and> map ev_domain (ledger_entries (ls_ledger s2)) = [''orders'']
     \<and> map ev_operation (ledger_entries (ls_ledger s2)) = [''checkout'']"
proof -
  let ?name = "''orders.checkout''"
  obtain ctx1 s1 where b: "guard_before (Some local_ledger) 40 fresh_request (new_local 100 USD 0) = ((ctx1, None), s1)"
    using fresh_before by blast
  have ctx1: "ctx1\<lparr>hc_ctx := hc_ctx ctx1\<rparr> = ctx1" by simp
  obtain log s2 where e: "guard_after local_ledger 40 (ctx1\<lparr>hc_ctx := hc_ctx ctx1\<rparr>) (Some 30) None (Some ?name) s1 = (log, s2)"
    by (cases "guard_after local_ledger 40 (ctx1\<lparr>hc_ctx := hc_ctx ctx1\<rparr>) (Some 30) None (Some ?name) s1")
  have res: "log = []" "ls_ledger s2 = charged_ledger (new_local 100 USD 0) ?name 30"
    using guard_success_charges_actual [OF b e] by simp_all
  let ?ev = "(action_event (domain ?name) (operation ?name) 30)\<lparr>ev_currency := USD, ev_time := Some 0\<rparr>"
  let ?l = "(NewLedger 100 USD)\<lparr>lg_used := 30, lg_spent := 30\<rparr>"
  have l: "ls_ledger s2 = ring_put ?ev ?l"
    using res(2) by (simp add: charged_ledger_def new_local_def NewLedger_def i64_simps)
  have "ring_repr ?l []"
    using ring_repr_new [of 100 USD] by (simp add: ring_repr_def)
  then have "ledger_entries (ls_ledger s2) = [?ev]"
    using entries_of_repr [OF ring_put_repr, of ?l "[]" ?ev] l by simp
  moreover have "domain ?name = ''orders''" and "operation ?name = ''checkout''"
    by (simp_all add: domain_def operation_def eval_nat_numeral)
  moreover have "lg_used (ls_ledger s2) = 30" and "lg_spent (ls_ledger s2) = 30"
    using l by (simp_all add: ring_put_def)
  ultimately show ?thesis
    using b e [unfolded ctx1] res(1) by (auto simp: action_event_def)
qed

text \<open>
  The guard on any reserver that keeps the contract.  When the hook for a failed
  action logs nothing, the reservation is finished and the usage is not above what it was
  before the request; when it logs an error, the usage is above it by no more than the
  estimate.  A failed release is never silent.
\<close>

theorem guard_failure_contract:
  assumes "reserver_contract R valid used limit held finished cap" and "valid s"
    and "guard_before (Some R) est ctx s = ((ctx1, None), s1)"
    and "guard_end R est (ctx1\<lparr>hc_ctx := c\<rparr>) meta e s1 = (log, s2)"
  shows "valid s2 \<and> (if log = [] then used s2 \<le> used s else used s2 \<le> used s + sint est)
    \<and> (if log = [] then \<exists>h. hc_value ctx1 = Some h \<and> finished s2 h else True)"
proof (rule guard_before_ok [OF assms(3)])
  fix h
  assume h: "Reserve R (hc_ctx ctx) est s = (Inr h, s1)" "hc_value ctx1 = Some h"
  note ok = reserver_contract.reserve_ok [OF assms(1,2) h(1)]
  have v: "hc_value (ctx1\<lparr>hc_ctx := c\<rparr>) = Some h" "valid s1" "held s1 h = Some (sint est)"
    using ok h(2) by simp_all
  have "valid s2 \<and> (if log = [] then finished s2 h \<and> used s2 \<le> used s1 - sint est else used s2 \<le> used s1)"
  proof (cases e)
    case (EndError x)
    show ?thesis
      using assms(4) unfolding EndError guard_end.simps
      by (rule reserver_contract.guard_after_failure [OF assms(1) v(2,1,3)])
  next
    case EndPanic
    show ?thesis
      using assms(4) unfolding EndPanic guard_end.simps
      by (rule reserver_contract.guard_release_frees [OF assms(1) v(2,1,3)])
  next
    case EndCancel
    show ?thesis
      using assms(4) unfolding EndCancel guard_end.simps
      by (rule reserver_contract.guard_release_frees [OF assms(1) v(2,1,3)])
  qed
  then show ?thesis
    using ok h(2) by (cases "log = []") auto
qed

theorem guard_failure_contract_witness:
  "\<exists>ctx1 s1 log s2. guard_before (Some local_ledger) 40 fresh_request (new_local 100 USD 0) = ((ctx1, None), s1)
     \<and> guard_end local_ledger 40 (ctx1\<lparr>hc_ctx := Ctx (Some DeadlineExceeded)\<rparr>) None EndPanic s1 = (log, s2)
     \<and> local_used s2 \<le> 40"
proof -
  obtain ctx1 s1 where b: "guard_before (Some local_ledger) 40 fresh_request (new_local 100 USD 0) = ((ctx1, None), s1)"
    using fresh_before by blast
  obtain log s2 where e: "guard_end local_ledger 40 (ctx1\<lparr>hc_ctx := Ctx (Some DeadlineExceeded)\<rparr>) None EndPanic s1 = (log, s2)"
    by (cases "guard_end local_ledger 40 (ctx1\<lparr>hc_ctx := Ctx (Some DeadlineExceeded)\<rparr>) None EndPanic s1")
  have "local_used s2 \<le> 40"
    using guard_failure_contract [OF local.reserver_contract_axioms _ b e]
    by (simp split: if_splits)
  then show ?thesis using b e by blast
qed

text \<open>
  The name of an action is split at its last dot: domain, dot and operation give the
  name back and the operation has no dot.  A name without a dot has the domain \<open>action\<close>
  and is its own operation, the empty name has the operation \<open>action\<close>.  The kernel
  adapter and the Flow adapter, which have a loop each, agree on every name.
\<close>

theorem domain_operation_split:
  "(if CHR ''.'' \<in> set name
    then domain name @ CHR ''.'' # operation name = name \<and> CHR ''.'' \<notin> set (operation name)
    else domain name = ''action'' \<and> operation name = (if name = [] then ''action'' else name))
   \<and> action_domain_operation name = (domain name, operation name)"
  using loops_last_dot [of "length name" name] loops_no_dot [of "length name" name]
  by (simp add: domain_def operation_def action_domain_operation_def domain_operation_loop_eq)

text \<open>A dynamic context seen as a static one; hooks that differ in the wording of the log only.\<close>

definition static_ctx :: "('h \<times> i64) hook_ctx \<Rightarrow> 'h hook_ctx" where
  "static_ctx ctx = \<lparr>hc_ctx = hc_ctx ctx, hc_value = map_option fst (hc_value ctx)\<rparr>"

definition same_outcome :: "log \<times> 's \<Rightarrow> log \<times> 's \<Rightarrow> bool" where
  "same_outcome a b \<longleftrightarrow> map snd (fst a) = map snd (fst b) \<and> snd a = snd b"

text \<open>
  C36.  The dynamic guard is the static guard for the estimate that the input resolves to:
  on every reserver, the hooks reserve, settle and record the same way, return the same
  error, leave the same state and log the same errors.
\<close>

theorem dynamic_guard_is_guard:
  assumes "resolve spec input = Inr est" and "hc_ctx ctx \<noteq> NilCtx"
    and "dynamic_before (Some R) spec ctx input s = ((ctx1, err), s1)"
    and "hc_value ctx = None" and "c \<noteq> NilCtx"
  shows "guard_before (Some R) est (static_ctx ctx) s = ((static_ctx ctx1, err), s1)
    \<and> same_outcome (dynamic_after R (ctx1\<lparr>hc_ctx := c\<rparr>) rep act meta t)
        (guard_after R est (static_ctx (ctx1\<lparr>hc_ctx := c\<rparr>)) rep act meta t)
    \<and> same_outcome (dynamic_release R (ctx1\<lparr>hc_ctx := c\<rparr>) t)
        (guard_release R (static_ctx (ctx1\<lparr>hc_ctx := c\<rparr>)) t)"
proof -
  have ado: "action_domain_operation n = (domain n, operation n)" for n
    by (simp add: action_domain_operation_def domain_def operation_def domain_operation_loop_eq)
  obtain res s' where r: "Reserve R (hc_ctx ctx) est s = (res, s')"
    by (cases "Reserve R (hc_ctx ctx) est s")
  have before: "guard_before (Some R) est (static_ctx ctx) s = ((static_ctx ctx1, err), s1)"
    using assms(1-3) r by (cases res) (auto simp: dynamic_before_def guard_before_def static_ctx_def)
  have val: "hc_value ctx1 = None \<or> (\<exists>h. hc_value ctx1 = Some (h, est))"
    using assms(1-4) r by (cases res) (auto simp: dynamic_before_def)
  have after: "same_outcome (dynamic_after R (ctx1\<lparr>hc_ctx := c\<rparr>) rep act meta t)
        (guard_after R est (static_ctx (ctx1\<lparr>hc_ctx := c\<rparr>)) rep act meta t)"
  proof (cases "hc_value ctx1")
    case None
    then show ?thesis
      by (simp add: same_outcome_def dynamic_after_def guard_after_def static_ctx_def)
  next
    case (Some x)
    then have x: "hc_value ctx1 = Some (fst x, est)" using val by auto
    show ?thesis
      by (cases act; cases rep; simp add: x same_outcome_def dynamic_after_def guard_after_def
          static_ctx_def ado Let_def split: option.split prod.split)
  qed
  have "same_outcome (dynamic_release R (ctx1\<lparr>hc_ctx := c\<rparr>) t)
        (guard_release R (static_ctx (ctx1\<lparr>hc_ctx := c\<rparr>)) t)"
    using val assms(5)
    by (auto simp: same_outcome_def dynamic_release_def guard_release_def static_ctx_def
        split: option.splits prod.splits)
  with before after show ?thesis by blast
qed

theorem dynamic_guard_is_guard_witness:
  "\<exists>ctx1 s1. dynamic_before (Some local_ledger) \<lparr>es_literal = 40, es_path = []\<rparr>
        \<lparr>hc_ctx = background, hc_value = None\<rparr> GNil (new_local 100 USD 0) = ((ctx1, None), s1)
     \<and> guard_before (Some local_ledger) 40 fresh_request (new_local 100 USD 0) = ((static_ctx ctx1, None), s1)
     \<and> same_outcome (dynamic_release local_ledger (ctx1\<lparr>hc_ctx := Ctx (Some Canceled)\<rparr>) s1)
         (guard_release local_ledger (static_ctx (ctx1\<lparr>hc_ctx := Ctx (Some Canceled)\<rparr>)) s1)"
proof -
  let ?spec = "\<lparr>es_literal = 40, es_path = []\<rparr>"
  let ?ctx = "\<lparr>hc_ctx = background, hc_value = None\<rparr> :: (nat \<times> i64) hook_ctx"
  have r: "resolve ?spec GNil = Inr 40"
    by (simp add: resolve_def dynamic_def)
  obtain ctx1 err s1 where d: "dynamic_before (Some local_ledger) ?spec ?ctx GNil (new_local 100 USD 0)
      = ((ctx1, err), s1)"
    by (metis prod.collapse)
  note same = dynamic_guard_is_guard [OF r _ d, of "Ctx (Some Canceled)" None None None s1]
  have "static_ctx ?ctx = fresh_request"
    by (simp add: static_ctx_def fresh_request_def)
  then have g: "guard_before (Some local_ledger) 40 fresh_request (new_local 100 USD 0)
      = ((static_ctx ctx1, err), s1)"
    using same by simp
  obtain ctx2 s2 where "guard_before (Some local_ledger) 40 fresh_request (new_local 100 USD 0) = ((ctx2, None), s2)"
    using fresh_before by blast
  with g have "err = None" by simp
  then show ?thesis
    using d g same by auto
qed

end
