(* ===== verification/Backend.thy ===== *)
theory Backend
  imports Reserver
begin

text \<open>
  What the durable backends share: a server that can fail (\<open>database/sql\<close> transactions,
  as \<open>adapters/postgres/ledger.go\<close> and \<open>nexssflow/wallet.go\<close> use them), the random
  source behind their identifiers, and the reservation objects with the \<open>done\<close> flag.
  The server itself is not part of the repository: the data it stores is the parameter
  type \<open>'d\<close> of the state, and each call takes its outcome from the list \<open>be_outcomes\<close>, so
  that theorems over all lists hold for every pattern of failures.
\<close>

section \<open>The state of a backend and its client\<close>

text \<open>
  \<open>Fine\<close>: the call reaches the server and the answer comes back.  \<open>Fails m\<close>: it has no
  effect and returns the error \<open>m\<close>.  \<open>Lost m\<close>: it takes effect, but the answer is lost and
  the client sees the error \<open>m\<close>.
\<close>

datatype outcome = Fine | Fails string | Lost string

text \<open>The reservation struct of the durable ledgers; the mutex is held for a whole call.\<close>

record resv_obj =
  ro_id :: string
  ro_done :: bool

text \<open>
  \<open>be_now\<close> is the clock of the server, \<open>be_outcomes\<close> what happens to the coming calls
  (when it is used up they are fine), \<open>be_random i\<close> what the \<open>i\<close>-th \<open>rand.Read\<close> gives
  (\<open>None\<close> for an error).
\<close>

type_synonym byte = "8 word"

record 'd backend =
  be_data :: 'd
  be_now :: int
  be_outcomes :: "outcome list"
  be_random :: "nat \<Rightarrow> byte list option"
  be_drawn :: nat
  be_objs :: "resv_obj list"

definition next_outcome :: "'d backend \<Rightarrow> outcome \<times> 'd backend" where
  "next_outcome s =
     (case be_outcomes s of
        [] \<Rightarrow> (Fine, s)
      | x # xs \<Rightarrow> (x, s\<lparr>be_outcomes := xs\<rparr>))"

text \<open>
  A call whose error ends the function: \<open>if err != nil { return fmt.Errorf(..., err) }\<close>,
  with \<open>wrap\<close> for what is returned, and else the rest of the function on the result.
\<close>

definition try_do ::
  "('s \<Rightarrow> (gerr + 'a) \<times> 's) \<Rightarrow> (gerr \<Rightarrow> gerr) \<Rightarrow> ('a \<Rightarrow> 's \<Rightarrow> (gerr + 'b) \<times> 's) \<Rightarrow> 's \<Rightarrow> (gerr + 'b) \<times> 's" where
  "try_do call wrap rest s =
     (case call s of
        (Inl e, s) \<Rightarrow> (Inl (wrap e), s)
      | (Inr a, s) \<Rightarrow> rest a s)"

definition fail :: "gerr \<Rightarrow> 's \<Rightarrow> (gerr + 'a) \<times> 's" where
  "fail e s = (Inl e, s)"

definition wrapf :: "string \<Rightarrow> gerr \<Rightarrow> gerr" where
  "wrapf fmt e = Errorf fmt [FErr e]"

text \<open>The result of a method that returns an error only.\<close>

definition only_error :: "(gerr + 'a) \<times> 's \<Rightarrow> gerr option \<times> 's" where
  "only_error r = (case r of (Inl e, s) \<Rightarrow> (Some e, s) | (Inr _, s) \<Rightarrow> (None, s))"

section \<open>Transactions\<close>

text \<open>
  A transaction works on a copy of the data, which \<open>Commit\<close> installs.  The deferred
  \<open>rollback\<close> drops the copy; its own errors are only logged.  The rows are locked, so a
  transaction is one step for other clients.
\<close>

definition begin_tx :: "'d backend \<Rightarrow> (gerr + 'd) \<times> 'd backend" where
  "begin_tx s =
     (case next_outcome s of
        (Fine, s) \<Rightarrow> (Inr (be_data s), s)
      | (Fails m, s) \<Rightarrow> (Inl (External m), s)
      | (Lost m, s) \<Rightarrow> (Inl (External m), s))"

text \<open>A statement in a transaction: \<open>answer\<close> is the error or the result of the server.\<close>

definition tx_call :: "string + 'a \<Rightarrow> 'd backend \<Rightarrow> (gerr + 'a) \<times> 'd backend" where
  "tx_call answer s =
     (case next_outcome s of
        (Fine, s) \<Rightarrow> (case answer of Inl m \<Rightarrow> (Inl (External m), s) | Inr a \<Rightarrow> (Inr a, s))
      | (Fails m, s) \<Rightarrow> (Inl (External m), s)
      | (Lost m, s) \<Rightarrow> (Inl (External m), s))"

definition commit_tx :: "'d \<Rightarrow> 'd backend \<Rightarrow> (gerr + unit) \<times> 'd backend" where
  "commit_tx tx s =
     (case next_outcome s of
        (Fine, s) \<Rightarrow> (Inr (), s\<lparr>be_data := tx\<rparr>)
      | (Fails m, s) \<Rightarrow> (Inl (External m), s)
      | (Lost m, s) \<Rightarrow> (Inl (External m), s\<lparr>be_data := tx\<rparr>))"

text \<open>A statement outside a transaction; \<open>d\<close> is the data after it, if the server accepts it.\<close>

definition exec_call :: "string + 'd \<Rightarrow> 'd backend \<Rightarrow> (gerr + unit) \<times> 'd backend" where
  "exec_call d s =
     (case next_outcome s of
        (Fine, s) \<Rightarrow> (case d of Inl m \<Rightarrow> (Inl (External m), s) | Inr d \<Rightarrow> (Inr (), s\<lparr>be_data := d\<rparr>))
      | (Fails m, s) \<Rightarrow> (Inl (External m), s)
      | (Lost m, s) \<Rightarrow>
          (case d of Inl m' \<Rightarrow> (Inl (External m), s)
           | Inr d \<Rightarrow> (Inl (External m), s\<lparr>be_data := d\<rparr>)))"

text \<open>\<open>sql.ErrNoRows\<close> where the code does not look for it.\<close>

definition err_no_rows :: gerr where
  "err_no_rows = External ''sql: no rows in result set''"

section \<open>Identifiers\<close>

definition hex_digit :: "nat \<Rightarrow> char" where
  "hex_digit n = (if n < 10 then char_of (48 + n) else char_of (87 + n))"

text \<open>\<open>hex.EncodeToString\<close>.\<close>

fun hex_encode :: "byte list \<Rightarrow> string" where
  "hex_encode [] = []"
| "hex_encode (b # bs) = hex_digit (unat b div 16) # hex_digit (unat b mod 16) # hex_encode bs"

text \<open>\<open>newID\<close>, \<open>newWalletReservationID\<close> and \<open>newRuntimeReservationID\<close>.\<close>

definition new_id :: "'d backend \<Rightarrow> (gerr + string) \<times> 'd backend" where
  "new_id s =
     (let i = be_drawn s; s = s\<lparr>be_drawn := Suc i\<rparr> in
      case be_random s i of
        None \<Rightarrow> (Inl (External ''rand''), s)
      | Some b \<Rightarrow> (Inr (hex_encode b), s))"

section \<open>Reservation objects\<close>

definition add_obj :: "string \<Rightarrow> 'd backend \<Rightarrow> (gerr + nat) \<times> 'd backend" where
  "add_obj i s = (Inr (length (be_objs s)), s\<lparr>be_objs := be_objs s @ [\<lparr>ro_id = i, ro_done = False\<rparr>]\<rparr>)"

text \<open>
  The frame of \<open>Commit\<close> and \<open>Release\<close>: nothing when \<open>done\<close> is set, else the operation,
  and \<open>done\<close> is set only when it succeeds.
\<close>

definition once :: "nat \<Rightarrow> (string \<Rightarrow> 'd backend \<Rightarrow> (gerr + unit) \<times> 'd backend) \<Rightarrow> 'd backend
    \<Rightarrow> gerr option \<times> 'd backend" where
  "once h operation s =
     (let r = be_objs s ! h in
      if ro_done r then (None, s)
      else case operation (ro_id r) s of
        (Inl e, s) \<Rightarrow> (Some e, s)
      | (Inr _, s) \<Rightarrow> (None, s\<lparr>be_objs := (be_objs s)[h := r\<lparr>ro_done := True\<rparr>]\<rparr>))"

section \<open>Leases\<close>

text \<open>
  A row of \<open>cost_reservations\<close> or \<open>cost_wallet_reservations\<close>; \<open>le_owner\<close> is the scope or
  the wallet, \<open>le_expires\<close> in microseconds of the server's clock.
\<close>

record lease =
  le_id :: string
  le_owner :: string
  le_amount :: i64
  le_expires :: int

definition ttl_seconds :: "i64 \<Rightarrow> int" where
  "ttl_seconds ttl = max (sint ttl div 1000000000) 1"

definition in_int64 :: "int \<Rightarrow> bool" where
  "in_int64 x \<longleftrightarrow> min_int64 \<le> x \<and> x \<le> max_int64"

definition lease_expired :: "string \<Rightarrow> int \<Rightarrow> lease \<Rightarrow> bool" where
  "lease_expired owner now r \<longleftrightarrow> le_owner r = owner \<and> le_expires r \<le> now"

definition sum_leases :: "lease list \<Rightarrow> int" where
  "sum_leases rows = (\<Sum>r\<leftarrow>rows. sint (le_amount r))"

text \<open>
  \<open>DELETE ... WHERE owner AND expires_at <= CURRENT_TIMESTAMP RETURNING amount_micros\<close>, and
  the sum of what it returns, which has to fit the \<open>int64\<close> it is scanned into.
\<close>

definition sql_reclaim :: "string \<Rightarrow> int \<Rightarrow> lease list \<Rightarrow> string + i64 \<times> lease list" where
  "sql_reclaim owner now rows =
     (let total = sum_leases (filter (lease_expired owner now) rows) in
      if in_int64 total
      then Inr (word_of_int total, filter (\<lambda>r. \<not> lease_expired owner now r) rows)
      else Inl ''converting driver.Value type to a int64: value out of range'')"

text \<open>\<open>INSERT\<close> of a lease; the identifier is the primary key.\<close>

definition sql_insert_lease :: "lease \<Rightarrow> lease list \<Rightarrow> string + lease list" where
  "sql_insert_lease r rows =
     (if list_ex (\<lambda>x. le_id x = le_id r) rows
      then Inl ''duplicate key value violates unique constraint'' else Inr (rows @ [r]))"

text \<open>\<open>DELETE ... WHERE p RETURNING amount_micros\<close>, of which one row is read.\<close>

definition sql_take :: "(lease \<Rightarrow> bool) \<Rightarrow> lease list \<Rightarrow> i64 option \<times> lease list" where
  "sql_take p rows = (map_option le_amount (List.find p rows), filter (\<lambda>r. \<not> p r) rows)"

section \<open>Lemmas: server calls\<close>

text \<open>No coming answer is lost; this is kept by every call.\<close>

definition no_lost :: "'d backend \<Rightarrow> bool" where
  "no_lost s \<longleftrightarrow> (\<forall>m. Lost m \<notin> set (be_outcomes s))"

text \<open>The parts of the state that a call on the server leaves alone.\<close>

definition same_client :: "'d backend \<Rightarrow> 'd backend \<Rightarrow> bool" where
  "same_client s t \<longleftrightarrow> be_objs t = be_objs s \<and> be_now t = be_now s \<and> be_random t = be_random s
     \<and> be_drawn s \<le> be_drawn t
     \<and> (no_lost s \<longrightarrow> no_lost t) \<and> (be_outcomes s = [] \<longrightarrow> be_outcomes t = [])"

lemma same_client_refl [simp]: "same_client s s"
  by (simp add: same_client_def)

lemma same_client_trans: "same_client s t \<Longrightarrow> same_client t u \<Longrightarrow> same_client s u"
  by (auto simp: same_client_def)

lemma same_client_data [simp]: "same_client s (t\<lparr>be_data := d\<rparr>) = same_client s t"
  by (simp add: same_client_def no_lost_def)

lemma next_outcome_state:
  assumes "next_outcome s = (x, t)"
  shows "be_data t = be_data s \<and> be_drawn t = be_drawn s \<and> same_client s t
    \<and> (no_lost s \<longrightarrow> (\<forall>m. x \<noteq> Lost m))"
  using assms by (auto simp: next_outcome_def same_client_def no_lost_def split: list.splits)

lemma next_outcome_quiet [simp]: "be_outcomes s = [] \<Longrightarrow> next_outcome s = (Fine, s)"
  by (simp add: next_outcome_def)

lemma begin_tx_state:
  assumes "begin_tx s = (res, t)"
  shows "be_data t = be_data s \<and> be_drawn t = be_drawn s \<and> same_client s t
    \<and> (\<forall>d. res = Inr d \<longrightarrow> d = be_data s)"
  using assms by (auto simp: begin_tx_def split: prod.splits outcome.splits dest!: next_outcome_state)

lemma tx_call_state:
  assumes "tx_call answer s = (res, t)"
  shows "be_data t = be_data s \<and> be_drawn t = be_drawn s \<and> same_client s t
    \<and> (\<forall>a. res = Inr a \<longrightarrow> answer = Inr a)"
  using assms
  by (auto simp: tx_call_def split: prod.splits outcome.splits sum.splits dest!: next_outcome_state)

lemma commit_tx_state:
  assumes "commit_tx tx s = (err, t)"
  shows "be_drawn t = be_drawn s \<and> same_client s t
    \<and> be_data t \<in> {be_data s, tx} \<and> (\<forall>u. err = Inr u \<longrightarrow> be_data t = tx)
    \<and> (no_lost s \<longrightarrow> (\<forall>e. err = Inl e \<longrightarrow> be_data t = be_data s))"
  using assms
  by (auto simp: commit_tx_def split: prod.splits outcome.splits dest!: next_outcome_state)

lemma exec_call_state:
  assumes "exec_call d s = (err, t)"
  shows "be_drawn t = be_drawn s \<and> same_client s t
    \<and> (be_data t = be_data s \<or> (\<exists>x. d = Inr x \<and> be_data t = x))
    \<and> (\<forall>u. err = Inr u \<longrightarrow> (\<exists>x. d = Inr x \<and> be_data t = x))"
  using assms
  by (auto simp: exec_call_def split: prod.splits outcome.splits sum.splits dest!: next_outcome_state)

lemma quiet_calls [simp]:
  assumes "be_outcomes s = []"
  shows "begin_tx s = (Inr (be_data s), s)"
    and "tx_call answer s = ((case answer of Inl m \<Rightarrow> Inl (External m) | Inr a \<Rightarrow> Inr a), s)"
    and "commit_tx tx s = (Inr (), s\<lparr>be_data := tx\<rparr>)"
    and "exec_call d s = (case d of Inl m \<Rightarrow> (Inl (External m), s) | Inr x \<Rightarrow> (Inr (), s\<lparr>be_data := x\<rparr>))"
  using assms
  by (simp_all add: begin_tx_def tx_call_def commit_tx_def exec_call_def split: sum.split)

lemma new_id_state:
  assumes "new_id s = (res, t)"
  shows "be_data t = be_data s \<and> same_client s t \<and> be_drawn t = Suc (be_drawn s)
    \<and> (\<forall>id. res = Inr id \<longrightarrow> (\<exists>b. be_random s (be_drawn s) = Some b \<and> id = hex_encode b))"
  using assms by (auto simp: new_id_def Let_def same_client_def no_lost_def split: option.splits)

lemma once_done: "ro_done (be_objs s ! h) \<Longrightarrow> once h operation s = (None, s)"
  by (simp add: once_def Let_def)

lemma once_open:
  assumes "\<not> ro_done (be_objs s ! h)" and "once h operation s = (err, t)"
  shows "(\<exists>e. err = Some e \<and> operation (ro_id (be_objs s ! h)) s = (Inl e, t))
    \<or> (\<exists>u. err = None \<and> operation (ro_id (be_objs s ! h)) s = (Inr (), u)
          \<and> t = u\<lparr>be_objs := (be_objs u)[h := (be_objs s ! h)\<lparr>ro_done := True\<rparr>]\<rparr>)"
  using assms by (auto simp: once_def Let_def split: prod.splits sum.splits)

text \<open>What a call may change besides the data and the objects.\<close>

definition same_env :: "'d backend \<Rightarrow> 'd backend \<Rightarrow> bool" where
  "same_env s t \<longleftrightarrow> be_now t = be_now s \<and> be_random t = be_random s
     \<and> (no_lost s \<longrightarrow> no_lost t) \<and> (be_outcomes s = [] \<longrightarrow> be_outcomes t = [])"

lemma same_client_env: "same_client s t \<Longrightarrow> same_env s t \<and> be_objs t = be_objs s"
  by (simp add: same_client_def same_env_def)

lemma same_env_trans: "same_env s t \<Longrightarrow> same_env t u \<Longrightarrow> same_env s u"
  by (auto simp: same_env_def)

lemma same_env_objs [simp]: "same_env s (t\<lparr>be_objs := xs\<rparr>) = same_env s t"
  by (simp add: same_env_def no_lost_def)

section \<open>Lemmas: sequences of calls\<close>

lemma try_doE:
  assumes "try_do call wrap rest s = (res, t)"
  obtains (error) e where "call s = (Inl e, t)" and "res = Inl (wrap e)"
    | (ok) a s1 where "call s = (Inr a, s1)" and "rest a s1 = (res, t)"
  using assms by (auto simp: try_do_def split: prod.splits sum.splits)

lemma try_do_ok [simp]: "call s = (Inr a, s1) \<Longrightarrow> try_do call wrap rest s = rest a s1"
  by (simp add: try_do_def)

lemma try_do_error [simp]: "call s = (Inl e, s1) \<Longrightarrow> try_do call wrap rest s = (Inl (wrap e), s1)"
  by (simp add: try_do_def)

lemma fail_eq [simp]: "fail e s = (Inl e, s)"
  by (simp add: fail_def)

lemma only_error_eq:
  "only_error r = (err, t) \<longleftrightarrow> (\<exists>e. r = (Inl e, t) \<and> err = Some e) \<or> (\<exists>a. r = (Inr a, t) \<and> err = None)"
  by (auto simp: only_error_def split: prod.splits sum.splits)

section \<open>Lemmas: identifiers\<close>

lemma hex_digit_inj: "m < 16 \<Longrightarrow> n < 16 \<Longrightarrow> hex_digit m = hex_digit n \<longleftrightarrow> m = n"
  by (auto simp: hex_digit_def split: if_splits dest: arg_cong [where f = of_char])

lemma hex_encode_inj: "hex_encode a = hex_encode b \<longleftrightarrow> a = b"
proof (induction a arbitrary: b)
  case Nil
  then show ?case by (cases b) simp_all
next
  case (Cons x xs)
  have eq: "unat x div 16 = unat y div 16 \<and> unat x mod 16 = unat y mod 16 \<longleftrightarrow> x = y" for y :: byte
    by (metis div_mult_mod_eq word_unat_eq_iff)
  have "unat y div 16 < 16" for y :: byte
    using unsigned_less [where ?'a = nat, of y] by simp
  then show ?case
    using Cons by (cases b) (auto simp: hex_digit_inj eq [symmetric])
qed

section \<open>Lemmas: leases\<close>

lemma in_int64_sint [simp]: "in_int64 (sint (w :: i64))"
  using sint_upper [of w] sint_lower [of w] by (simp add: in_int64_def)

lemma sint_of_in_int64: "in_int64 x \<Longrightarrow> sint (word_of_int x :: i64) = x"
  by (simp add: in_int64_def sint_word_of_int_i64)

lemma ttl_seconds_pos: "0 < ttl_seconds ttl"
  by (simp add: ttl_seconds_def)

lemma sum_leases_simps [simp]:
  "sum_leases [] = 0"
  "sum_leases (r # rows) = sint (le_amount r) + sum_leases rows"
  "sum_leases (rows @ rows') = sum_leases rows + sum_leases rows'"
  by (simp_all add: sum_leases_def)

text \<open>Rows with distinct identifiers and non-negative amounts.\<close>

definition good_leases :: "lease list \<Rightarrow> bool" where
  "good_leases rows \<longleftrightarrow> distinct (map le_id rows) \<and> (\<forall>r\<in>set rows. 0 \<le> sint (le_amount r))"

definition owned :: "string \<Rightarrow> lease list \<Rightarrow> lease list" where
  "owned owner rows = filter (\<lambda>r. le_owner r = owner) rows"

definition owed :: "string \<Rightarrow> lease list \<Rightarrow> int" where
  "owed owner rows = sum_leases (owned owner rows)"

lemma owed_simps [simp]:
  "owed owner [] = 0"
  "owed owner (r # rows) = (if le_owner r = owner then sint (le_amount r) else 0) + owed owner rows"
  "owed owner (rows @ rows') = owed owner rows + owed owner rows'"
  by (simp_all add: owed_def owned_def)

lemma sum_leases_nonneg: "good_leases rows \<Longrightarrow> 0 \<le> sum_leases rows"
  by (auto simp: sum_leases_def good_leases_def intro: sum_list_nonneg_int)

lemma good_leases_filter: "good_leases rows \<Longrightarrow> good_leases (filter p rows)"
  by (auto simp: good_leases_def distinct_map_filter)

lemma owed_nonneg: "good_leases rows \<Longrightarrow> 0 \<le> owed owner rows"
  by (simp add: owed_def owned_def good_leases_filter sum_leases_nonneg)

lemma owed_split:
  "owed owner rows = sum_leases (filter (lease_expired owner now) rows)
     + owed owner (filter (\<lambda>r. \<not> lease_expired owner now r) rows)"
  by (induction rows) (auto simp: lease_expired_def)

text \<open>What a reclaim does to the sum of an owner.\<close>

lemma sql_reclaim_owed:
  assumes "sql_reclaim owner now rows = Inr (tot, rows')" and "good_leases rows"
  shows "0 \<le> sint tot \<and> owed owner rows = sint tot + owed owner rows' \<and> good_leases rows'
    \<and> rows' = filter (\<lambda>r. \<not> lease_expired owner now r) rows"
proof -
  let ?t = "sum_leases (filter (lease_expired owner now) rows)"
  have t: "in_int64 ?t" "tot = word_of_int ?t" "rows' = filter (\<lambda>r. \<not> lease_expired owner now r) rows"
    using assms(1) by (auto simp: sql_reclaim_def Let_def split: if_splits)
  have "sint tot = ?t"
    using t by (simp add: sint_of_in_int64)
  moreover have "0 \<le> ?t"
    using assms(2) by (intro sum_leases_nonneg good_leases_filter)
  ultimately show ?thesis
    using t owed_split [of owner rows now] good_leases_filter [OF assms(2)] by auto
qed

lemma sql_reclaim_none:
  assumes "\<forall>r\<in>set rows. \<not> lease_expired owner now r"
  shows "sql_reclaim owner now rows = Inr (0, rows)"
proof -
  have "filter (lease_expired owner now) rows = []"
    using assms by (simp add: filter_empty_conv)
  moreover have "filter (\<lambda>r. \<not> lease_expired owner now r) rows = rows"
    using assms by (simp add: filter_id_conv)
  ultimately show ?thesis
    by (simp add: sql_reclaim_def in_int64_def)
qed

text \<open>The lease with an identifier, and taking it.\<close>

definition lease_of :: "string \<Rightarrow> lease list \<Rightarrow> lease option" where
  "lease_of i rows = List.find (\<lambda>r. le_id r = i) rows"

lemma lease_of_simps [simp]:
  "lease_of i [] = None"
  "lease_of i (r # rows) = (if le_id r = i then Some r else lease_of i rows)"
  by (simp_all add: lease_of_def)

lemma lease_of_Some: "lease_of i rows = Some r \<Longrightarrow> r \<in> set rows \<and> le_id r = i"
  by (induction rows) (auto split: if_splits)

lemma lease_of_None: "lease_of i rows = None \<longleftrightarrow> i \<notin> le_id ` set rows"
  by (induction rows) auto

lemma lease_of_append: "lease_of i (rows @ rows') =
    (case lease_of i rows of None \<Rightarrow> lease_of i rows' | Some r \<Rightarrow> Some r)"
  by (induction rows) auto

lemma lease_of_member: "good_leases rows \<Longrightarrow> r \<in> set rows \<Longrightarrow> lease_of (le_id r) rows = Some r"
  by (induction rows) (auto simp: good_leases_def image_iff)

lemma lease_of_filter: "lease_of i rows = Some r \<Longrightarrow> p r \<Longrightarrow> lease_of i (filter p rows) = Some r"
  by (induction rows) (auto split: if_splits)

lemma lease_of_filter_Some:
  "good_leases rows \<Longrightarrow> lease_of i (filter p rows) = Some r \<Longrightarrow> lease_of i rows = Some r \<and> p r"
  using lease_of_Some [of i "filter p rows" r] lease_of_member [of rows r] by auto

lemma sql_insert_lease_Inr:
  assumes "sql_insert_lease r rows = Inr rows'"
  shows "rows' = rows @ [r] \<and> lease_of (le_id r) rows = None \<and> le_id r \<notin> le_id ` set rows"
  using assms by (auto simp: sql_insert_lease_def list_ex_iff lease_of_None split: if_splits)

lemma good_leases_insert:
  assumes "good_leases rows" and "0 \<le> sint (le_amount r)" and "le_id r \<notin> le_id ` set rows"
  shows "good_leases (rows @ [r])"
  using assms by (auto simp: good_leases_def)

lemma owed_remove:
  assumes "good_leases rows" and "lease_of i rows = Some r"
  shows "owed owner (filter (\<lambda>x. le_id x \<noteq> i) rows)
    = owed owner rows - (if le_owner r = owner then sint (le_amount r) else 0)"
  using assms
proof (induction rows)
  case Nil
  then show ?case by simp
next
  case (Cons x rows)
  show ?case
  proof (cases "le_id x = i")
    case True
    then have "i \<notin> le_id ` set rows" using Cons.prems by (auto simp: good_leases_def)
    then have "filter (\<lambda>x. le_id x \<noteq> i) rows = rows"
      by (auto simp: filter_id_conv)
    then show ?thesis using True Cons.prems by simp
  next
    case False
    then show ?thesis
      using Cons by (simp add: good_leases_def)
  qed
qed

lemma owed_ge_lease:
  assumes "good_leases rows" and "lease_of i rows = Some r" and "le_owner r = owner"
  shows "sint (le_amount r) \<le> owed owner rows"
  using owed_remove [OF assms(1,2), of owner] owed_nonneg [OF good_leases_filter [OF assms(1)], of owner "\<lambda>x. le_id x \<noteq> i"]
    assms(3) by simp

lemma good_amount: "good_leases rows \<Longrightarrow> lease_of i rows = Some r \<Longrightarrow> 0 \<le> sint (le_amount r)"
  using lease_of_Some [of i rows r] by (auto simp: good_leases_def)

lemma sint_diff_nonneg: "0 \<le> sint a \<Longrightarrow> 0 \<le> sint b \<Longrightarrow> sint ((a :: i64) - b) = sint a - sint b"
  using sint_upper [of a] sint_upper [of b] by (intro sint_diff_i64) linarith+

section \<open>Lemmas: what reservation objects hold\<close>

text \<open>
  \<open>rows\<close> are the leases in the data.  An object that is not done holds the amount of the
  lease with its identifier, if the lease is still there.
\<close>

definition held_lease :: "lease list \<Rightarrow> resv_obj list \<Rightarrow> nat \<Rightarrow> int option" where
  "held_lease rows objs h =
     (if h < length objs \<and> \<not> ro_done (objs ! h)
      then map_option (\<lambda>r. sint (le_amount r)) (lease_of (ro_id (objs ! h)) rows) else None)"

definition obj_finished :: "resv_obj list \<Rightarrow> nat \<Rightarrow> bool" where
  "obj_finished objs h \<longleftrightarrow> h < length objs \<and> ro_done (objs ! h)"

text \<open>The leases of the open objects are leases of the owner.\<close>

definition objs_owned :: "string \<Rightarrow> lease list \<Rightarrow> resv_obj list \<Rightarrow> bool" where
  "objs_owned owner rows objs \<longleftrightarrow>
     (\<forall>x\<in>set objs. \<not> ro_done x \<longrightarrow> (\<forall>r. lease_of (ro_id x) rows = Some r \<longrightarrow> le_owner r = owner))"

lemma objs_owned_filter:
  "objs_owned owner rows objs \<Longrightarrow> good_leases rows \<Longrightarrow> objs_owned owner (filter p rows) objs"
  by (auto simp: objs_owned_def dest!: lease_of_filter_Some)

lemma objs_owned_insert:
  assumes "objs_owned owner rows objs" and "le_owner r = owner" and "lease_of (le_id r) rows = None"
  shows "objs_owned owner (rows @ [r]) (objs @ [\<lparr>ro_id = le_id r, ro_done = False\<rparr>])"
  using assms by (auto simp: objs_owned_def lease_of_append split: option.splits if_splits)

lemma objs_owned_done:
  assumes "objs_owned owner rows objs"
  shows "objs_owned owner rows (objs[h := x\<lparr>ro_done := True\<rparr>])"
  using assms by (auto simp: objs_owned_def dest!: set_update_cases)

lemma held_lease_new:
  assumes "lease_of (le_id r) rows = None"
  shows "held_lease (rows @ [r]) (objs @ [\<lparr>ro_id = le_id r, ro_done = False\<rparr>]) (length objs)
    = Some (sint (le_amount r))"
  using assms by (simp add: held_lease_def lease_of_append)

lemma held_leaseD:
  assumes "held_lease rows objs h = Some a"
  shows "h < length objs \<and> \<not> ro_done (objs ! h)
    \<and> (\<exists>r. lease_of (ro_id (objs ! h)) rows = Some r \<and> sint (le_amount r) = a)"
  using assms by (auto simp: held_lease_def split: if_splits)

lemma done_obj [simp]:
  assumes "h < length objs"
  shows "obj_finished (objs[h := x\<lparr>ro_done := True\<rparr>]) h"
    and "held_lease rows (objs[h := x\<lparr>ro_done := True\<rparr>]) h = None"
  using assms by (simp_all add: obj_finished_def held_lease_def)

lemma once_finished: "obj_finished (be_objs s) h \<Longrightarrow> once h operation s = (None, s)"
  by (simp add: obj_finished_def once_done)

text \<open>Taking a lease by its identifier.\<close>

lemma sql_take_lease:
  "sql_take (\<lambda>r. le_id r = i) rows = (map_option le_amount (lease_of i rows), filter (\<lambda>r. le_id r \<noteq> i) rows)"
  by (simp add: sql_take_def lease_of_def)

section \<open>Lemmas: a quiet world\<close>

text \<open>
  Every call is answered, and the random source never repeats an identifier that is in use.
\<close>

definition fresh_ids :: "string set \<Rightarrow> 'd backend \<Rightarrow> bool" where
  "fresh_ids used s \<longleftrightarrow>
     (\<forall>n\<ge>be_drawn s. \<exists>b. be_random s n = Some b \<and> hex_encode b \<notin> used)
     \<and> (\<forall>m n. be_drawn s \<le> m \<longrightarrow> be_drawn s \<le> n \<longrightarrow> m \<noteq> n \<longrightarrow> be_random s m \<noteq> be_random s n)"

lemma fresh_idsD: "fresh_ids used s \<Longrightarrow>
    \<exists>b. be_random s (be_drawn s) = Some b \<and> hex_encode b \<notin> used"
  by (auto simp: fresh_ids_def)

lemma fresh_ids_subset:
  assumes "fresh_ids used s" and "used' \<subseteq> used"
    and "be_random t = be_random s" and "be_drawn s \<le> be_drawn t"
  shows "fresh_ids used' t"
proof -
  have "\<exists>b. be_random t n = Some b \<and> hex_encode b \<notin> used'" if "be_drawn t \<le> n" for n
  proof -
    have "be_drawn s \<le> n" using that assms(4) by simp
    then obtain b where "be_random s n = Some b" "hex_encode b \<notin> used"
      using assms(1) by (auto simp: fresh_ids_def)
    then show ?thesis using assms(2,3) by auto
  qed
  moreover have "be_random t m \<noteq> be_random t n" if "be_drawn t \<le> m" "be_drawn t \<le> n" "m \<noteq> n" for m n
    using that assms(1,3,4) by (auto simp: fresh_ids_def)
  ultimately show ?thesis by (auto simp: fresh_ids_def)
qed

lemma fresh_ids_insert:
  assumes "fresh_ids used s" and "be_random s (be_drawn s) = Some b"
    and "be_random t = be_random s" and "be_drawn t = Suc (be_drawn s)"
  shows "fresh_ids (insert (hex_encode b) used) t"
proof -
  have "fresh_ids used t"
    using fresh_ids_subset [OF assms(1), of used t] assms(3,4) by simp
  moreover have "\<exists>c. be_random t n = Some c \<and> hex_encode c \<notin> insert (hex_encode b) used" if n: "be_drawn t \<le> n" for n
  proof -
    obtain c where c: "be_random t n = Some c" "hex_encode c \<notin> used"
      using calculation n unfolding fresh_ids_def by blast
    have "be_random s n \<noteq> be_random s (be_drawn s)"
      using assms(1,4) n by (auto simp: fresh_ids_def)
    then show ?thesis
      using c assms(2,3) by (auto simp: hex_encode_inj)
  qed
  ultimately show ?thesis by (auto simp: fresh_ids_def)
qed

section \<open>Example servers\<close>

text \<open>A server with some data, the outcomes of the coming calls and a random source that counts.\<close>

definition counting :: "nat \<Rightarrow> byte list option" where
  "counting n = Some (replicate n 0)"

definition empty_server :: "'d \<Rightarrow> outcome list \<Rightarrow> 'd backend" where
  "empty_server d outcomes = \<lparr>be_data = d, be_now = 0, be_outcomes = outcomes,
     be_random = counting, be_drawn = 0, be_objs = []\<rparr>"

lemma hex_digit_0: "hex_digit 0 = CHR ''0''"
  by code_simp

lemma hex_counting: "hex_encode (replicate n 0) = replicate (2 * n) (CHR ''0'')"
  by (induction n) (simp_all add: hex_digit_0)

lemma fresh_counting:
  assumes "be_random s = counting" and "\<And>n. replicate (2 * n) (CHR ''0'') \<notin> used"
  shows "fresh_ids used s"
  using assms by (auto simp: fresh_ids_def counting_def hex_counting dest: arg_cong [where f = length])

end
