(* ===== verification/Sha256.thy ===== *)
theory Sha256
  imports Backend
begin

text \<open>
  \<open>crypto/sha256\<close>, which \<open>monthlyScope\<close> (\<open>nexssflow/postgres.go\<close>) and
  \<open>runtimeQuotaKey\<close> (\<open>nexssflow/storage_backend.go\<close>) put a tenant identifier through:
  the hash function of FIPS 180-4 on lists of bytes.
\<close>

unbundle bit_operations_syntax

section \<open>The functions on 32-bit words\<close>

type_synonym u32 = "32 word"

definition rotr :: "nat \<Rightarrow> u32 \<Rightarrow> u32" where
  "rotr n w = (drop_bit n w OR push_bit (32 - n) w)"

definition sha_ch :: "u32 \<Rightarrow> u32 \<Rightarrow> u32 \<Rightarrow> u32" where
  "sha_ch x y z = ((x AND y) XOR (NOT x AND z))"

definition sha_maj :: "u32 \<Rightarrow> u32 \<Rightarrow> u32 \<Rightarrow> u32" where
  "sha_maj x y z = ((x AND y) XOR (x AND z) XOR (y AND z))"

definition big_sigma0 :: "u32 \<Rightarrow> u32" where
  "big_sigma0 x = (rotr 2 x XOR rotr 13 x XOR rotr 22 x)"

definition big_sigma1 :: "u32 \<Rightarrow> u32" where
  "big_sigma1 x = (rotr 6 x XOR rotr 11 x XOR rotr 25 x)"

definition small_sigma0 :: "u32 \<Rightarrow> u32" where
  "small_sigma0 x = (rotr 7 x XOR rotr 18 x XOR drop_bit 3 x)"

definition small_sigma1 :: "u32 \<Rightarrow> u32" where
  "small_sigma1 x = (rotr 17 x XOR rotr 19 x XOR drop_bit 10 x)"

text \<open>
  The constants: the first 32 bits of the fractional parts of the cube roots of the first
  64 primes, and of the square roots of the first 8.  \<open>int_root k b 0 n\<close> is the largest
  number below \<open>2 ^ b\<close> whose \<open>k\<close>-th power is at most \<open>n\<close>.
\<close>

fun int_root :: "nat \<Rightarrow> nat \<Rightarrow> nat \<Rightarrow> nat \<Rightarrow> nat" where
  "int_root k 0 r n = r"
| "int_root k (Suc b) r n = int_root k b (if (r + 2 ^ b) ^ k \<le> n then r + 2 ^ b else r) n"

definition fraction_bits :: "nat \<Rightarrow> nat \<Rightarrow> u32" where
  "fraction_bits k p = of_nat (int_root k 36 0 (p * 2 ^ (32 * k)))"

definition is_prime :: "nat \<Rightarrow> bool" where
  "is_prime n \<longleftrightarrow> 1 < n \<and> list_all (\<lambda>d. n mod d \<noteq> 0) [2..<n]"

definition sha_constants :: "u32 list" where
  "sha_constants = map (fraction_bits 3) (filter is_prime [2..<312])"

definition sha_start :: "u32 list" where
  "sha_start = map (fraction_bits 2) (filter is_prime [2..<20])"

section \<open>Padding and blocks\<close>

text \<open>The bytes of a number, the most significant first.\<close>

fun be_bytes :: "nat \<Rightarrow> nat \<Rightarrow> byte list" where
  "be_bytes 0 n = []"
| "be_bytes (Suc k) n = be_bytes k (n div 256) @ [of_nat (n mod 256)]"

definition sha_pad :: "byte list \<Rightarrow> byte list" where
  "sha_pad m =
     (let zeros = (119 - length m mod 64) mod 64 in
      m @ [0x80] @ replicate zeros 0 @ be_bytes 8 (8 * length m))"

fun be_words :: "byte list \<Rightarrow> u32 list" where
  "be_words (a # b # c # d # bs) =
     of_nat (((unat a * 256 + unat b) * 256 + unat c) * 256 + unat d) # be_words bs"
| "be_words _ = []"

fun sha_blocks :: "u32 list \<Rightarrow> u32 list list" where
  "sha_blocks [] = []"
| "sha_blocks (w # ws) = take 16 (w # ws) # sha_blocks (drop 16 (w # ws))"

text \<open>The message schedule, last word first.\<close>

fun sha_schedule :: "nat \<Rightarrow> u32 list \<Rightarrow> u32 list" where
  "sha_schedule 0 ws = ws"
| "sha_schedule (Suc n) ws =
     sha_schedule n ((small_sigma1 (ws ! 1) + ws ! 6 + small_sigma0 (ws ! 14) + ws ! 15) # ws)"

fun sha_round :: "u32 \<times> u32 \<Rightarrow> u32 list \<Rightarrow> u32 list" where
  "sha_round (k, w) [a, b, c, d, e, f, g, h] =
     (let t1 = h + big_sigma1 e + sha_ch e f g + k + w; t2 = big_sigma0 a + sha_maj a b c in
      [t1 + t2, a, b, c, d + t1, e, f, g])"
| "sha_round _ s = s"

definition sha_block :: "u32 list \<Rightarrow> u32 list \<Rightarrow> u32 list" where
  "sha_block block s =
     map (\<lambda>(x, y). x + y) (zip s (fold sha_round (zip sha_constants (rev (sha_schedule 48 (rev block)))) s))"

definition sha256 :: "byte list \<Rightarrow> byte list" where
  "sha256 m = concat (map (\<lambda>w. be_bytes 4 (unat w)) (fold sha_block (sha_blocks (be_words (sha_pad m))) sha_start))"

text \<open>\<open>[]byte(s)\<close>, and the hash of a string as \<open>hex.EncodeToString\<close> prints it.\<close>

definition string_bytes :: "string \<Rightarrow> byte list" where
  "string_bytes s = map (\<lambda>c. of_nat (of_char c)) s"

definition sha256_hex :: "string \<Rightarrow> string" where
  "sha256_hex s = hex_encode (sha256 (string_bytes s))"

section \<open>Lemmas\<close>

end
