(* ===== verification/Postgres.thy ===== *)
theory Postgres
  imports Backend LocalLedger
begin

text \<open>
  \<open>adapters/postgres/ledger.go\<close>: the ledger in PostgreSQL.  The SQL statements in the
  code are functions on the tables; the driver and the network are the outcomes of
  \<open>Backend\<close>.  The tables are taken to exist: \<open>EnsureSchema\<close> creates them if they do not,
  which is not visible on the data.
\<close>

section \<open>Tables\<close>

record budget_row =
  br_limit :: i64
  br_used :: i64
  br_currency :: string
  br_updated :: int

record entry_row =
  en_scope :: string
  en_domain :: string
  en_operation :: string
  en_cost :: i64
  en_currency :: string
  en_event_id :: "string option"
  en_recorded :: int

record pg_db =
  pg_budgets :: "string \<Rightarrow> budget_row option"
  pg_leases :: "lease list"
  pg_entries :: "entry_row list"

section \<open>Configuration\<close>

record pg_ledger =
  pl_db :: bool
  pl_scope :: string
  pl_limit :: i64
  pl_currency :: currency
  pl_ttl :: i64

text \<open>\<open>New\<close>: the configuration with a time to live of at least a second (30 by default).\<close>

definition pg_new :: "pg_ledger \<Rightarrow> pg_ledger" where
  "pg_new cfg =
     (let ttl = pl_ttl cfg;
          ttl = (if ttl <s 1000000000 then 30000000000 else ttl) in
      \<lparr>pl_db = pl_db cfg, pl_scope = pl_scope cfg, pl_limit = pl_limit cfg,
       pl_currency = pl_currency cfg, pl_ttl = ttl\<rparr>)"

section \<open>SQL statements\<close>

text \<open>\<open>INSERT ... ON CONFLICT(scope) DO UPDATE SET limit_micros = EXCLUDED.limit_micros\<close>.\<close>

definition sql_upsert_budget :: "string \<Rightarrow> i64 \<Rightarrow> string \<Rightarrow> int \<Rightarrow> pg_db \<Rightarrow> pg_db" where
  "sql_upsert_budget scope limit cur now db =
     (let row = (case pg_budgets db scope of
          None \<Rightarrow> \<lparr>br_limit = limit, br_used = 0, br_currency = cur, br_updated = now\<rparr>
        | Some row \<Rightarrow> row\<lparr>br_limit := limit\<rparr>) in
      db\<lparr>pg_budgets := (pg_budgets db)(scope \<mapsto> row)\<rparr>)"

text \<open>\<open>UPDATE cost_budgets SET used_micros = $1 WHERE scope = $2\<close>.\<close>

definition sql_set_used :: "string \<Rightarrow> i64 \<Rightarrow> int \<Rightarrow> pg_db \<Rightarrow> pg_db" where
  "sql_set_used scope v now db =
     (case pg_budgets db scope of
        None \<Rightarrow> db
      | Some row \<Rightarrow> db\<lparr>pg_budgets := (pg_budgets db)(scope \<mapsto> row\<lparr>br_used := v, br_updated := now\<rparr>)\<rparr>)"

text \<open>
  \<open>UPDATE cost_budgets SET used_micros = used_micros + $1 WHERE scope = $2\<close>, and with \<open>-\<close>
  for a negative \<open>delta\<close>; a \<open>BIGINT\<close> does not wrap.
\<close>

definition sql_add_used :: "string \<Rightarrow> int \<Rightarrow> int \<Rightarrow> pg_db \<Rightarrow> string + pg_db" where
  "sql_add_used scope delta now db =
     (case pg_budgets db scope of
        None \<Rightarrow> Inr db
      | Some row \<Rightarrow>
          let v = sint (br_used row) + delta in
          if in_int64 v then Inr (sql_set_used scope (word_of_int v) now db)
          else Inl ''bigint out of range'')"

text \<open>
  \<open>INSERT INTO cost_entries ... ON CONFLICT (scope, event_id) WHERE event_id IS NOT NULL DO
  NOTHING\<close>, with the unique index of the schema.
\<close>

definition sql_insert_entry :: "entry_row \<Rightarrow> entry_row list \<Rightarrow> entry_row list" where
  "sql_insert_entry row rows =
     (if en_event_id row \<noteq> None
         \<and> list_ex (\<lambda>x. en_scope x = en_scope row \<and> en_event_id x = en_event_id row) rows
      then rows else rows @ [row])"

section \<open>Operations\<close>

text \<open>\<open>EnsureSchema\<close>.\<close>

definition check_currency :: "pg_ledger \<Rightarrow> string option \<Rightarrow> pg_db backend \<Rightarrow> (gerr + unit) \<times> pg_db backend" where
  "check_currency l existing s =
     (case existing of
        None \<Rightarrow> (Inr (), s)
      | Some cur \<Rightarrow>
          if cur \<noteq> currency_string (pl_currency l)
          then fail (Errorf ''postgres: currency mismatch for scope %s: database has %s, config has %s''
                 [FStr (pl_scope l), FStr cur, FStr (currency_string (pl_currency l))]) s
          else (Inr (), s))"

definition ensure_schema :: "pg_ledger \<Rightarrow> gctx \<Rightarrow> pg_db backend \<Rightarrow> gerr option \<times> pg_db backend" where
  "ensure_schema l c s =
     (let scope = pl_scope l; cur = currency_string (pl_currency l); now = be_now s in
      if c = NilCtx then (Some (Sentinel ErrNilContext), s)
      else if \<not> pl_db l then (Some (ErrorsNew ''postgres: nil database''), s)
      else only_error (
        try_do (exec_call (Inr (be_data s))) (wrapf ''postgres: schema: %w'') (\<lambda>_.
        try_do begin_tx (wrapf ''postgres: begin schema upsert: %w'') (\<lambda>tx.
        try_do (tx_call (Inr (map_option br_currency (pg_budgets tx scope))))
          (wrapf ''postgres: check existing currency: %w'') (\<lambda>existing.
        try_do (check_currency l existing) (\<lambda>e. e) (\<lambda>_.
        try_do (tx_call (Inr (sql_upsert_budget scope (pl_limit l) cur now tx)))
          (wrapf ''postgres: upsert budget: %w'') (\<lambda>tx.
        commit_tx tx))))) s))"

text \<open>\<open>loadBudgetAndReclaim\<close>: the used amount and the limit of the row, with expired leases freed.\<close>

definition load_budget :: "pg_ledger \<Rightarrow> budget_row option \<Rightarrow> pg_db backend \<Rightarrow> (gerr + budget_row) \<times> pg_db backend" where
  "load_budget l answer s =
     (case answer of
        None \<Rightarrow> fail (wrapf ''postgres: load budget: %w'' err_no_rows) s
      | Some row \<Rightarrow>
          if br_currency row \<noteq> currency_string (pl_currency l)
          then fail (Errorf ''postgres: currency mismatch: database=%s ledger=%s''
                 [FStr (br_currency row), FStr (currency_string (pl_currency l))]) s
          else (Inr row, s))"

definition load_budget_and_reclaim ::
  "pg_ledger \<Rightarrow> pg_db \<Rightarrow> pg_db backend \<Rightarrow> (gerr + i64 \<times> i64 \<times> pg_db) \<times> pg_db backend" where
  "load_budget_and_reclaim l tx s =
     (let scope = pl_scope l; now = be_now s in
      try_do (tx_call (Inr (pg_budgets tx scope))) (wrapf ''postgres: load budget: %w'') (\<lambda>answer.
      try_do (load_budget l answer) (\<lambda>e. e) (\<lambda>row.
      try_do (tx_call (sql_reclaim scope now (pg_leases tx))) (wrapf ''postgres: reclaim: %w'')
        (\<lambda>(reclaimed, rows).
          let tx = tx\<lparr>pg_leases := rows\<rparr> in
          if 0 <s reclaimed
          then let used = br_used row - reclaimed in
            try_do (tx_call (Inr (sql_set_used scope used now tx)))
              (wrapf ''postgres: update reclaimed budget: %w'') (\<lambda>tx s.
            (Inr (used, br_limit row, tx), s))
          else (\<lambda>s. (Inr (br_used row, br_limit row, tx), s))))) s)"

text \<open>
  \<open>Reserve\<close> from the limit check on, where \<open>used\<close> and \<open>limit\<close> are what was loaded: a
  denial commits the reclaimed budget, a success inserts the lease and raises the counter.
\<close>

definition pg_deny ::
  "i64 \<Rightarrow> i64 \<Rightarrow> i64 \<Rightarrow> pg_db \<Rightarrow> pg_db backend \<Rightarrow> (gerr + nat) \<times> pg_db backend" where
  "pg_deny used estimate limit tx =
     try_do (commit_tx tx) (wrapf ''postgres: commit reclaimed budget: %w'') (\<lambda>_.
     fail (Errorf ''%w: used=%d estimate=%d limit=%d''
       [FErr (Sentinel ErrBudgetExceeded), FInt used, FInt estimate, FInt limit]))"

definition new_lease :: "pg_ledger \<Rightarrow> string \<Rightarrow> i64 \<Rightarrow> int \<Rightarrow> lease" where
  "new_lease l i estimate now = \<lparr>le_id = i, le_owner = pl_scope l, le_amount = estimate,
     le_expires = now + 1000000 * ttl_seconds (pl_ttl l)\<rparr>"

definition pg_hold ::
  "pg_ledger \<Rightarrow> string \<Rightarrow> i64 \<Rightarrow> i64 \<Rightarrow> pg_db \<Rightarrow> pg_db backend \<Rightarrow> (gerr + nat) \<times> pg_db backend" where
  "pg_hold l i used estimate tx s =
     (let now = be_now s in
      try_do (tx_call (sql_insert_lease (new_lease l i estimate now) (pg_leases tx)))
        (wrapf ''postgres: reserve row: %w'') (\<lambda>rows.
      try_do (tx_call (Inr (sql_set_used (pl_scope l) (used + estimate) now (tx\<lparr>pg_leases := rows\<rparr>))))
        (wrapf ''postgres: update budget: %w'') (\<lambda>tx.
      try_do (commit_tx tx) (wrapf ''postgres: commit reserve: %w'') (\<lambda>_.
      add_obj i))) s)"

definition pg_reserve ::
  "pg_ledger \<Rightarrow> gctx \<Rightarrow> i64 \<Rightarrow> pg_db backend \<Rightarrow> (gerr + nat) \<times> pg_db backend" where
  "pg_reserve l c estimate s =
     (case ctx_check c of
        Some e \<Rightarrow> (Inl e, s)
      | None \<Rightarrow>
          if \<not> pl_db l then (Inl (ErrorsNew ''postgres: nil database''), s)
          else if estimate <s 0 \<or> MaxEstimate <s estimate then (Inl (invalid_estimate estimate), s)
          else
            try_do new_id (wrapf ''postgres: reservation id: %w'') (\<lambda>i.
            try_do begin_tx (wrapf ''postgres: begin: %w'') (\<lambda>tx.
            try_do (load_budget_and_reclaim l tx) (\<lambda>e. e) (\<lambda>(used, limit, tx).
              if 0 \<le>s limit \<and> limit - estimate <s used
              then pg_deny used estimate limit tx
              else pg_hold l i used estimate tx))) s)"

definition pg_record :: "pg_ledger \<Rightarrow> gctx \<Rightarrow> event \<Rightarrow> pg_db backend \<Rightarrow> gerr option \<times> pg_db backend" where
  "pg_record l c ev s =
     (case ctx_check c of
        Some e \<Rightarrow> (Some e, s)
      | None \<Rightarrow>
          if \<not> pl_db l then (Some (ErrorsNew ''postgres: nil database''), s)
          else if ev_cost ev \<le>s 0 then (Some (invalid_cost (ev_cost ev)), s)
          else
            let ev = fill_currency (pl_currency l) ev in
            if ev_currency ev \<noteq> pl_currency l then (Some (ErrorsNew ''postgres: currency mismatch''), s)
            else
              let row = \<lparr>en_scope = pl_scope l, en_domain = ev_domain ev, en_operation = ev_operation ev,
                         en_cost = ev_cost ev, en_currency = currency_string (ev_currency ev),
                         en_event_id = Some (ev_id ev), en_recorded = be_now s\<rparr>;
                  db = be_data s in
              only_error (exec_call (Inr (db\<lparr>pg_entries := sql_insert_entry row (pg_entries db)\<rparr>)) s))"

text \<open>The \<open>DELETE\<close> of a reservation that its terminal call starts with; no row is an error.\<close>

definition pg_take :: "string \<Rightarrow> string \<Rightarrow> pg_db \<Rightarrow> pg_db backend \<Rightarrow> (gerr + i64 \<times> pg_db) \<times> pg_db backend" where
  "pg_take fmt i tx =
     try_do (tx_call (Inr (sql_take (\<lambda>r. le_id r = i) (pg_leases tx)))) (wrapf fmt) (\<lambda>(answer, rows) s.
       case answer of
         None \<Rightarrow> fail (Errorf ''%w: %s'' [FErr (Sentinel ErrReservationNotFound), FStr i]) s
       | Some reserved \<Rightarrow> (Inr (reserved, tx\<lparr>pg_leases := rows\<rparr>), s))"

text \<open>The transactions of \<open>Commit\<close> and \<open>Release\<close>, for the reservation \<open>i\<close> that is not done.\<close>

definition pg_commit_tx :: "pg_ledger \<Rightarrow> i64 \<Rightarrow> string \<Rightarrow> pg_db backend \<Rightarrow> (gerr + unit) \<times> pg_db backend" where
  "pg_commit_tx l actual i s =
     (let now = be_now s in
      try_do begin_tx (wrapf ''postgres: begin commit: %w'') (\<lambda>tx.
      try_do (pg_take ''postgres: commit reservation: %w'' i tx) (\<lambda>e. e) (\<lambda>(reserved, tx).
      try_do (tx_call (sql_add_used (pl_scope l) (sint (actual - reserved)) now tx))
        (wrapf ''postgres: commit budget: %w'') (\<lambda>tx.
      try_do (commit_tx tx) (wrapf ''postgres: commit transaction: %w'') (\<lambda>_ s. (Inr (), s))))) s)"

definition pg_commit :: "pg_ledger \<Rightarrow> nat \<Rightarrow> gctx \<Rightarrow> i64 \<Rightarrow> pg_db backend \<Rightarrow> gerr option \<times> pg_db backend" where
  "pg_commit l h c actual s =
     (case ctx_check c of
        Some e \<Rightarrow> (Some e, s)
      | None \<Rightarrow> once h (pg_commit_tx l (clamp0 actual)) s)"

definition pg_release_tx :: "pg_ledger \<Rightarrow> string \<Rightarrow> pg_db backend \<Rightarrow> (gerr + unit) \<times> pg_db backend" where
  "pg_release_tx l i s =
     (let now = be_now s in
      try_do begin_tx (wrapf ''postgres: begin release: %w'') (\<lambda>tx.
      try_do (pg_take ''postgres: release reservation: %w'' i tx) (\<lambda>e. e) (\<lambda>(reserved, tx).
      try_do (tx_call (sql_add_used (pl_scope l) (- sint reserved) now tx))
        (wrapf ''postgres: release budget: %w'') (\<lambda>tx.
      try_do (commit_tx tx) (wrapf ''postgres: release transaction: %w'') (\<lambda>_ s. (Inr (), s))))) s)"

definition pg_release :: "pg_ledger \<Rightarrow> nat \<Rightarrow> gctx \<Rightarrow> pg_db backend \<Rightarrow> gerr option \<times> pg_db backend" where
  "pg_release l h c s =
     (case ctx_check c of
        Some e \<Rightarrow> (Some e, s)
      | None \<Rightarrow> once h (pg_release_tx l) s)"

definition pg_reserver :: "pg_ledger \<Rightarrow> (pg_db backend, nat) reserver" where
  "pg_reserver l = \<lparr>Reserve = pg_reserve l, RecordEvent = pg_record l,
     Commit = pg_commit l, Release = pg_release l\<rparr>"

lemma pg_reserver_simps [simp]:
  "Reserve (pg_reserver l) = pg_reserve l"
  "RecordEvent (pg_reserver l) = pg_record l"
  "Commit (pg_reserver l) = pg_commit l"
  "Release (pg_reserver l) = pg_release l"
  by (simp_all add: pg_reserver_def)

section \<open>Lemmas: what the operations do to the data\<close>

definition pg_used :: "string \<Rightarrow> pg_db \<Rightarrow> int" where
  "pg_used scope db = (case pg_budgets db scope of None \<Rightarrow> 0 | Some row \<Rightarrow> sint (br_used row))"

definition pg_limit :: "string \<Rightarrow> pg_db \<Rightarrow> int" where
  "pg_limit scope db = (case pg_budgets db scope of None \<Rightarrow> -1 | Some row \<Rightarrow> sint (br_limit row))"

text \<open>
  A scope with a row and a limit, whose counter covers the leases that are still open.
\<close>

definition pg_valid :: "string \<Rightarrow> pg_db \<Rightarrow> bool" where
  "pg_valid scope db \<longleftrightarrow> good_leases (pg_leases db) \<and> pg_budgets db scope \<noteq> None
     \<and> 0 \<le> pg_limit scope db \<and> owed scope (pg_leases db) \<le> pg_used scope db"

text \<open>Two databases that only differ in the leases and the used counter of a scope.\<close>

definition pg_frame :: "string \<Rightarrow> pg_db \<Rightarrow> pg_db \<Rightarrow> bool" where
  "pg_frame scope db db' \<longleftrightarrow> pg_entries db' = pg_entries db \<and> pg_limit scope db' = pg_limit scope db
     \<and> (pg_budgets db' scope = None \<longleftrightarrow> pg_budgets db scope = None)
     \<and> map_option br_currency (pg_budgets db' scope) = map_option br_currency (pg_budgets db scope)
     \<and> (\<forall>x. x \<noteq> scope \<longrightarrow> pg_budgets db' x = pg_budgets db x)"

lemma pg_frame_refl [simp]: "pg_frame scope db db"
  by (simp add: pg_frame_def)

lemma pg_frame_trans: "pg_frame scope a b \<Longrightarrow> pg_frame scope b c \<Longrightarrow> pg_frame scope a c"
  by (auto simp: pg_frame_def)

lemma pg_frame_leases [simp]:
  "pg_frame scope a (b\<lparr>pg_leases := rows\<rparr>) = pg_frame scope a b"
  "pg_frame scope (a\<lparr>pg_leases := rows\<rparr>) b = pg_frame scope a b"
  by (simp_all add: pg_frame_def pg_limit_def)

lemma pg_used_leases [simp]: "pg_used scope (db\<lparr>pg_leases := rows\<rparr>) = pg_used scope db"
  by (simp add: pg_used_def)

lemma pg_limit_leases [simp]: "pg_limit scope (db\<lparr>pg_leases := rows\<rparr>) = pg_limit scope db"
  by (simp add: pg_limit_def)

lemma sql_set_used_effect:
  "pg_frame scope db (sql_set_used scope v now db)"
  "pg_leases (sql_set_used scope v now db) = pg_leases db"
  "pg_budgets db scope \<noteq> None \<Longrightarrow> pg_used scope (sql_set_used scope v now db) = sint v"
  by (auto simp: sql_set_used_def pg_frame_def pg_limit_def pg_used_def split: option.split)

lemma sql_set_used_again [simp]:
  "sql_set_used scope v now (sql_set_used scope u now db) = sql_set_used scope v now db"
  by (simp add: sql_set_used_def split: option.split)

lemma sql_set_used_leases:
  "sql_set_used scope v now (db\<lparr>pg_leases := rows\<rparr>) = (sql_set_used scope v now db)\<lparr>pg_leases := rows\<rparr>"
  by (simp add: sql_set_used_def split: option.split)

lemma sql_add_used_effect:
  assumes "sql_add_used scope delta now db = Inr db'" and "pg_budgets db scope \<noteq> None"
  shows "pg_frame scope db db' \<and> pg_leases db' = pg_leases db \<and> pg_used scope db' = pg_used scope db + delta"
proof -
  obtain row where row: "pg_budgets db scope = Some row"
    using assms(2) by blast
  define v where "v = sint (br_used row) + delta"
  have "in_int64 v" and db': "db' = sql_set_used scope (word_of_int v) now db"
    using assms(1) row by (auto simp: sql_add_used_def Let_def v_def simp del: of_int_add split: if_splits)
  then have "pg_used scope db' = v"
    using sql_set_used_effect(3) [OF assms(2)] by (simp add: sint_of_in_int64)
  then show ?thesis
    using sql_set_used_effect(1,2) [where scope = scope and db = db] row
    by (simp add: db' v_def pg_used_def)
qed

text \<open>The data after the expired leases of a scope are freed, and after a lease is put in.\<close>

definition pg_freed :: "string \<Rightarrow> int \<Rightarrow> pg_db \<Rightarrow> pg_db \<Rightarrow> bool" where
  "pg_freed scope now db db' \<longleftrightarrow>
     (\<exists>row n rows. pg_budgets db scope = Some row \<and> sql_reclaim scope now (pg_leases db) = Inr (n, rows)
        \<and> db' = (if 0 <s n then sql_set_used scope (br_used row - n) now (db\<lparr>pg_leases := rows\<rparr>)
                else db\<lparr>pg_leases := rows\<rparr>))"

definition pg_leased :: "string \<Rightarrow> lease \<Rightarrow> int \<Rightarrow> pg_db \<Rightarrow> pg_db \<Rightarrow> bool" where
  "pg_leased scope r now db db' \<longleftrightarrow>
     (\<exists>row rows. pg_budgets db scope = Some row
        \<and> sql_insert_lease r (pg_leases db) = Inr rows
        \<and> (br_limit row <s 0 \<or> br_used row \<le>s br_limit row - le_amount r)
        \<and> db' = sql_set_used scope (br_used row + le_amount r) now (db\<lparr>pg_leases := rows\<rparr>))"

lemma new_lease_simps [simp]:
  "le_id (new_lease l i e now) = i" "le_owner (new_lease l i e now) = pl_scope l"
  "le_amount (new_lease l i e now) = e" "now < le_expires (new_lease l i e now)"
  using ttl_seconds_pos [of "pl_ttl l"] by (simp_all add: new_lease_def)

lemma load_budget_state:
  assumes "load_budget l answer s = (res, t)"
  shows "t = s \<and> (\<forall>row. res = Inr row \<longrightarrow> answer = Some row \<and> br_currency row = currency_string (pl_currency l))"
  using assms by (auto simp: load_budget_def split: option.splits if_splits)

lemma load_budget_freed:
  assumes "load_budget_and_reclaim l tx s = (res, t)"
  shows "be_data t = be_data s \<and> be_drawn t = be_drawn s \<and> same_client s t
    \<and> (\<forall>used limit tx'. res = Inr (used, limit, tx') \<longrightarrow>
        pg_freed (pl_scope l) (be_now s) tx tx'
        \<and> (\<exists>row. pg_budgets tx' (pl_scope l) = Some row \<and> br_used row = used \<and> br_limit row = limit))"
  using assms [unfolded load_budget_and_reclaim_def Let_def]
proof (elim try_doE)
  fix answer s1 row s2 a s3
  assume 1: "tx_call (Inr (pg_budgets tx (pl_scope l))) s = (Inr answer, s1)"
    and 2: "load_budget l answer s1 = (Inr row, s2)"
    and 3: "tx_call (sql_reclaim (pl_scope l) (be_now s) (pg_leases tx)) s2 = (Inr a, s3)"
    and 4: "(case a of (reclaimed, rows) \<Rightarrow>
        if 0 <s reclaimed
        then try_do (tx_call (Inr (sql_set_used (pl_scope l) (br_used row - reclaimed) (be_now s)
               (tx\<lparr>pg_leases := rows\<rparr>))))
             (wrapf ''postgres: update reclaimed budget: %w'')
             (\<lambda>tx s. (Inr (br_used row - reclaimed, br_limit row, tx), s))
        else (\<lambda>s. (Inr (br_used row, br_limit row, tx\<lparr>pg_leases := rows\<rparr>), s))) s3 = (res, t)"
  obtain n rows where a: "a = (n, rows)" by fastforce
  have row: "pg_budgets tx (pl_scope l) = Some row" "s2 = s1"
    using tx_call_state [OF 1] load_budget_state [OF 2] by auto
  have rec: "sql_reclaim (pl_scope l) (be_now s) (pg_leases tx) = Inr (n, rows)"
    using tx_call_state [OF 3] a by simp
  have st: "be_data s3 = be_data s" "be_drawn s3 = be_drawn s" "same_client s s3"
    using tx_call_state [OF 1] tx_call_state [OF 3] row(2) by (auto intro: same_client_trans)
  show ?thesis
  proof (cases "0 <s n")
    case True
    with 4 a have "try_do (tx_call (Inr (sql_set_used (pl_scope l) (br_used row - n) (be_now s)
               (tx\<lparr>pg_leases := rows\<rparr>))))
             (wrapf ''postgres: update reclaimed budget: %w'')
             (\<lambda>tx s. (Inr (br_used row - n, br_limit row, tx), s)) s3 = (res, t)"
      by simp
    then show ?thesis
    proof (cases rule: try_doE)
      case (error e)
      then show ?thesis
        using tx_call_state [OF error(1)] st by (auto intro: same_client_trans)
    next
      case (ok tx1 s4)
      then show ?thesis
        using tx_call_state [OF ok(1)] st True row(1) rec
        by (auto intro: same_client_trans simp: pg_freed_def sql_set_used_def)
    qed
  next
    case False
    then show ?thesis
      using 4 a st row(1) rec by (auto simp: pg_freed_def)
  qed
qed (auto dest!: tx_call_state load_budget_state intro: same_client_trans)

lemma pg_deny_state:
  assumes "pg_deny used e limit db s = (res, s')"
  shows "same_client s s' \<and> be_drawn s' = be_drawn s \<and> (\<exists>x. res = Inl x) \<and> be_data s' \<in> {be_data s, db}"
  using assms unfolding pg_deny_def by (elim try_doE) (auto dest!: commit_tx_state)

lemma pg_leasedI:
  assumes "pg_budgets db scope = Some row" and "br_used row = used"
    and "br_limit row <s 0 \<or> used \<le>s br_limit row - le_amount r"
    and "sql_insert_lease r (pg_leases db) = Inr rows"
  shows "pg_leased scope r now db (sql_set_used scope (used + le_amount r) now (db\<lparr>pg_leases := rows\<rparr>))"
  using assms unfolding pg_leased_def by blast

lemma pg_hold_state:
  assumes "pg_hold l i used e db s = (res, s')"
    and row: "pg_budgets db (pl_scope l) = Some row" "br_used row = used"
      "br_limit row <s 0 \<or> used \<le>s br_limit row - e"
  shows "same_env s s' \<and> be_drawn s' = be_drawn s
    \<and> (case res of
         Inl x \<Rightarrow> be_objs s' = be_objs s \<and> (be_data s' = be_data s
           \<or> \<not> no_lost s \<and> pg_leased (pl_scope l) (new_lease l i e (be_now s)) (be_now s) db (be_data s'))
       | Inr h \<Rightarrow> h = length (be_objs s) \<and> be_objs s' = be_objs s @ [\<lparr>ro_id = i, ro_done = False\<rparr>]
           \<and> pg_leased (pl_scope l) (new_lease l i e (be_now s)) (be_now s) db (be_data s'))"
  using assms(1) [unfolded pg_hold_def Let_def]
proof (cases rule: try_doE)
  case (error x)
  then show ?thesis
    using tx_call_state [OF error(1)] same_client_env by fastforce
next
  case (ok rows s1)
  note 1 = tx_call_state [OF ok(1)]
  let ?tx = "sql_set_used (pl_scope l) (used + e) (be_now s) (db\<lparr>pg_leases := rows\<rparr>)"
  have leased: "pg_leased (pl_scope l) (new_lease l i e (be_now s)) (be_now s) db ?tx"
    using pg_leasedI [OF row(1,2), of "new_lease l i e (be_now s)" rows] row(3) 1 by simp
  from ok(2) show ?thesis
  proof (cases rule: try_doE)
    case (error x)
    then show ?thesis
      using 1 tx_call_state [OF error(1)] same_client_env [OF same_client_trans, of s s1 s'] by auto
  next
    case (ok tx s2)
    note 2 = tx_call_state [OF ok(1)]
    have tx: "tx = ?tx" "be_data s2 = be_data s" and c2: "same_client s s2" "be_drawn s2 = be_drawn s"
      using 1 2 by (auto intro: same_client_trans)
    from ok(2) show ?thesis
    proof (cases rule: try_doE)
      case (error x)
      note 3 = commit_tx_state [OF error(1)]
      have "same_client s s'" using 3 c2 same_client_trans by blast
      moreover have "be_data s' = be_data s \<or> \<not> no_lost s \<and> be_data s' = ?tx"
        using 3 tx c2 by (auto simp: same_client_def)
      ultimately show ?thesis
        using error(2) 3 c2 leased same_client_env [of s s'] by auto
    next
      case (ok u s3)
      note 3 = commit_tx_state [OF ok(1)]
      have "same_client s s3" using 3 c2 same_client_trans by blast
      then show ?thesis
        using ok(2) 3 c2 leased tx same_client_env [of s s3] by (auto simp: add_obj_def)
    qed
  qed
qed

text \<open>
  \<open>Reserve\<close>: on success the expired leases are freed and the new lease is in; on an
  error nothing has changed, or only the expired leases are freed, unless the answer of a
  commit was lost.
\<close>

lemma pg_reserve_state:
  assumes "pg_reserve l c e s = (res, s')"
  shows "same_env s s' \<and>
    (case res of
       Inl x \<Rightarrow> be_objs s' = be_objs s
         \<and> (be_data s' = be_data s \<or> (\<exists>db. pg_freed (pl_scope l) (be_now s) (be_data s) db
              \<and> (be_data s' = db
                \<or> \<not> no_lost s \<and> (\<exists>i. pg_leased (pl_scope l) (new_lease l i e (be_now s)) (be_now s) db (be_data s')))))
     | Inr h \<Rightarrow> c = background \<and> 0 \<le> sint e \<and> sint e \<le> sint MaxEstimate \<and> h = length (be_objs s)
         \<and> (\<exists>i db. be_objs s' = be_objs s @ [\<lparr>ro_id = i, ro_done = False\<rparr>]
              \<and> pg_freed (pl_scope l) (be_now s) (be_data s) db
              \<and> pg_leased (pl_scope l) (new_lease l i e (be_now s)) (be_now s) db (be_data s')))"
proof (cases "ctx_check c = None \<and> pl_db l \<and> \<not> e <s 0 \<and> \<not> MaxEstimate <s e")
  case False
  then have "(\<exists>x. res = Inl x) \<and> s' = s"
    using assms by (auto simp: pg_reserve_def split: option.splits if_splits)
  then show ?thesis by (auto simp: same_env_def)
next
  case True
  then have c: "c = background" and e: "0 \<le> sint e" "sint e \<le> sint MaxEstimate"
    by (auto simp: ctx_check_None i64_simps)
  from assms True have "try_do new_id (wrapf ''postgres: reservation id: %w'') (\<lambda>i.
            try_do begin_tx (wrapf ''postgres: begin: %w'') (\<lambda>tx.
            try_do (load_budget_and_reclaim l tx) (\<lambda>e. e) (\<lambda>(used, limit, tx).
              if 0 \<le>s limit \<and> limit - e <s used
              then pg_deny used e limit tx else pg_hold l i used e tx))) s = (res, s')"
    by (simp add: pg_reserve_def)
  then show ?thesis
  proof (elim try_doE)
    fix i s1 tx s2 a s3
    assume 1: "new_id s = (Inr i, s1)" and 2: "begin_tx s1 = (Inr tx, s2)"
      and 3: "load_budget_and_reclaim l tx s2 = (Inr a, s3)"
      and 4: "(case a of (used, limit, tx) \<Rightarrow> if 0 \<le>s limit \<and> limit - e <s used
              then pg_deny used e limit tx else pg_hold l i used e tx) s3 = (res, s')"
    obtain used limit db where a: "a = (used, limit, db)" by (cases a)
    have st: "same_client s s3" "be_data s3 = be_data s" "tx = be_data s" "be_now s2 = be_now s" "be_now s3 = be_now s"
      using new_id_state [OF 1] begin_tx_state [OF 2] load_budget_freed [OF 3]
      by (auto simp: same_client_def)
    have freed: "pg_freed (pl_scope l) (be_now s) (be_data s) db"
      and row: "\<exists>row. pg_budgets db (pl_scope l) = Some row \<and> br_used row = used \<and> br_limit row = limit"
      using load_budget_freed [OF 3] st a by auto
    have env: "same_env s s3" "be_objs s3 = be_objs s" "no_lost s \<longrightarrow> no_lost s3"
      using same_client_env [OF st(1)] by (auto simp: same_env_def)
    show ?thesis
    proof (cases "0 \<le>s limit \<and> limit - e <s used")
      case True
      then have d: "pg_deny used e limit db s3 = (res, s')" using 4 a by simp
      show ?thesis
        using pg_deny_state [OF d] env st freed same_client_env [of s3 s'] same_env_trans [of s s3 s'] by auto
    next
      case False
      then have d: "pg_hold l i used e db s3 = (res, s')"
        using 4 [unfolded a prod.case] by (simp only: False if_False)
      obtain row where r: "pg_budgets db (pl_scope l) = Some row" "br_used row = used" "br_limit row = limit"
        using row by blast
      have lim: "br_limit row <s 0 \<or> used \<le>s br_limit row - e"
        using False r by (auto simp: i64_simps)
      show ?thesis
        using pg_hold_state [OF d r(1,2) lim] env st freed c e same_env_trans [of s s3 s']
        by (cases res) auto
    qed
  qed (auto simp: same_env_def same_client_def dest!: new_id_state begin_tx_state load_budget_freed)
qed

text \<open>
  The terminal calls: the lease of the reservation is gone and the counter has moved by
  \<open>delta\<close>; an error leaves the data as they are, unless the answer was lost.
\<close>

definition pg_settled :: "string \<Rightarrow> string \<Rightarrow> (lease \<Rightarrow> int) \<Rightarrow> int \<Rightarrow> pg_db \<Rightarrow> pg_db \<Rightarrow> bool" where
  "pg_settled scope i delta now db db' \<longleftrightarrow>
     (\<exists>r. lease_of i (pg_leases db) = Some r
        \<and> sql_add_used scope (delta r) now (db\<lparr>pg_leases := filter (\<lambda>x. le_id x \<noteq> i) (pg_leases db)\<rparr>) = Inr db')"

lemma pg_take_state:
  assumes "pg_take fmt i tx s = (res, t)"
  shows "be_data t = be_data s \<and> be_drawn t = be_drawn s \<and> same_client s t
    \<and> (\<forall>reserved db. res = Inr (reserved, db) \<longrightarrow>
        (\<exists>r. lease_of i (pg_leases tx) = Some r \<and> reserved = le_amount r
           \<and> db = tx\<lparr>pg_leases := filter (\<lambda>x. le_id x \<noteq> i) (pg_leases tx)\<rparr>))"
  using assms unfolding pg_take_def
proof (cases rule: try_doE)
  case (error e)
  then show ?thesis using tx_call_state [OF error(1)] by simp
next
  case (ok a s1)
  then show ?thesis
    using tx_call_state [OF ok(1)] by (cases "lease_of i (pg_leases tx)") (auto simp: sql_take_lease)
qed

lemma pg_terminal_state:
  assumes "try_do begin_tx w1 (\<lambda>tx.
      try_do (pg_take fmt i tx) (\<lambda>e. e) (\<lambda>(reserved, tx).
      try_do (tx_call (sql_add_used (pl_scope l) (delta reserved) (be_now s) tx)) w2 (\<lambda>tx.
      try_do (commit_tx tx) w3 (\<lambda>_ s. (Inr (), s))))) s = (res, t)"
  defines "ok \<equiv> pg_settled (pl_scope l) i (\<lambda>r. delta (le_amount r)) (be_now s) (be_data s) (be_data t)"
  shows "same_client s t \<and> (be_data t = be_data s \<or> ok) \<and> (\<forall>u. res = Inr u \<longrightarrow> ok)
    \<and> (no_lost s \<longrightarrow> (\<forall>e. res = Inl e \<longrightarrow> be_data t = be_data s))"
  using assms(1)
proof (elim try_doE)
  fix tx s1 a s2 db s3 e
  assume 1: "begin_tx s = (Inr tx, s1)" and 2: "pg_take fmt i tx s1 = (Inr a, s2)"
    and 3: "(case a of (reserved, tx) \<Rightarrow>
        try_do (tx_call (sql_add_used (pl_scope l) (delta reserved) (be_now s) tx)) w2 (\<lambda>tx.
        try_do (commit_tx tx) w3 (\<lambda>_ s. (Inr (), s)))) s2 = (res, t)"
  obtain reserved tx2 where a: "a = (reserved, tx2)" by fastforce
  obtain r where r: "lease_of i (pg_leases (be_data s)) = Some r" "reserved = le_amount r"
      "tx2 = (be_data s)\<lparr>pg_leases := filter (\<lambda>x. le_id x \<noteq> i) (pg_leases (be_data s))\<rparr>"
    using begin_tx_state [OF 1] pg_take_state [OF 2] a by auto
  have st: "same_client s s2" "be_data s2 = be_data s"
    using begin_tx_state [OF 1] pg_take_state [OF 2] by (auto intro: same_client_trans)
  from 3 a have "try_do (tx_call (sql_add_used (pl_scope l) (delta reserved) (be_now s) tx2)) w2 (\<lambda>tx.
        try_do (commit_tx tx) w3 (\<lambda>_ s. (Inr (), s))) s2 = (res, t)"
    by simp
  then show ?thesis
  proof (cases rule: try_doE)
    case (error e)
    then show ?thesis
      using tx_call_state [OF error(1)] st by (auto intro: same_client_trans)
  next
    case (ok db s3)
    have db: "be_data t = db \<longrightarrow> pg_settled (pl_scope l) i (\<lambda>r. delta (le_amount r)) (be_now s) (be_data s) (be_data t)"
      using tx_call_state [OF ok(1)] r by (auto simp: pg_settled_def)
    have st3: "same_client s s3" "be_data s3 = be_data s" "no_lost s \<longrightarrow> no_lost s3"
      using tx_call_state [OF ok(1)] st by (auto intro: same_client_trans simp: same_client_def)
    from ok(2) show ?thesis
    proof (cases rule: try_doE)
      case (error e)
      then show ?thesis
        using commit_tx_state [OF error(1)] st3 db same_client_trans [of s s3 t] by (auto simp: ok_def)
    next
      case (ok u s4)
      then show ?thesis
        using commit_tx_state [OF ok(1)] st3 db same_client_trans [of s s3 t] by (auto simp: ok_def)
    qed
  qed
qed (auto dest!: begin_tx_state pg_take_state intro: same_client_trans)

lemma pg_commit_tx_state:
  assumes "pg_commit_tx l a i s = (res, t)"
  defines "ok \<equiv> pg_settled (pl_scope l) i (\<lambda>r. sint (a - le_amount r)) (be_now s) (be_data s) (be_data t)"
  shows "same_client s t \<and> (be_data t = be_data s \<or> ok) \<and> (\<forall>u. res = Inr u \<longrightarrow> ok)
    \<and> (no_lost s \<longrightarrow> (\<forall>e. res = Inl e \<longrightarrow> be_data t = be_data s))"
  unfolding ok_def by (rule pg_terminal_state [OF assms(1) [unfolded pg_commit_tx_def Let_def]])

lemma pg_release_tx_state:
  assumes "pg_release_tx l i s = (res, t)"
  defines "ok \<equiv> pg_settled (pl_scope l) i (\<lambda>r. - sint (le_amount r)) (be_now s) (be_data s) (be_data t)"
  shows "same_client s t \<and> (be_data t = be_data s \<or> ok) \<and> (\<forall>u. res = Inr u \<longrightarrow> ok)
    \<and> (no_lost s \<longrightarrow> (\<forall>e. res = Inl e \<longrightarrow> be_data t = be_data s))"
  unfolding ok_def by (rule pg_terminal_state [OF assms(1) [unfolded pg_release_tx_def Let_def]])

section \<open>Lemmas: the counter and the leases\<close>

lemma pg_used_row: "pg_budgets db scope = Some row \<Longrightarrow> pg_used scope db = sint (br_used row)"
  by (simp add: pg_used_def)

lemma pg_limit_row: "pg_budgets db scope = Some row \<Longrightarrow> pg_limit scope db = sint (br_limit row)"
  by (simp add: pg_limit_def)

lemma pg_limit_frame: "pg_frame scope db db' \<Longrightarrow> pg_limit scope db' = pg_limit scope db"
  by (simp add: pg_frame_def)

lemma pg_validI:
  assumes "pg_valid scope db" and "pg_frame scope db db'" and "good_leases (pg_leases db')"
    and "owed scope (pg_leases db') \<le> pg_used scope db'"
  shows "pg_valid scope db'"
  using assms by (simp add: pg_valid_def pg_frame_def)

lemma pg_freed_effect:
  assumes "pg_freed scope now db db'" and "pg_valid scope db"
  shows "pg_valid scope db' \<and> pg_frame scope db db' \<and> pg_used scope db' \<le> pg_used scope db
    \<and> pg_used scope db' - owed scope (pg_leases db') = pg_used scope db - owed scope (pg_leases db)
    \<and> pg_leases db' = filter (\<lambda>r. \<not> lease_expired scope now r) (pg_leases db)"
proof -
  obtain row n rows where row: "pg_budgets db scope = Some row"
    and rec: "sql_reclaim scope now (pg_leases db) = Inr (n, rows)"
    and db': "db' = (if 0 <s n then sql_set_used scope (br_used row - n) now (db\<lparr>pg_leases := rows\<rparr>)
                else db\<lparr>pg_leases := rows\<rparr>)"
    using assms(1) by (auto simp: pg_freed_def)
  have good: "good_leases (pg_leases db)" and le: "owed scope (pg_leases db) \<le> sint (br_used row)"
    using assms(2) row by (auto simp: pg_valid_def pg_used_row)
  note r = sql_reclaim_owed [OF rec good]
  have "0 \<le> owed scope rows" using r owed_nonneg by blast
  then have diff: "sint (br_used row - n) = sint (br_used row) - sint n"
    using r le sint_upper [of "br_used row"] by (intro sint_diff_i64) linarith+
  have used: "pg_used scope db' = pg_used scope db - sint n"
  proof (cases "0 <s n")
    case True
    then show ?thesis
      using row diff sql_set_used_effect(3) [of "db\<lparr>pg_leases := rows\<rparr>" scope] by (simp add: db' pg_used_row)
  next
    case False
    then have "sint n = 0" using r by (simp add: i64_simps)
    then show ?thesis using False by (simp add: db')
  qed
  have leases: "pg_leases db' = rows"
    by (simp add: db' sql_set_used_effect(2))
  have frame: "pg_frame scope db db'"
    using sql_set_used_effect(1) [of scope "db\<lparr>pg_leases := rows\<rparr>"] by (simp add: db')
  show ?thesis
    using pg_validI [OF assms(2) frame] r used leases frame le row by (auto simp: pg_used_row)
qed

lemma pg_leased_effect:
  assumes "pg_leased scope r now db db'" and "pg_valid scope db"
    and "0 \<le> sint (le_amount r)" and "le_owner r = scope"
  shows "pg_valid scope db' \<and> pg_frame scope db db' \<and> pg_used scope db' = pg_used scope db + sint (le_amount r)
    \<and> pg_used scope db' \<le> pg_limit scope db' \<and> pg_leases db' = pg_leases db @ [r]
    \<and> lease_of (le_id r) (pg_leases db) = None"
proof -
  obtain row rows where row: "pg_budgets db scope = Some row"
    and ins: "sql_insert_lease r (pg_leases db) = Inr rows"
    and lim: "br_limit row <s 0 \<or> br_used row \<le>s br_limit row - le_amount r"
    and db': "db' = sql_set_used scope (br_used row + le_amount r) now (db\<lparr>pg_leases := rows\<rparr>)"
    using assms(1) by (auto simp: pg_leased_def)
  note i = sql_insert_lease_Inr [OF ins]
  have good: "good_leases (pg_leases db)" and le: "owed scope (pg_leases db) \<le> sint (br_used row)"
    and lim0: "0 \<le> sint (br_limit row)"
    using assms(2) row by (auto simp: pg_valid_def pg_used_row pg_limit_row)
  have "sint (br_limit row - le_amount r) = sint (br_limit row) - sint (le_amount r)"
    using lim0 assms(3) sint_upper [of "br_limit row"] sint_upper [of "le_amount r"]
    by (intro sint_diff_i64) linarith+
  then have bound: "sint (br_used row) + sint (le_amount r) \<le> sint (br_limit row)"
    using lim lim0 by (simp add: i64_simps)
  then have sum: "sint (br_used row + le_amount r) = sint (br_used row) + sint (le_amount r)"
    using assms(3) le owed_nonneg [OF good, of scope] sint_upper [of "br_limit row"]
    by (intro sint_add_i64) linarith+
  have used: "pg_used scope db' = pg_used scope db + sint (le_amount r)"
    using row sum sql_set_used_effect(3) [of "db\<lparr>pg_leases := rows\<rparr>" scope] by (simp add: db' pg_used_row)
  have frame: "pg_frame scope db db'"
    using sql_set_used_effect(1) [of scope "db\<lparr>pg_leases := rows\<rparr>"] by (simp add: db')
  have leases: "pg_leases db' = pg_leases db @ [r]"
    using i by (simp add: db' sql_set_used_effect(2))
  have "good_leases (pg_leases db')"
    using good_leases_insert [OF good assms(3)] i leases by simp
  moreover have "owed scope (pg_leases db') \<le> pg_used scope db'"
    using le used leases row assms(4) by (simp add: pg_used_row)
  ultimately show ?thesis
    using pg_validI [OF assms(2) frame] frame used leases i bound row
    by (simp add: pg_used_row pg_limit_frame [OF frame] pg_limit_row)
qed

lemma pg_settled_effect:
  assumes "pg_settled scope i delta now db db'" and "pg_valid scope db"
    and "\<And>r. lease_of i (pg_leases db) = Some r \<Longrightarrow> le_owner r = scope \<and> 0 \<le> delta r + sint (le_amount r)"
  shows "\<exists>r. lease_of i (pg_leases db) = Some r
    \<and> pg_valid scope db' \<and> pg_frame scope db db' \<and> pg_used scope db' = pg_used scope db + delta r
    \<and> owed scope (pg_leases db') = owed scope (pg_leases db) - sint (le_amount r)
    \<and> pg_leases db' = filter (\<lambda>x. le_id x \<noteq> i) (pg_leases db)"
proof -
  let ?db = "db\<lparr>pg_leases := filter (\<lambda>x. le_id x \<noteq> i) (pg_leases db)\<rparr>"
  obtain r where r: "lease_of i (pg_leases db) = Some r"
    and add: "sql_add_used scope (delta r) now ?db = Inr db'"
    using assms(1) by (auto simp: pg_settled_def)
  have good: "good_leases (pg_leases db)" and row: "pg_budgets db scope \<noteq> None"
    and le: "owed scope (pg_leases db) \<le> pg_used scope db"
    using assms(2) by (auto simp: pg_valid_def)
  have eff: "pg_frame scope ?db db'" "pg_leases db' = filter (\<lambda>x. le_id x \<noteq> i) (pg_leases db)"
      "pg_used scope db' = pg_used scope db + delta r"
    using sql_add_used_effect [OF add] row by simp_all
  have owed: "owed scope (pg_leases db') = owed scope (pg_leases db) - sint (le_amount r)"
    using owed_remove [OF good r, of scope] assms(3) [OF r] eff(2) by simp
  have "pg_valid scope db'"
    using pg_validI [OF assms(2), of db'] eff owed good_leases_filter [OF good] assms(3) [OF r] le by simp
  then show ?thesis
    using r eff owed by auto
qed

text \<open>
  The invariant of a ledger and its reservations, in a world where no answer is lost.
\<close>

definition pg_inv :: "pg_ledger \<Rightarrow> pg_db backend \<Rightarrow> bool" where
  "pg_inv l s \<longleftrightarrow> pg_valid (pl_scope l) (be_data s) \<and> no_lost s
     \<and> objs_owned (pl_scope l) (pg_leases (be_data s)) (be_objs s)"

definition pg_held :: "pg_db backend \<Rightarrow> nat \<Rightarrow> int option" where
  "pg_held s h = held_lease (pg_leases (be_data s)) (be_objs s) h"

lemma pg_settled_drop:
  assumes "pg_settled scope i delta now db db'"
  shows "pg_leases db' = filter (\<lambda>x. le_id x \<noteq> i) (pg_leases db)"
  using assms
  by (auto simp: pg_settled_def sql_add_used_def sql_set_used_def Let_def split: option.splits if_splits)

lemma open_owner:
  assumes "pg_inv l s" and "h < length (be_objs s)" and "\<not> ro_done (be_objs s ! h)"
    and "lease_of (ro_id (be_objs s ! h)) (pg_leases (be_data s)) = Some r"
  shows "le_owner r = pl_scope l \<and> 0 \<le> sint (le_amount r)"
  using assms good_amount [of "pg_leases (be_data s)" "ro_id (be_objs s ! h)" r]
  by (auto simp: pg_inv_def objs_owned_def pg_valid_def)

text \<open>A terminal operation that settles by \<open>delta\<close>, and what it does on an open reservation.\<close>

definition pg_settles :: "pg_ledger \<Rightarrow> (string \<Rightarrow> pg_db backend \<Rightarrow> (gerr + unit) \<times> pg_db backend)
    \<Rightarrow> (lease \<Rightarrow> int) \<Rightarrow> bool" where
  "pg_settles l operation delta \<longleftrightarrow>
     (\<forall>i s u x. operation i s = (Inr x, u) \<longrightarrow> same_client s u
        \<and> pg_settled (pl_scope l) i delta (be_now s) (be_data s) (be_data u))
     \<and> (\<forall>r. 0 \<le> sint (le_amount r) \<longrightarrow> 0 \<le> delta r + sint (le_amount r))"

lemma pg_settles_commit: "0 \<le> sint a \<Longrightarrow> pg_settles l (pg_commit_tx l a) (\<lambda>r. sint (a - le_amount r))"
  unfolding pg_settles_def using pg_commit_tx_state [of l a] by (auto simp: sint_diff_nonneg)

lemma pg_settles_release: "pg_settles l (pg_release_tx l) (\<lambda>r. - sint (le_amount r))"
  unfolding pg_settles_def using pg_release_tx_state [of l] by auto

lemma pg_once_ok:
  assumes "pg_inv l s" and "pg_held s h = Some a"
    and "once h operation s = (None, t)" and "pg_settles l operation delta"
  shows "pg_inv l t \<and> obj_finished (be_objs t) h \<and> pg_held t h = None
    \<and> pg_limit (pl_scope l) (be_data t) = pg_limit (pl_scope l) (be_data s)
    \<and> (\<exists>r. sint (le_amount r) = a \<and> 0 \<le> a
        \<and> pg_used (pl_scope l) (be_data t) = pg_used (pl_scope l) (be_data s) + delta r)"
proof -
  let ?x = "be_objs s ! h"
  obtain r where h: "h < length (be_objs s)" "\<not> ro_done ?x"
    and r: "lease_of (ro_id ?x) (pg_leases (be_data s)) = Some r" "sint (le_amount r) = a"
    using held_leaseD [of "pg_leases (be_data s)" "be_objs s" h a] assms(2) by (auto simp: pg_held_def)
  note own = open_owner [OF assms(1) h]
  have own1: "le_owner r = pl_scope l" "0 \<le> sint (le_amount r)" using own [OF r(1)] by auto
  obtain u where u: "operation (ro_id ?x) s = (Inr (), u)"
    and t: "t = u\<lparr>be_objs := (be_objs u)[h := ?x\<lparr>ro_done := True\<rparr>]\<rparr>"
    using once_open [OF h(2) assms(3)] by auto
  have set: "pg_settled (pl_scope l) (ro_id ?x) delta (be_now s) (be_data s) (be_data u)"
    and same: "same_client s u"
    and pos: "\<And>r. 0 \<le> sint (le_amount r) \<Longrightarrow> 0 \<le> delta r + sint (le_amount r)"
    using assms(4) u unfolding pg_settles_def by blast+
  have valid: "pg_valid (pl_scope l) (be_data s)" using assms(1) by (simp add: pg_inv_def)
  have eff: "pg_valid (pl_scope l) (be_data u) \<and> pg_frame (pl_scope l) (be_data s) (be_data u)
      \<and> pg_used (pl_scope l) (be_data u) = pg_used (pl_scope l) (be_data s) + delta r
      \<and> pg_leases (be_data u) = filter (\<lambda>x. le_id x \<noteq> ro_id ?x) (pg_leases (be_data s))"
    using pg_settled_effect [OF set valid] own pos r(1) by (metis option.inject)
  have good: "good_leases (pg_leases (be_data s))" using valid by (simp add: pg_valid_def)
  have "objs_owned (pl_scope l) (pg_leases (be_data u)) (be_objs s)"
    using objs_owned_filter [OF _ good] assms(1) eff by (simp add: pg_inv_def)
  then have "pg_inv l t"
    using eff same assms(1) by (simp add: pg_inv_def t same_client_def no_lost_def objs_owned_done)
  moreover have "obj_finished (be_objs t) h" "pg_held t h = None"
    using h same by (simp_all add: t same_client_def pg_held_def)
  ultimately show ?thesis
    using eff own1 r by (auto simp: t pg_limit_frame)
qed

text \<open>No call changes the limit, whatever the state is.\<close>

lemma pg_frames:
  "pg_freed scope now db db' \<Longrightarrow> pg_frame scope db db'"
  "pg_leased scope r now db db' \<Longrightarrow> pg_frame scope db db'"
  "pg_settled scope i delta now db db' \<Longrightarrow> pg_frame scope db db'"
proof -
  show "pg_freed scope now db db' \<Longrightarrow> pg_frame scope db db'"
    using sql_set_used_effect(1) [of scope "db\<lparr>pg_leases := rows\<rparr>" for rows]
    by (auto simp: pg_freed_def)
  show "pg_leased scope r now db db' \<Longrightarrow> pg_frame scope db db'"
    using sql_set_used_effect(1) [of scope "db\<lparr>pg_leases := rows\<rparr>" for rows]
    by (auto simp: pg_leased_def)
  show "pg_settled scope i delta now db db' \<Longrightarrow> pg_frame scope db db'"
    using sql_set_used_effect(1) [of scope "db\<lparr>pg_leases := rows\<rparr>" for rows]
    by (auto simp: pg_settled_def sql_add_used_def Let_def split: option.splits if_splits)
qed

lemma pg_reserve_frame:
  assumes "pg_reserve l c e s = (res, s')"
  shows "pg_frame (pl_scope l) (be_data s) (be_data s')"
  using pg_reserve_state [OF assms] pg_frames(1,2) pg_frame_trans
  by (cases res) (auto, blast+)

text \<open>What both terminal operations keep, whatever they return.\<close>

definition pg_careful :: "pg_ledger \<Rightarrow> (string \<Rightarrow> pg_db backend \<Rightarrow> (gerr + unit) \<times> pg_db backend) \<Rightarrow> bool" where
  "pg_careful l operation \<longleftrightarrow> (\<forall>i s res t. operation i s = (res, t) \<longrightarrow>
     same_client s t \<and> pg_frame (pl_scope l) (be_data s) (be_data t)
     \<and> (no_lost s \<longrightarrow> (\<forall>e. res = Inl e \<longrightarrow> be_data t = be_data s)))"

lemma pg_careful_commit: "pg_careful l (pg_commit_tx l a)"
  unfolding pg_careful_def
proof (intro allI impI)
  fix i s res t
  assume "pg_commit_tx l a i s = (res, t)"
  from pg_commit_tx_state [OF this]
  show "same_client s t \<and> pg_frame (pl_scope l) (be_data s) (be_data t)
     \<and> (no_lost s \<longrightarrow> (\<forall>e. res = Inl e \<longrightarrow> be_data t = be_data s))"
    using pg_frames(3) [of "pl_scope l" i] by fastforce
qed

lemma pg_careful_release: "pg_careful l (pg_release_tx l)"
  unfolding pg_careful_def
proof (intro allI impI)
  fix i s res t
  assume "pg_release_tx l i s = (res, t)"
  from pg_release_tx_state [OF this]
  show "same_client s t \<and> pg_frame (pl_scope l) (be_data s) (be_data t)
     \<and> (no_lost s \<longrightarrow> (\<forall>e. res = Inl e \<longrightarrow> be_data t = be_data s))"
    using pg_frames(3) [of "pl_scope l" i] by fastforce
qed

lemma pg_careful_once:
  assumes "pg_careful l operation" and "once h operation s = (err, t)"
  shows "pg_frame (pl_scope l) (be_data s) (be_data t)
    \<and> (pg_inv l s \<longrightarrow> err \<noteq> None \<longrightarrow> pg_inv l t \<and> be_data t = be_data s)"
proof (cases "ro_done (be_objs s ! h)")
  case True
  then show ?thesis using assms(2) by (simp add: once_done)
next
  case False
  from once_open [OF this assms(2)] show ?thesis
  proof (elim disjE exE conjE)
    fix e
    assume "err = Some e" and "operation (ro_id (be_objs s ! h)) s = (Inl e, t)"
    moreover from this have "same_client s t \<and> pg_frame (pl_scope l) (be_data s) (be_data t)
        \<and> (no_lost s \<longrightarrow> be_data t = be_data s)"
      using assms(1) unfolding pg_careful_def by blast
    ultimately show ?thesis by (simp add: pg_inv_def same_client_def)
  next
    fix u
    assume "err = None" and t: "t = u\<lparr>be_objs := (be_objs u)[h := (be_objs s ! h)\<lparr>ro_done := True\<rparr>]\<rparr>"
      and "operation (ro_id (be_objs s ! h)) s = (Inr (), u)"
    moreover from this have "pg_frame (pl_scope l) (be_data s) (be_data u)"
      using assms(1) unfolding pg_careful_def by blast
    ultimately show ?thesis by simp
  qed
qed

lemma pg_commit_cases:
  assumes "pg_commit l h c a s = (err, s')"
  shows "(err \<noteq> None \<and> s' = s) \<or> (c = background \<and> once h (pg_commit_tx l (clamp0 a)) s = (err, s'))"
  using assms by (auto simp: pg_commit_def ctx_check_None split: option.splits)

lemma pg_release_cases:
  assumes "pg_release l h c s = (err, s')"
  shows "(err \<noteq> None \<and> s' = s) \<or> (c = background \<and> once h (pg_release_tx l) s = (err, s'))"
  using assms by (auto simp: pg_release_def ctx_check_None split: option.splits)

lemma pg_terminal_careful:
  assumes "pg_commit l h c a s = (err, s') \<or> pg_release l h c s = (err, s')"
  shows "pg_frame (pl_scope l) (be_data s) (be_data s')
    \<and> (pg_inv l s \<longrightarrow> err \<noteq> None \<longrightarrow> pg_inv l s' \<and> be_data s' = be_data s)"
  using assms
proof
  assume "pg_commit l h c a s = (err, s')"
  from pg_commit_cases [OF this] show ?thesis
    using pg_careful_once [OF pg_careful_commit] by fastforce
next
  assume "pg_release l h c s = (err, s')"
  from pg_release_cases [OF this] show ?thesis
    using pg_careful_once [OF pg_careful_release] by fastforce
qed

lemma pg_reserve_good:
  assumes "pg_reserve l c e s = (res, s')" and "pg_inv l s"
  shows "pg_inv l s' \<and>
    (case res of
       Inl x \<Rightarrow> pg_used (pl_scope l) (be_data s') \<le> pg_used (pl_scope l) (be_data s)
     | Inr h \<Rightarrow> c = background \<and> 0 \<le> sint e \<and> pg_held s' h = Some (sint e)
         \<and> pg_used (pl_scope l) (be_data s') \<le> pg_used (pl_scope l) (be_data s) + sint e
         \<and> pg_used (pl_scope l) (be_data s') \<le> pg_limit (pl_scope l) (be_data s))"
proof -
  note st = pg_reserve_state [OF assms(1)]
  have inv: "pg_valid (pl_scope l) (be_data s)" "no_lost s" "no_lost s'"
      "objs_owned (pl_scope l) (pg_leases (be_data s)) (be_objs s)"
    using assms(2) st by (auto simp: pg_inv_def same_env_def)
  have good: "good_leases (pg_leases (be_data s))" using inv(1) by (simp add: pg_valid_def)
  have freed: "pg_valid (pl_scope l) db \<and> pg_used (pl_scope l) db \<le> pg_used (pl_scope l) (be_data s)
      \<and> pg_limit (pl_scope l) db = pg_limit (pl_scope l) (be_data s)
      \<and> objs_owned (pl_scope l) (pg_leases db) (be_objs s)"
    if "pg_freed (pl_scope l) (be_now s) (be_data s) db" for db
    using pg_freed_effect [OF that inv(1)] objs_owned_filter [OF inv(4) good] by (auto simp: pg_limit_frame)
  show ?thesis
  proof (cases res)
    case (Inl x)
    then show ?thesis
      using st inv freed by (auto simp: pg_inv_def)
  next
    case (Inr h)
    then obtain i db where objs: "be_objs s' = be_objs s @ [\<lparr>ro_id = i, ro_done = False\<rparr>]"
      and f: "pg_freed (pl_scope l) (be_now s) (be_data s) db"
      and g: "pg_leased (pl_scope l) (new_lease l i e (be_now s)) (be_now s) db (be_data s')"
      and c: "c = background" "0 \<le> sint e" "h = length (be_objs s)"
      using st by auto
    note ef = freed [OF f]
    have eff: "pg_valid (pl_scope l) (be_data s')" "pg_frame (pl_scope l) db (be_data s')"
        "pg_used (pl_scope l) (be_data s') = pg_used (pl_scope l) db + sint e"
        "pg_used (pl_scope l) (be_data s') \<le> pg_limit (pl_scope l) (be_data s')"
        "pg_leases (be_data s') = pg_leases db @ [new_lease l i e (be_now s)]"
        "lease_of i (pg_leases db) = None"
      using pg_leased_effect [OF g] ef c(2) by simp_all
    have "objs_owned (pl_scope l) (pg_leases (be_data s')) (be_objs s')"
      using objs_owned_insert [of "pl_scope l" "pg_leases db" "be_objs s" "new_lease l i e (be_now s)"]
        ef eff objs by simp
    moreover have "pg_held s' h = Some (sint e)"
      using held_lease_new [of "new_lease l i e (be_now s)" "pg_leases db" "be_objs s"] eff objs c
      by (simp add: pg_held_def)
    ultimately show ?thesis
      using Inr c eff ef inv by (auto simp: pg_inv_def pg_limit_frame [OF eff(2)])
  qed
qed

lemma pg_record_state:
  assumes "pg_record l c ev s = (err, s')"
  shows "same_client s s' \<and> pg_budgets (be_data s') = pg_budgets (be_data s)
    \<and> pg_leases (be_data s') = pg_leases (be_data s)"
proof -
  have "s' = s \<or> (\<exists>rows r. exec_call (Inr ((be_data s)\<lparr>pg_entries := rows\<rparr>)) s = (r, s'))"
    using assms by (auto simp: pg_record_def only_error_eq Let_def split: option.splits if_splits)
  then show ?thesis
  proof (elim disjE exE)
    fix rows r
    assume "exec_call (Inr ((be_data s)\<lparr>pg_entries := rows\<rparr>)) s = (r, s')"
    from exec_call_state [OF this] show ?thesis
      by simp (elim conjE disjE; simp)
  qed simp
qed

text \<open>The contract of a durable ledger, whatever fails.\<close>

interpretation pg: reserver_contract "pg_reserver l" "pg_inv l"
  "\<lambda>s. pg_used (pl_scope l) (be_data s)" "\<lambda>s. pg_limit (pl_scope l) (be_data s)"
  pg_held "\<lambda>s. obj_finished (be_objs s)" max_int64 for l
proof (unfold_locales, goal_cases)
  case (1 s c e h s')
  then show ?case using pg_reserve_good [of l c e s "Inr h" s'] by simp
next
  case (2 s c e x s')
  then show ?case using pg_reserve_good [of l c e s "Inl x" s'] by simp
next
  case (3 s h r c a s')
  then have o: "once h (pg_commit_tx l (clamp0 a)) s = (None, s')"
    using pg_commit_cases [of l h c a s None s'] by simp
  note ok = pg_once_ok [OF 3(1,2) o pg_settles_commit [of "clamp0 a", simplified]]
  then obtain q :: lease where q: "sint (le_amount q) = r" "0 \<le> r" "pg_used (pl_scope l) (be_data s')
      = pg_used (pl_scope l) (be_data s) + sint (clamp0 a - le_amount q)"
    by blast
  then show ?case
    using ok by (simp add: sint_diff_nonneg i64_simps)
next
  case (4 s h c a x s')
  then show ?case using pg_terminal_careful [of l h c a s "Some x" s'] by simp
next
  case (5 s h r c s')
  then have o: "once h (pg_release_tx l) s = (None, s')"
    using pg_release_cases [of l h c s None s'] by simp
  then show ?case
    using pg_once_ok [OF 5(1,2) o pg_settles_release] by auto
next
  case (6 s h c x s')
  then show ?case using pg_terminal_careful [of l h c 0 s "Some x" s'] by simp
next
  case (7 s h a)
  then show ?case by (simp add: pg_commit_def once_finished)
next
  case (8 s h)
  then show ?case by (simp add: pg_release_def once_finished)
next
  case (9 s c e res s')
  then show ?case using pg_reserve_frame [of l c e s res s'] by (simp add: pg_limit_frame)
next
  case (10 s h c a err s')
  then show ?case using pg_terminal_careful [of l h c a s err s'] by (simp add: pg_limit_frame)
next
  case (11 s h c err s')
  then show ?case using pg_terminal_careful [of l h c 0 s err s'] by (simp add: pg_limit_frame)
next
  case (12 s c ev err s' h)
  then show ?case
    using pg_record_state [of l c ev s err s']
    by (simp add: pg_inv_def pg_valid_def pg_used_def pg_limit_def pg_held_def same_client_def)
qed

section \<open>Lemmas: the ledger in a quiet world\<close>

definition pg_quiet :: "pg_ledger \<Rightarrow> pg_db backend \<Rightarrow> bool" where
  "pg_quiet l s \<longleftrightarrow> pg_inv l s \<and> be_outcomes s = [] \<and> pl_db l
     \<and> map_option br_currency (pg_budgets (be_data s) (pl_scope l)) = Some (currency_string (pl_currency l))
     \<and> (\<forall>r\<in>set (pg_leases (be_data s)). \<not> lease_expired (pl_scope l) (be_now s) r)
     \<and> fresh_ids (le_id ` set (pg_leases (be_data s))) s"

lemma load_budget_quiet:
  assumes "pg_quiet l s" and "pg_budgets (be_data s) (pl_scope l) = Some row"
    and "be_outcomes t = []" and "be_now t = be_now s"
  shows "load_budget_and_reclaim l (be_data s) t = (Inr (br_used row, br_limit row, be_data s), t)"
  using assms sql_reclaim_none [of "pg_leases (be_data s)" "pl_scope l" "be_now s"]
  by (simp add: load_budget_and_reclaim_def try_do_def load_budget_def pg_quiet_def i64_simps)

lemma pg_reserve_quiet:
  assumes "pg_quiet l s" and "pg_budgets (be_data s) (pl_scope l) = Some row"
    and "0 \<le> sint e" and "sint e \<le> sint MaxEstimate"
  shows "\<exists>b. be_random s (be_drawn s) = Some b \<and> pg_reserve l background e s =
    (if sint (br_limit row) < sint (br_used row) + sint e
     then (Inl (Errorf ''%w: used=%d estimate=%d limit=%d''
             [FErr (Sentinel ErrBudgetExceeded), FInt (br_used row), FInt e, FInt (br_limit row)]),
           s\<lparr>be_drawn := Suc (be_drawn s)\<rparr>)
     else let r = new_lease l (hex_encode b) e (be_now s) in
       (Inr (length (be_objs s)),
        s\<lparr>be_drawn := Suc (be_drawn s),
          be_data := sql_set_used (pl_scope l) (br_used row + e) (be_now s)
            ((be_data s)\<lparr>pg_leases := pg_leases (be_data s) @ [r]\<rparr>),
          be_objs := be_objs s @ [\<lparr>ro_id = hex_encode b, ro_done = False\<rparr>]\<rparr>))"
proof -
  obtain b where b: "be_random s (be_drawn s) = Some b" "hex_encode b \<notin> le_id ` set (pg_leases (be_data s))"
    using fresh_idsD assms(1) unfolding pg_quiet_def by blast
  let ?s = "s\<lparr>be_drawn := Suc (be_drawn s)\<rparr>" and ?r = "new_lease l (hex_encode b) e (be_now s)"
  have q: "be_outcomes s = []" "pl_db l" and lim: "0 \<le> sint (br_limit row)"
    using assms(1,2) by (auto simp: pg_quiet_def pg_inv_def pg_valid_def pg_limit_row)
  have load: "load_budget_and_reclaim l (be_data s) ?s = (Inr (br_used row, br_limit row, be_data s), ?s)"
    using load_budget_quiet [OF assms(1,2), of ?s] q by simp
  have e: "\<not> (e <s 0 \<or> MaxEstimate <s e)" using assms(3,4) by (simp add: i64_simps)
  have diff: "sint (br_limit row - e) = sint (br_limit row) - sint e"
    using lim assms(3) by (rule sint_diff_nonneg)
  have ins: "sql_insert_lease ?r (pg_leases (be_data s)) = Inr (pg_leases (be_data s) @ [?r])"
    using b(2) by (auto simp: sql_insert_lease_def list_ex_iff intro: rev_image_eqI)
  show ?thesis
  proof (cases "sint (br_limit row) < sint (br_used row) + sint e")
    case True
    then have "0 \<le>s br_limit row \<and> br_limit row - e <s br_used row"
      using lim diff by (simp add: i64_simps)
    then show ?thesis
      using True q e b(1) load
      by (simp add: pg_reserve_def try_do_def new_id_def pg_deny_def)
  next
    case False
    then have "\<not> (0 \<le>s br_limit row \<and> br_limit row - e <s br_used row)"
      using lim diff by (simp add: i64_simps)
    then show ?thesis
      using False q e b(1) load ins
      by (auto simp: pg_reserve_def try_do_def new_id_def pg_hold_def add_obj_def Let_def)
  qed
qed

text \<open>A terminal transaction with its lease in place and no overflow.\<close>

lemma pg_terminal_quiet:
  assumes "pg_quiet l s" and "lease_of i (pg_leases (be_data s)) = Some r"
  shows "in_int64 (pg_used (pl_scope l) (be_data s) + sint (a - le_amount r)) \<Longrightarrow>
      \<exists>db. pg_commit_tx l a i s = (Inr (), s\<lparr>be_data := db\<rparr>)"
    and "in_int64 (pg_used (pl_scope l) (be_data s) - sint (le_amount r)) \<Longrightarrow>
      \<exists>db. pg_release_tx l i s = (Inr (), s\<lparr>be_data := db\<rparr>)"
proof -
  obtain row where row: "pg_budgets (be_data s) (pl_scope l) = Some row"
    using assms(1) by (auto simp: pg_quiet_def)
  have q: "be_outcomes s = []" using assms(1) by (simp add: pg_quiet_def)
  show "in_int64 (pg_used (pl_scope l) (be_data s) + sint (a - le_amount r)) \<Longrightarrow>
      \<exists>db. pg_commit_tx l a i s = (Inr (), s\<lparr>be_data := db\<rparr>)"
    using q assms(2) row
    by (auto simp: pg_commit_tx_def try_do_def pg_take_def sql_take_lease sql_add_used_def pg_used_row Let_def)
  show "in_int64 (pg_used (pl_scope l) (be_data s) - sint (le_amount r)) \<Longrightarrow>
      \<exists>db. pg_release_tx l i s = (Inr (), s\<lparr>be_data := db\<rparr>)"
    using q assms(2) row
    by (auto simp: pg_release_tx_def try_do_def pg_take_def sql_take_lease sql_add_used_def pg_used_row Let_def)
qed

lemma pg_quiet_row:
  assumes "pg_quiet l s"
  obtains row where "pg_budgets (be_data s) (pl_scope l) = Some row"
    and "br_currency row = currency_string (pl_currency l)"
  using assms by (auto simp: pg_quiet_def)

text \<open>Quietness is kept: the leases shrink, or one fresh and unexpired lease is added.\<close>

lemma pg_quietI:
  assumes "pg_quiet l s" and "pg_inv l t" and "pg_frame (pl_scope l) (be_data s) (be_data t)"
    and "be_now t = be_now s" and "be_outcomes t = []"
    and "set (pg_leases (be_data t)) \<subseteq> set (pg_leases (be_data s)) \<union> {r}"
    and "\<not> lease_expired (pl_scope l) (be_now s) r" and "fresh_ids (le_id ` set (pg_leases (be_data t))) t"
  shows "pg_quiet l t"
  using assms unfolding pg_quiet_def pg_frame_def by auto

lemma pg_quiet_shrink:
  assumes "pg_quiet l s" and "pg_inv l t" and "pg_frame (pl_scope l) (be_data s) (be_data t)"
    and "be_now t = be_now s" and "be_outcomes t = []"
    and "set (pg_leases (be_data t)) \<subseteq> set (pg_leases (be_data s))"
    and "be_random t = be_random s" and "be_drawn s \<le> be_drawn t"
  shows "pg_quiet l t"
proof -
  have "fresh_ids (le_id ` set (pg_leases (be_data t))) t"
    using fresh_ids_subset [of "le_id ` set (pg_leases (be_data s))" s "le_id ` set (pg_leases (be_data t))" t] assms
    by (auto simp: pg_quiet_def)
  then show ?thesis
    using assms unfolding pg_quiet_def pg_frame_def by auto
qed

lemma pg_reserve_stays_quiet:
  assumes "pg_quiet l s" and "pg_reserve l c e s = (res, t)"
  shows "pg_quiet l t"
proof (cases "c = background \<and> 0 \<le> sint e \<and> sint e \<le> sint MaxEstimate")
  case False
  then have "t = s"
    using assms by (auto simp: pg_reserve_def ctx_check_None pg_quiet_def i64_simps split: option.splits if_splits)
  then show ?thesis using assms(1) by simp
next
  case True
  obtain row where row: "pg_budgets (be_data s) (pl_scope l) = Some row"
    using assms(1) by (rule pg_quiet_row)
  have inv: "pg_inv l t" and frame: "pg_frame (pl_scope l) (be_data s) (be_data t)"
    and q: "be_outcomes s = []" "fresh_ids (le_id ` set (pg_leases (be_data s))) s"
    using pg_reserve_good [OF assms(2)] pg_reserve_frame [OF assms(2)] assms(1) by (auto simp: pg_quiet_def)
  obtain b where b: "be_random s (be_drawn s) = Some b"
    and run: "(res, t) = (if sint (br_limit row) < sint (br_used row) + sint e
     then (Inl (Errorf ''%w: used=%d estimate=%d limit=%d''
             [FErr (Sentinel ErrBudgetExceeded), FInt (br_used row), FInt e, FInt (br_limit row)]),
           s\<lparr>be_drawn := Suc (be_drawn s)\<rparr>)
     else let r = new_lease l (hex_encode b) e (be_now s) in
       (Inr (length (be_objs s)),
        s\<lparr>be_drawn := Suc (be_drawn s),
          be_data := sql_set_used (pl_scope l) (br_used row + e) (be_now s)
            ((be_data s)\<lparr>pg_leases := pg_leases (be_data s) @ [r]\<rparr>),
          be_objs := be_objs s @ [\<lparr>ro_id = hex_encode b, ro_done = False\<rparr>]\<rparr>))"
    using pg_reserve_quiet [OF assms(1) row, of e] True assms(2) by auto
  show ?thesis
  proof (cases "sint (br_limit row) < sint (br_used row) + sint e")
    case True
    then have "t = s\<lparr>be_drawn := Suc (be_drawn s)\<rparr>" using run by simp
    then show ?thesis
      using pg_quiet_shrink [OF assms(1) inv frame] q by simp
  next
    case False
    let ?r = "new_lease l (hex_encode b) e (be_now s)"
    have t: "pg_leases (be_data t) = pg_leases (be_data s) @ [?r]" "be_now t = be_now s"
        "be_outcomes t = []" "be_random t = be_random s" "be_drawn t = Suc (be_drawn s)"
      using run False q by (simp_all add: Let_def sql_set_used_effect(2))
    have "fresh_ids (le_id ` set (pg_leases (be_data t))) t"
      using fresh_ids_insert [OF q(2) b, of t] t by simp
    moreover have "\<not> lease_expired (pl_scope l) (be_now s) ?r"
      by (simp add: lease_expired_def not_le)
    ultimately show ?thesis
      using pg_quietI [OF assms(1) inv frame, of ?r] t by simp
  qed
qed

lemma pg_once_stays_quiet:
  assumes "pg_quiet l s" and "pg_inv l t" and "once h operation s = (err, t)"
    and "pg_careful l operation" and "pg_settles l operation delta"
  shows "pg_quiet l t"
proof -
  have quiet: "pg_quiet l t"
    if "same_client s u" and "pg_leases (be_data t) = pg_leases (be_data u)"
      and "set (pg_leases (be_data u)) \<subseteq> set (pg_leases (be_data s))"
      and "be_now t = be_now u" "be_outcomes t = be_outcomes u" "be_random t = be_random u"
        "be_drawn t = be_drawn u" for u
    using that pg_quiet_shrink [OF assms(1,2)] pg_careful_once [OF assms(4,3)] assms(1)
    by (simp add: same_client_def pg_quiet_def)
  show ?thesis
  proof (cases "ro_done (be_objs s ! h)")
    case True
    then show ?thesis using assms(1,3) by (simp add: once_done)
  next
    case False
    from once_open [OF this assms(3)] show ?thesis
    proof (elim disjE exE conjE)
      fix e
      assume "operation (ro_id (be_objs s ! h)) s = (Inl e, t)"
      then have "same_client s t \<and> be_data t = be_data s"
        using assms(1,4) unfolding pg_careful_def pg_quiet_def pg_inv_def by blast
      then show ?thesis using quiet [of t] by simp
    next
      fix u
      assume t: "t = u\<lparr>be_objs := (be_objs u)[h := (be_objs s ! h)\<lparr>ro_done := True\<rparr>]\<rparr>"
        and "operation (ro_id (be_objs s ! h)) s = (Inr (), u)"
      then have "same_client s u"
        and "pg_settled (pl_scope l) (ro_id (be_objs s ! h)) delta (be_now s) (be_data s) (be_data u)"
        using assms(5) unfolding pg_settles_def by blast+
      then show ?thesis using quiet [of u] t pg_settled_drop by fastforce
    qed
  qed
qed

lemma pg_terminal_stays_quiet:
  assumes "pg_quiet l s" and "pg_inv l t"
    and "pg_commit l h c a s = (err, t) \<or> pg_release l h c s = (err, t)"
  shows "pg_quiet l t"
  using assms(3)
proof
  assume "pg_commit l h c a s = (err, t)"
  from pg_commit_cases [OF this] show ?thesis
    using pg_once_stays_quiet [OF assms(1,2) _ pg_careful_commit pg_settles_commit, of h "clamp0 a" err]
      assms(1) by auto
next
  assume "pg_release l h c s = (err, t)"
  from pg_release_cases [OF this] show ?thesis
    using pg_once_stays_quiet [OF assms(1,2) _ pg_careful_release pg_settles_release, of h err]
      assms(1) by auto
qed

lemma pg_record_stays_quiet:
  assumes "pg_quiet l s" and "pg_inv l t" and "pg_record l c ev s = (err, t)"
  shows "pg_quiet l t"
proof -
  have st: "same_client s t" "pg_budgets (be_data t) = pg_budgets (be_data s)"
      "pg_leases (be_data t) = pg_leases (be_data s)"
    using pg_record_state [OF assms(3)] by auto
  have "fresh_ids (le_id ` set (pg_leases (be_data t))) t"
    using fresh_ids_subset [of "le_id ` set (pg_leases (be_data s))" s "le_id ` set (pg_leases (be_data t))" t] assms(1) st
    by (auto simp: pg_quiet_def same_client_def)
  then show ?thesis
    using assms(1,2) st by (auto simp: pg_quiet_def same_client_def)
qed

text \<open>The terminal calls succeed in a quiet world.\<close>

lemma pg_once_quiet:
  assumes "pg_quiet l s" and "pg_held s h = Some a"
    and "\<And>r. lease_of (ro_id (be_objs s ! h)) (pg_leases (be_data s)) = Some r \<Longrightarrow>
      sint (le_amount r) = a \<Longrightarrow> \<exists>db. operation (ro_id (be_objs s ! h)) s = (Inr (), s\<lparr>be_data := db\<rparr>)"
  shows "\<exists>t. once h operation s = (None, t)"
proof -
  obtain r where "\<not> ro_done (be_objs s ! h)"
      "lease_of (ro_id (be_objs s ! h)) (pg_leases (be_data s)) = Some r" "sint (le_amount r) = a"
    using held_leaseD [of "pg_leases (be_data s)" "be_objs s" h a] assms(2) by (auto simp: pg_held_def)
  then show ?thesis
    using assms(3) by (auto simp: once_def Let_def)
qed

lemma pg_room:
  assumes "pg_inv l s" and "pg_held s h = Some r"
  shows "0 \<le> r \<and> r \<le> pg_used (pl_scope l) (be_data s) \<and> pg_used (pl_scope l) (be_data s) \<le> max_int64"
proof -
  obtain q where q: "h < length (be_objs s)" "\<not> ro_done (be_objs s ! h)"
      "lease_of (ro_id (be_objs s ! h)) (pg_leases (be_data s)) = Some q" "sint (le_amount q) = r"
    using held_leaseD [of "pg_leases (be_data s)" "be_objs s" h r] assms(2) by (auto simp: pg_held_def)
  note own = open_owner [OF assms(1) q(1-3)]
  have v: "good_leases (pg_leases (be_data s))" "owed (pl_scope l) (pg_leases (be_data s)) \<le> pg_used (pl_scope l) (be_data s)"
    using assms(1) by (auto simp: pg_inv_def pg_valid_def)
  have "pg_used (pl_scope l) (be_data s) \<le> max_int64"
    using sint_upper by (auto simp: pg_used_def split: option.split)
  then show ?thesis
    using owed_ge_lease [OF v(1) q(3)] own q(4) v(2) by auto
qed

lemma pg_commit_quiet:
  assumes "pg_quiet l s" and "pg_held s h = Some r"
    and "pg_used (pl_scope l) (be_data s) - r + max 0 (sint a) \<le> max_int64"
  shows "\<exists>t. pg_commit l h background a s = (None, t)"
proof -
  have room: "0 \<le> r" "r \<le> pg_used (pl_scope l) (be_data s)"
    using pg_room [of l s h r] assms(1,2) by (auto simp: pg_quiet_def)
  have "\<exists>db. pg_commit_tx l (clamp0 a) (ro_id (be_objs s ! h)) s = (Inr (), s\<lparr>be_data := db\<rparr>)"
    if q: "lease_of (ro_id (be_objs s ! h)) (pg_leases (be_data s)) = Some q" "sint (le_amount q) = r" for q
  proof -
    have "sint (clamp0 a - le_amount q) = max 0 (sint a) - r"
      using room q(2) by (simp add: sint_diff_nonneg i64_simps)
    then show ?thesis
      using pg_terminal_quiet(1) [OF assms(1) q(1), of "clamp0 a"] room assms(3)
      by (simp add: in_int64_def)
  qed
  from pg_once_quiet [where operation = "pg_commit_tx l (clamp0 a)", OF assms(1,2) this] show ?thesis
    by (simp add: pg_commit_def)
qed

lemma pg_release_quiet:
  assumes "pg_quiet l s" and "pg_held s h = Some r"
  shows "\<exists>t. pg_release l h background s = (None, t)"
proof -
  have room: "0 \<le> r" "r \<le> pg_used (pl_scope l) (be_data s)" "pg_used (pl_scope l) (be_data s) \<le> max_int64"
    using pg_room [of l s h r] assms by (auto simp: pg_quiet_def)
  have "\<exists>db. pg_release_tx l (ro_id (be_objs s ! h)) s = (Inr (), s\<lparr>be_data := db\<rparr>)"
    if q: "lease_of (ro_id (be_objs s ! h)) (pg_leases (be_data s)) = Some q" "sint (le_amount q) = r" for q
    using pg_terminal_quiet(2) [OF assms(1) q(1)] room q(2) by (simp add: in_int64_def)
  from pg_once_quiet [where operation = "pg_release_tx l", OF assms this] show ?thesis
    by (simp add: pg_release_def)
qed

lemma pg_commit_exact:
  assumes "pg_inv l s" and "pg_held s h = Some r" and "pg_commit l h c a s = (None, t)"
  shows "pg_used (pl_scope l) (be_data t) = pg_used (pl_scope l) (be_data s) - r + max 0 (sint a)"
proof -
  have "once h (pg_commit_tx l (clamp0 a)) s = (None, t)"
    using pg_commit_cases [OF assms(3)] by simp
  note ok = pg_once_ok [OF assms(1,2) this pg_settles_commit [of "clamp0 a", simplified]]
  then obtain q :: lease where "sint (le_amount q) = r" "0 \<le> r" "pg_used (pl_scope l) (be_data t)
      = pg_used (pl_scope l) (be_data s) + sint (clamp0 a - le_amount q)"
    by blast
  then show ?thesis by (simp add: sint_diff_nonneg i64_simps)
qed

lemma pg_release_exact:
  assumes "pg_inv l s" and "pg_held s h = Some r" and "pg_release l h c s = (None, t)"
  shows "pg_used (pl_scope l) (be_data t) = pg_used (pl_scope l) (be_data s) - r"
proof -
  have "once h (pg_release_tx l) s = (None, t)"
    using pg_release_cases [OF assms(3)] by simp
  from pg_once_ok [OF assms(1,2) this pg_settles_release] show ?thesis by auto
qed

interpretation pg_prompt: prompt_reserver "pg_reserver l" "pg_quiet l"
  "\<lambda>s. pg_used (pl_scope l) (be_data s)" "\<lambda>s. pg_limit (pl_scope l) (be_data s)"
  pg_held "\<lambda>s. obj_finished (be_objs s)" max_int64 for l
proof (unfold_locales, goal_cases)
  case (1 s c e h s')
  then show ?case
    using pg.reserve_ok [of l s c e h s'] pg_reserve_stays_quiet [of l s c e "Inr h" s']
    by (simp add: pg_quiet_def)
next
  case (2 s c e x s')
  then show ?case
    using pg.reserve_err [of l s c e x s'] pg_reserve_stays_quiet [of l s c e "Inl x" s']
    by (simp add: pg_quiet_def)
next
  case (3 s h r c a s')
  then show ?case
    using pg.commit_ok [of l s h r c a s'] pg_terminal_stays_quiet [of l s s' h c a None]
    by (simp add: pg_quiet_def)
next
  case (4 s h c a x s')
  then show ?case
    using pg.commit_err [of l s h c a x s'] pg_terminal_stays_quiet [of l s s' h c a "Some x"]
    by (simp add: pg_quiet_def)
next
  case (5 s h r c s')
  then show ?case
    using pg.release_ok [of l s h r c s'] pg_terminal_stays_quiet [of l s s' h c 0 None]
    by (simp add: pg_quiet_def)
next
  case (6 s h c x s')
  then show ?case
    using pg.release_err [of l s h c x s'] pg_terminal_stays_quiet [of l s s' h c 0 "Some x"]
    by (simp add: pg_quiet_def)
next
  case (12 s c ev err s' h)
  then show ?case
    using pg.record_neutral [of l s c ev err s' h] pg_record_stays_quiet [of l s s' c ev err]
    by (simp add: pg_quiet_def)
next
  case (13 s e)
  obtain row where row: "pg_budgets (be_data s) (pl_scope l) = Some row"
    using 13(1) by (rule pg_quiet_row)
  have "\<not> sint (br_limit row) < sint (br_used row) + sint e"
    using 13(6) row by (simp add: pg_used_row pg_limit_row)
  then obtain h s' where r: "pg_reserve l background e s = (Inr h, s')"
    using pg_reserve_quiet [OF 13(1) row, of e] 13(2,3) by (auto simp: Let_def)
  have "pg_used (pl_scope l) (be_data s') = pg_used (pl_scope l) (be_data s) + sint e"
  proof -
    have "pg_budgets (be_data s') (pl_scope l) = Some (row\<lparr>br_used := br_used row + e, br_updated := be_now s\<rparr>)"
      using pg_reserve_quiet [OF 13(1) row, of e] 13(2,3) r \<open>\<not> sint (br_limit row) < _\<close> row
      by (auto simp: Let_def sql_set_used_def)
    moreover have "sint (br_used row + e) = sint (br_used row) + sint e"
      using 13(2,4) row sint_lower [of "br_used row"] by (intro sint_add_i64) (simp_all add: pg_used_row)
    ultimately show ?thesis using row by (simp add: pg_used_row)
  qed
  then show ?case using r by auto
next
  case (14 s e)
  obtain row where row: "pg_budgets (be_data s) (pl_scope l) = Some row"
    using 14(1) by (rule pg_quiet_row)
  have "sint (br_limit row) < sint (br_used row) + sint e"
    using 14(6) row by (simp add: pg_used_row pg_limit_row)
  then show ?case
    using pg_reserve_quiet [OF 14(1) row, of e] 14(2,3) by auto
next
  case (15 s h r a)
  obtain t where t: "pg_commit l h background a s = (None, t)"
    using pg_commit_quiet [of l s h r a] 15 by auto
  then show ?case
    using pg_commit_exact [of l s h r background a t] 15(1,2) by (auto simp: pg_quiet_def)
next
  case (16 s h r)
  obtain t where t: "pg_release l h background s = (None, t)"
    using pg_release_quiet [of l s h r] 16 by auto
  then show ?case
    using pg_release_exact [of l s h r background t] 16(1,2) by (auto simp: pg_quiet_def)
next
  case (7 s h a)
  then show ?case by (rule pg.finished_commit)
next
  case (8 s h)
  then show ?case by (rule pg.finished_release)
next
  case (9 s c e res s')
  then show ?case using pg.limit_fixed(1) by (simp add: pg_quiet_def)
next
  case (10 s h c a err s')
  then show ?case using pg.limit_fixed(2) by (simp add: pg_quiet_def)
next
  case (11 s h c err s')
  then show ?case using pg.limit_fixed(3) by (simp add: pg_quiet_def)
qed

end
