(* ===== verification/Wallet.thy ===== *)
theory Wallet
  imports Backend LocalLedger
begin

text \<open>
  \<open>nexssflow/wallet.go\<close>: the prepaid wallets in PostgreSQL, on the tables of
  \<open>examples/durable_quota/schema.sql\<close>, with the function of that schema that credits a
  wallet.  The checks and the unique keys of the schema are part of the statements.
\<close>

section \<open>Tables\<close>

record wallet_row =
  wr_tenant :: string
  wr_user :: string
  wr_currency :: string
  wr_balance :: i64
  wr_reserved :: i64
  wr_status :: string
  wr_updated :: int

datatype entry_type = Credit | Debit

record wallet_entry =
  we_wallet :: string
  we_type :: entry_type
  we_amount :: i64
  we_key :: string
  we_source :: "string option"
  we_domain :: "string option"
  we_operation :: "string option"
  we_recorded :: int

record usage_row =
  us_wallet :: string
  us_domain :: string
  us_operation :: string
  us_cost :: i64
  us_currency :: string
  us_event_id :: "string option"
  us_recorded :: int

text \<open>Tenants and users are their status.\<close>

record wallet_db =
  wd_tenants :: "string \<Rightarrow> string option"
  wd_users :: "string \<times> string \<Rightarrow> string option"
  wd_wallets :: "string \<Rightarrow> wallet_row option"
  wd_leases :: "lease list"
  wd_entries :: "wallet_entry list"
  wd_usage :: "usage_row list"

section \<open>The ledger\<close>

record wallet_identity =
  wi_tenant :: string
  wi_user :: string
  wi_wallet :: string

record wallet_ledger =
  wl_db :: bool
  wl_identity :: wallet_identity
  wl_currency :: currency
  wl_ttl :: i64
  wl_domain :: string
  wl_operation :: string

abbreviation wl_tenant :: "wallet_ledger \<Rightarrow> string" where
  "wl_tenant l \<equiv> wi_tenant (wl_identity l)"

abbreviation wl_user :: "wallet_ledger \<Rightarrow> string" where
  "wl_user l \<equiv> wi_user (wl_identity l)"

abbreviation wl_wallet :: "wallet_ledger \<Rightarrow> string" where
  "wl_wallet l \<equiv> wi_wallet (wl_identity l)"

definition active :: string where
  "active = ''active''"

section \<open>SQL statements\<close>

text \<open>
  The row of a wallet that belongs to the tenant and the user; with the owner's statuses
  when \<open>require\<close> is set, as the join does.
\<close>

record wallet_lock =
  lk_balance :: i64
  lk_reserved :: i64
  lk_currency :: string
  lk_status :: string
  lk_tenant_status :: string
  lk_user_status :: string

definition sql_lock_wallet :: "wallet_identity \<Rightarrow> bool \<Rightarrow> wallet_db \<Rightarrow> wallet_lock option" where
  "sql_lock_wallet i require db =
     (case wd_wallets db (wi_wallet i) of
        None \<Rightarrow> None
      | Some w \<Rightarrow>
          if wr_tenant w \<noteq> wi_tenant i \<or> wr_user w \<noteq> wi_user i then None
          else if require then
            (case (wd_tenants db (wr_tenant w), wd_users db (wr_tenant w, wr_user w)) of
               (Some t, Some u) \<Rightarrow> Some \<lparr>lk_balance = wr_balance w, lk_reserved = wr_reserved w,
                 lk_currency = wr_currency w, lk_status = wr_status w,
                 lk_tenant_status = t, lk_user_status = u\<rparr>
             | _ \<Rightarrow> None)
          else Some \<lparr>lk_balance = wr_balance w, lk_reserved = wr_reserved w,
                 lk_currency = wr_currency w, lk_status = wr_status w,
                 lk_tenant_status = [], lk_user_status = []\<rparr>)"

text \<open>
  \<open>UPDATE cost_wallets SET balance_micros, reserved_micros WHERE wallet_id\<close>, with new values
  that have to fit a \<open>BIGINT\<close> and the checks of the table; no row is no error.
\<close>

definition sql_set_wallet ::
  "string \<Rightarrow> (int \<Rightarrow> int) \<Rightarrow> (int \<Rightarrow> int) \<Rightarrow> int \<Rightarrow> wallet_db \<Rightarrow> string + wallet_db" where
  "sql_set_wallet wid balance reserved now db =
     (case wd_wallets db wid of
        None \<Rightarrow> Inr db
      | Some w \<Rightarrow>
          let b = balance (sint (wr_balance w)); r = reserved (sint (wr_reserved w)) in
          if \<not> in_int64 b \<or> \<not> in_int64 r then Inl ''bigint out of range''
          else if b < 0 \<or> r < 0 \<or> b < r then Inl ''new row for relation cost_wallets violates check constraint''
          else Inr (db\<lparr>wd_wallets := (wd_wallets db)(wid \<mapsto>
                 w\<lparr>wr_balance := word_of_int b, wr_reserved := word_of_int r, wr_updated := now\<rparr>)\<rparr>))"

text \<open>\<open>INSERT INTO cost_wallet_entries\<close>; the key is unique in a wallet, the amount positive.\<close>

definition entry_exists :: "string \<Rightarrow> string \<Rightarrow> wallet_entry list \<Rightarrow> bool" where
  "entry_exists wid key rows \<longleftrightarrow> list_ex (\<lambda>x. we_wallet x = wid \<and> we_key x = key) rows"

definition sql_insert_wallet_entry :: "wallet_entry \<Rightarrow> wallet_db \<Rightarrow> string + wallet_db" where
  "sql_insert_wallet_entry row db =
     (if sint (we_amount row) \<le> 0 then Inl ''violates check constraint''
      else if entry_exists (we_wallet row) (we_key row) (wd_entries db)
      then Inl ''duplicate key value violates unique constraint''
      else Inr (db\<lparr>wd_entries := wd_entries db @ [row]\<rparr>))"

text \<open>
  \<open>INSERT ... ON CONFLICT (wallet_id, event_id) WHERE event_id IS NOT NULL DO NOTHING\<close>, with the
  reference of a row that is inserted to its wallet.
\<close>

definition sql_insert_usage :: "usage_row \<Rightarrow> wallet_db \<Rightarrow> string + wallet_db" where
  "sql_insert_usage row db =
     (if us_event_id row \<noteq> None
         \<and> list_ex (\<lambda>x. us_wallet x = us_wallet row \<and> us_event_id x = us_event_id row) (wd_usage db)
      then Inr db
      else if wd_wallets db (us_wallet row) = None then Inl ''insert violates foreign key constraint''
      else Inr (db\<lparr>wd_usage := wd_usage db @ [row]\<rparr>))"

text \<open>\<open>NULLIF(text, '')\<close>.\<close>

definition sql_nullif_empty :: "string \<Rightarrow> string option" where
  "sql_nullif_empty x = (if x = [] then None else Some x)"

section \<open>Operations\<close>

definition validate_wallet_context :: "gctx \<Rightarrow> gerr option" where
  "validate_wallet_context c = ctx_check c"

definition validate_estimate :: "wallet_ledger \<Rightarrow> i64 \<Rightarrow> gerr option" where
  "validate_estimate l estimate =
     (if estimate <s 0 \<or> MaxEstimate <s estimate then Some (invalid_estimate estimate)
      else if \<not> wl_db l then Some (ErrorsNew ''postgres wallet: nil database'')
      else None)"

text \<open>\<open>beginReservation\<close>: the checks, the identifier and the transaction.\<close>

definition begin_reservation ::
  "wallet_ledger \<Rightarrow> gctx \<Rightarrow> i64 \<Rightarrow> wallet_db backend \<Rightarrow> (gerr + wallet_db \<times> string) \<times> wallet_db backend" where
  "begin_reservation l c estimate s =
     (case validate_wallet_context c of
        Some e \<Rightarrow> (Inl e, s)
      | None \<Rightarrow>
     (case validate_estimate l estimate of
        Some e \<Rightarrow> (Inl e, s)
      | None \<Rightarrow>
          try_do new_id (wrapf ''postgres wallet: reservation id: %w'') (\<lambda>i.
          try_do begin_tx (wrapf ''postgres wallet: begin reservation: %w'') (\<lambda>tx s.
            (Inr (tx, i), s))) s))"

text \<open>\<open>lockWallet\<close>: the row has to exist, in the ledger's currency, with active owners.\<close>

definition check_lock :: "wallet_ledger \<Rightarrow> bool \<Rightarrow> wallet_lock option \<Rightarrow> wallet_db backend
    \<Rightarrow> (gerr + i64 \<times> i64 \<times> string) \<times> wallet_db backend" where
  "check_lock l require answer s =
     (case answer of
        None \<Rightarrow> fail (Errorf ''postgres wallet: active wallet %q was not found for tenant %q and user %q''
                  [FStr (wl_wallet l), FStr (wl_tenant l), FStr (wl_user l)]) s
      | Some k \<Rightarrow>
          if lk_currency k \<noteq> currency_string (wl_currency l)
          then fail (Errorf ''postgres wallet: currency mismatch: database=%s configured=%s''
                 [FStr (lk_currency k), FStr (currency_string (wl_currency l))]) s
          else if require \<and> lk_tenant_status k \<noteq> active
          then fail (Errorf ''postgres wallet: tenant %q is %q'' [FStr (wl_tenant l), FStr (lk_tenant_status k)]) s
          else if require \<and> lk_user_status k \<noteq> active
          then fail (Errorf ''postgres wallet: user %q is %q'' [FStr (wl_user l), FStr (lk_user_status k)]) s
          else (Inr (lk_balance k, lk_reserved k, lk_status k), s))"

definition lock_wallet ::
  "wallet_ledger \<Rightarrow> bool \<Rightarrow> wallet_db \<Rightarrow> wallet_db backend \<Rightarrow> (gerr + i64 \<times> i64 \<times> string) \<times> wallet_db backend" where
  "lock_wallet l require tx =
     try_do (tx_call (Inr (sql_lock_wallet (wl_identity l) require tx))) (wrapf ''postgres wallet: load wallet: %w'')
       (check_lock l require)"

definition check_wallet_active :: "wallet_ledger \<Rightarrow> string \<Rightarrow> wallet_db backend \<Rightarrow> (gerr + unit) \<times> wallet_db backend" where
  "check_wallet_active l status s =
     (if status \<noteq> active
      then fail (Errorf ''postgres wallet: wallet %q is %q'' [FStr (wl_wallet l), FStr status]) s
      else (Inr (), s))"

definition wallet_invariant_error :: "wallet_ledger \<Rightarrow> gerr" where
  "wallet_invariant_error l =
     Errorf ''postgres wallet: reservation invariant violated for wallet %q'' [FStr (wl_wallet l)]"

text \<open>\<open>updateReservedAmount\<close>.\<close>

definition update_reserved :: "wallet_ledger \<Rightarrow> i64 \<Rightarrow> wallet_db \<Rightarrow> wallet_db backend \<Rightarrow> (gerr + wallet_db) \<times> wallet_db backend" where
  "update_reserved l reserved tx s =
     try_do (tx_call (sql_set_wallet (wl_wallet l) (\<lambda>b. b) (\<lambda>_. sint reserved) (be_now s) tx))
       (wrapf ''postgres wallet: hold funds: %w'') (\<lambda>tx s. (Inr tx, s)) s"

text \<open>\<open>reclaimExpired\<close>.\<close>

definition reclaim_expired ::
  "wallet_ledger \<Rightarrow> wallet_db \<Rightarrow> i64 \<Rightarrow> wallet_db backend \<Rightarrow> (gerr + i64 \<times> wallet_db) \<times> wallet_db backend" where
  "reclaim_expired l tx reserved s =
     try_do (tx_call (sql_reclaim (wl_wallet l) (be_now s) (wd_leases tx)))
       (wrapf ''postgres wallet: reclaim expired reservations: %w'') (\<lambda>(reclaimed, rows).
       if reserved <s reclaimed then fail (wallet_invariant_error l)
       else let reserved = reserved - reclaimed; tx = tx\<lparr>wd_leases := rows\<rparr> in
         if 0 <s reclaimed
         then try_do (update_reserved l reserved tx) (wrapf ''postgres wallet: release expired holds: %w'') (\<lambda>tx s.
                (Inr (reserved, tx), s))
         else (\<lambda>s. (Inr (reserved, tx), s))) s"

text \<open>\<open>insertReservation\<close>.\<close>

definition wallet_lease :: "wallet_ledger \<Rightarrow> string \<Rightarrow> i64 \<Rightarrow> int \<Rightarrow> lease" where
  "wallet_lease l i estimate now = \<lparr>le_id = i, le_owner = wl_wallet l, le_amount = estimate,
     le_expires = now + 1000000 * ttl_seconds (wl_ttl l)\<rparr>"

definition insert_reservation ::
  "wallet_ledger \<Rightarrow> string \<Rightarrow> i64 \<Rightarrow> wallet_db \<Rightarrow> wallet_db backend \<Rightarrow> (gerr + wallet_db) \<times> wallet_db backend" where
  "insert_reservation l i estimate tx s =
     try_do (tx_call (sql_insert_lease (wallet_lease l i estimate (be_now s)) (wd_leases tx)))
       (wrapf ''postgres wallet: insert reservation: %w'') (\<lambda>rows s. (Inr (tx\<lparr>wd_leases := rows\<rparr>), s)) s"

text \<open>\<open>Reserve\<close> after the expired leases are reclaimed.\<close>

definition wallet_deny :: "wallet_ledger \<Rightarrow> i64 \<Rightarrow> i64 \<Rightarrow> wallet_db \<Rightarrow> wallet_db backend \<Rightarrow> (gerr + nat) \<times> wallet_db backend" where
  "wallet_deny l available estimate tx =
     try_do (commit_tx tx) (wrapf ''postgres wallet: commit expired-reservation cleanup: %w'') (\<lambda>_.
     fail (Errorf ''%w: wallet=%s available=%d estimate=%d''
       [FErr (Sentinel ErrBudgetExceeded), FStr (wl_wallet l), FInt available, FInt estimate]))"

definition wallet_hold :: "wallet_ledger \<Rightarrow> string \<Rightarrow> i64 \<Rightarrow> i64 \<Rightarrow> wallet_db \<Rightarrow> wallet_db backend \<Rightarrow> (gerr + nat) \<times> wallet_db backend" where
  "wallet_hold l i reserved estimate tx =
     try_do (insert_reservation l i estimate tx) (\<lambda>e. e) (\<lambda>tx.
     try_do (update_reserved l (reserved + estimate) tx) (\<lambda>e. e) (\<lambda>tx.
     try_do (commit_tx tx) (wrapf ''postgres wallet: commit reservation: %w'') (\<lambda>_.
     add_obj i)))"

definition wallet_decide :: "wallet_ledger \<Rightarrow> string \<Rightarrow> i64 \<Rightarrow> i64 \<Rightarrow> i64 \<Rightarrow> wallet_db \<Rightarrow> wallet_db backend
    \<Rightarrow> (gerr + nat) \<times> wallet_db backend" where
  "wallet_decide l i balance reserved estimate tx =
     (if balance <s 0 \<or> reserved <s 0 \<or> balance <s reserved
      then fail (Errorf ''postgres wallet: invalid balance state for wallet %q'' [FStr (wl_wallet l)])
      else if balance - reserved <s estimate then wallet_deny l (balance - reserved) estimate tx
      else wallet_hold l i reserved estimate tx)"

definition wallet_reserve :: "wallet_ledger \<Rightarrow> gctx \<Rightarrow> i64 \<Rightarrow> wallet_db backend \<Rightarrow> (gerr + nat) \<times> wallet_db backend" where
  "wallet_reserve l c estimate =
     try_do (begin_reservation l c estimate) (\<lambda>e. e) (\<lambda>(tx, i).
     try_do (lock_wallet l True tx) (\<lambda>e. e) (\<lambda>(balance, reserved, status).
     try_do (check_wallet_active l status) (\<lambda>e. e) (\<lambda>_.
     try_do (reclaim_expired l tx reserved) (\<lambda>e. e) (\<lambda>(reserved, tx).
     wallet_decide l i balance reserved estimate tx))))"

definition wallet_record :: "wallet_ledger \<Rightarrow> gctx \<Rightarrow> event \<Rightarrow> wallet_db backend \<Rightarrow> gerr option \<times> wallet_db backend" where
  "wallet_record l c ev s =
     (case ctx_check c of
        Some e \<Rightarrow> (Some e, s)
      | None \<Rightarrow>
          if \<not> wl_db l then (Some (ErrorsNew ''postgres wallet: nil database''), s)
          else if ev_cost ev \<le>s 0 then (Some (invalid_cost (ev_cost ev)), s)
          else
            let ev = fill_currency (wl_currency l) ev in
            if ev_currency ev \<noteq> wl_currency l then (Some (ErrorsNew ''postgres wallet: currency mismatch''), s)
            else
              let row = \<lparr>us_wallet = wl_wallet l, us_domain = ev_domain ev, us_operation = ev_operation ev,
                         us_cost = ev_cost ev, us_currency = currency_string (ev_currency ev),
                         us_event_id = sql_nullif_empty (ev_id ev), us_recorded = be_now s\<rparr> in
              only_error (try_do (exec_call (sql_insert_usage row (be_data s)))
                (wrapf ''postgres wallet: record usage event: %w'') (\<lambda>u s. (Inr u, s)) s))"

section \<open>Settlement\<close>

text \<open>\<open>settle\<close>: the debit of \<open>actual\<close>, for the lease \<open>i\<close> if it has not expired.\<close>

definition take_unexpired :: "wallet_ledger \<Rightarrow> string \<Rightarrow> wallet_db \<Rightarrow> wallet_db backend
    \<Rightarrow> (gerr + i64 \<times> wallet_db) \<times> wallet_db backend" where
  "take_unexpired l i tx s =
     try_do (tx_call (Inr (sql_take (\<lambda>r. le_id r = i \<and> le_owner r = wl_wallet l \<and> be_now s < le_expires r) (wd_leases tx))))
       (wrapf ''postgres wallet: load settlement reservation: %w'') (\<lambda>(answer, rows) s.
       case answer of
         None \<Rightarrow> fail (Errorf ''%w: %s'' [FErr (Sentinel ErrReservationNotFound), FStr i]) s
       | Some held \<Rightarrow> (Inr (held, tx\<lparr>wd_leases := rows\<rparr>), s)) s"

definition check_available :: "wallet_ledger \<Rightarrow> i64 \<Rightarrow> i64 \<Rightarrow> i64 \<Rightarrow> i64 \<Rightarrow> wallet_db backend \<Rightarrow> (gerr + unit) \<times> wallet_db backend" where
  "check_available l balance reserved held actual s =
     (if reserved <s held then fail (wallet_invariant_error l) s
      else let available = balance - (reserved - held) in
        if available <s 0 \<or> available <s actual
        then fail (Errorf ''%w: wallet=%s available_after_release=%d actual=%d''
               [FErr (Sentinel ErrBudgetExceeded), FStr (wl_wallet l), FInt available, FInt actual]) s
        else (Inr (), s))"

definition debit_entry :: "wallet_ledger \<Rightarrow> string \<Rightarrow> i64 \<Rightarrow> int \<Rightarrow> wallet_entry" where
  "debit_entry l i actual now = \<lparr>we_wallet = wl_wallet l, we_type = Debit, we_amount = actual, we_key = i,
     we_source = None, we_domain = Some (wl_domain l), we_operation = Some (wl_operation l), we_recorded = now\<rparr>"

definition write_debit :: "wallet_ledger \<Rightarrow> string \<Rightarrow> i64 \<Rightarrow> wallet_db \<Rightarrow> wallet_db backend
    \<Rightarrow> (gerr + wallet_db) \<times> wallet_db backend" where
  "write_debit l i actual tx s =
     (if 0 <s actual
      then try_do (tx_call (sql_insert_wallet_entry (debit_entry l i actual (be_now s)) tx))
             (wrapf ''postgres wallet: write debit entry: %w'') (\<lambda>tx s. (Inr tx, s)) s
      else (Inr tx, s))"

definition settle_wallet :: "wallet_ledger \<Rightarrow> string \<Rightarrow> i64 \<Rightarrow> i64 \<Rightarrow> i64 \<Rightarrow> wallet_db \<Rightarrow> wallet_db backend
    \<Rightarrow> (gerr + unit) \<times> wallet_db backend" where
  "settle_wallet l i balance reserved actual tx s =
     (let now = be_now s in
      try_do (take_unexpired l i tx) (\<lambda>e. e) (\<lambda>(held, tx).
      try_do (check_available l balance reserved held actual) (\<lambda>e. e) (\<lambda>_.
      try_do (tx_call (sql_set_wallet (wl_wallet l) (\<lambda>b. b - sint actual) (\<lambda>r. r - sint held) now tx))
        (wrapf ''postgres wallet: debit wallet: %w'') (\<lambda>tx.
      try_do (write_debit l i actual tx) (\<lambda>e. e) (\<lambda>tx.
      try_do (commit_tx tx) (wrapf ''postgres wallet: commit settlement: %w'') (\<lambda>_ s. (Inr (), s)))))) s)"

definition wallet_commit_tx :: "wallet_ledger \<Rightarrow> i64 \<Rightarrow> string \<Rightarrow> wallet_db backend \<Rightarrow> (gerr + unit) \<times> wallet_db backend" where
  "wallet_commit_tx l actual i =
     try_do begin_tx (wrapf ''postgres wallet: begin settlement: %w'') (\<lambda>tx.
     try_do (lock_wallet l True tx) (\<lambda>e. e) (\<lambda>(balance, reserved, status).
     try_do (check_wallet_active l status) (\<lambda>e. e) (\<lambda>_.
     settle_wallet l i balance reserved actual tx)))"

definition wallet_commit :: "wallet_ledger \<Rightarrow> nat \<Rightarrow> gctx \<Rightarrow> i64 \<Rightarrow> wallet_db backend \<Rightarrow> gerr option \<times> wallet_db backend" where
  "wallet_commit l h c actual s =
     (case validate_wallet_context c of
        Some e \<Rightarrow> (Some e, s)
      | None \<Rightarrow> once h (wallet_commit_tx l (clamp0 actual)) s)"

definition take_any :: "wallet_ledger \<Rightarrow> string \<Rightarrow> wallet_db \<Rightarrow> wallet_db backend
    \<Rightarrow> (gerr + i64 \<times> wallet_db) \<times> wallet_db backend" where
  "take_any l i tx =
     try_do (tx_call (Inr (sql_take (\<lambda>r. le_id r = i \<and> le_owner r = wl_wallet l) (wd_leases tx))))
       (wrapf ''postgres wallet: release reservation: %w'') (\<lambda>(answer, rows) s.
       case answer of
         None \<Rightarrow> fail (Errorf ''%w: %s'' [FErr (Sentinel ErrReservationNotFound), FStr i]) s
       | Some held \<Rightarrow> (Inr (held, tx\<lparr>wd_leases := rows\<rparr>), s))"

definition wallet_release_tx :: "wallet_ledger \<Rightarrow> string \<Rightarrow> wallet_db backend \<Rightarrow> (gerr + unit) \<times> wallet_db backend" where
  "wallet_release_tx l i s =
     (let now = be_now s in
      try_do begin_tx (wrapf ''postgres wallet: begin release: %w'') (\<lambda>tx.
      try_do (lock_wallet l False tx) (\<lambda>e. e) (\<lambda>_.
      try_do (take_any l i tx) (\<lambda>e. e) (\<lambda>(held, tx).
      try_do (tx_call (sql_set_wallet (wl_wallet l) (\<lambda>b. b) (\<lambda>r. r - sint held) now tx))
        (wrapf ''postgres wallet: release held funds: %w'') (\<lambda>tx.
      try_do (commit_tx tx) (wrapf ''postgres wallet: commit release: %w'') (\<lambda>_ s. (Inr (), s)))))) s)"

definition wallet_release :: "wallet_ledger \<Rightarrow> nat \<Rightarrow> gctx \<Rightarrow> wallet_db backend \<Rightarrow> gerr option \<times> wallet_db backend" where
  "wallet_release l h c s =
     (case ctx_check c of
        Some e \<Rightarrow> (Some e, s)
      | None \<Rightarrow> once h (wallet_release_tx l) s)"

definition wallet_reserver :: "wallet_ledger \<Rightarrow> (wallet_db backend, nat) reserver" where
  "wallet_reserver l = \<lparr>Reserve = wallet_reserve l, RecordEvent = wallet_record l,
     Commit = wallet_commit l, Release = wallet_release l\<rparr>"

lemma wallet_reserver_simps [simp]:
  "Reserve (wallet_reserver l) = wallet_reserve l"
  "RecordEvent (wallet_reserver l) = wallet_record l"
  "Commit (wallet_reserver l) = wallet_commit l"
  "Release (wallet_reserver l) = wallet_release l"
  by (simp_all add: wallet_reserver_def)

text \<open>\<open>cost_credit_wallet\<close> of the schema: a top-up that repeats its key is a no-op.\<close>

definition credit_wallet :: "string \<Rightarrow> i64 \<Rightarrow> string \<Rightarrow> string \<Rightarrow> int \<Rightarrow> wallet_db \<Rightarrow> string + wallet_db" where
  "credit_wallet wid amount key src now db =
     (if sint amount \<le> 0 then Inl ''credit amount must be positive''
      else if list_all (\<lambda>c. c = CHR '' '') key then Inl ''idempotency key is required''
      else case wd_wallets db wid of
        None \<Rightarrow> Inl ''wallet does not exist''
      | Some w \<Rightarrow>
          if \<not> entry_exists wid key (wd_entries db)
          then sql_set_wallet wid (\<lambda>b. b + sint amount) (\<lambda>r. r) now
                 (db\<lparr>wd_entries := wd_entries db @ [\<lparr>we_wallet = wid, we_type = Credit, we_amount = amount,
                    we_key = key, we_source = Some src, we_domain = None, we_operation = None, we_recorded = now\<rparr>]\<rparr>)
          else if list_ex (\<lambda>x. we_wallet x = wid \<and> we_key x = key \<and> (we_type x \<noteq> Credit \<or> we_amount x \<noteq> amount)) (wd_entries db)
          then Inl ''idempotency key was already used for a different wallet entry''
          else Inr db)"

end
