(* ===== verification/Durable.thy ===== *)
theory Durable
  imports Guard Sha256 Postgres Wallet
begin

text \<open>
  The durable quota middleware of \<open>nexssflow/postgres.go\<close>: the identity fields of the
  input, the ledger of the month or of the wallet, and the reservation around the action.
  The action and the kernel that calls the middleware are parameters.  The ledger factories
  of \<open>postgresStore\<close> are seams of the tests; \<open>newPostgresStore\<close> leaves them nil.
\<close>

section \<open>Values of a flow\<close>

text \<open>
  What the type switches tell apart: \<open>FMap\<close> is a \<open>map[string]any\<close>, \<open>FStrMap\<close> a
  \<open>map[string]string\<close>, and \<open>FOther\<close> a value of any other type (also of a named map type),
  with the cost it reports if its type implements \<open>cost.Reporter\<close>.  The two map types have
  no name and so no methods.
\<close>

datatype flow_value =
    FMap "(string \<times> gval) list"
  | FStrMap "(string \<times> string) list"
  | FOther gval "i64 option"

abbreviation flow_nil :: flow_value where
  "flow_nil \<equiv> FOther GNil None"

fun flow_gval :: "flow_value \<Rightarrow> gval" where
  "flow_gval (FMap kvs) = GMap kvs"
| "flow_gval (FStrMap kvs) = GMap (map (\<lambda>(k, v). (k, GString v)) kvs)"
| "flow_gval (FOther v _) = v"

text \<open>\<open>output.(cost.Reporter)\<close>.\<close>

fun reported_cost :: "flow_value \<Rightarrow> i64 option" where
  "reported_cost (FOther _ c) = c"
| "reported_cost _ = None"

fun map_put :: "string \<Rightarrow> 'a \<Rightarrow> (string \<times> 'a) list \<Rightarrow> (string \<times> 'a) list" where
  "map_put k v [] = [(k, v)]"
| "map_put k v (x # xs) = (if fst x = k then (k, v) # xs else x # map_put k v xs)"

section \<open>Fields and results\<close>

definition string_field :: "flow_value \<Rightarrow> string \<Rightarrow> gerr + string" where
  "string_field input field =
     (let check = (\<lambda>raw. case raw of
          None \<Rightarrow> Inl (Errorf ''durable accounting input is missing identity field %q'' [FStr field])
        | Some (GString value) \<Rightarrow>
            if trim_space value = []
            then Inl (Errorf ''durable accounting identity field %q must be a non-empty string'' [FStr field])
            else Inr (trim_space value)
        | Some _ \<Rightarrow> Inl (Errorf ''durable accounting identity field %q must be a non-empty string'' [FStr field])) in
      case input of
        FMap object \<Rightarrow> check (map_of object field)
      | FStrMap object \<Rightarrow> check (map_option GString (map_of object field))
      | FOther _ _ \<Rightarrow> Inl (Errorf ''durable accounting requires an object input with string field %q, got %T'' [FStr field]))"

definition tenant_value :: "flow_value \<Rightarrow> string \<Rightarrow> gerr + string" where
  "tenant_value input field =
     (case string_field input field of Inl e \<Rightarrow> Inl (wrapf ''cost: %w'' e) | Inr value \<Rightarrow> Inr value)"

definition wallet_identity_from_input ::
  "flow_value \<Rightarrow> string \<Rightarrow> string \<Rightarrow> string \<Rightarrow> gerr + wallet_identity" where
  "wallet_identity_from_input input tenant_field user_field wallet_field =
     (case string_field input tenant_field of
        Inl e \<Rightarrow> Inl (wrapf ''cost: %w'' e)
      | Inr tenant \<Rightarrow>
     (case string_field input user_field of
        Inl e \<Rightarrow> Inl (wrapf ''cost: %w'' e)
      | Inr user \<Rightarrow>
     (case string_field input wallet_field of
        Inl e \<Rightarrow> Inl (wrapf ''cost: %w'' e)
      | Inr wallet \<Rightarrow> Inr \<lparr>wi_tenant = tenant, wi_user = user, wi_wallet = wallet\<rparr>)))"

text \<open>\<open>setQuotaState\<close> copies the object and never changes its argument.\<close>

definition set_quota_state :: "flow_value \<Rightarrow> bool \<Rightarrow> string \<Rightarrow> gerr + flow_value" where
  "set_quota_state value reserved state =
     (let mark = (\<lambda>object. Inr (FMap (map_put ''quota_state'' (GString state)
            (map_put ''quota_reserved'' (GBool reserved) object)))) in
      case value of
        FMap object \<Rightarrow> mark object
      | FStrMap object \<Rightarrow> mark (map (\<lambda>(k, v). (k, GString v)) object)
      | FOther _ _ \<Rightarrow> Inl (ErrorsNew ''cost: durable accounting target must return an object''))"

definition finish_reservation ::
  "('s, 'h) reserver \<Rightarrow> gctx \<Rightarrow> 'h \<Rightarrow> bool \<Rightarrow> i64 \<Rightarrow> 's \<Rightarrow> gerr option \<times> 's" where
  "finish_reservation R ctx reservation commit actual s =
     (if commit then Commit R reservation (accounting_ctx ctx) actual s
      else Release R reservation (accounting_ctx ctx) s)"

section \<open>The middleware\<close>

text \<open>
  How a function ends: it returns a value and an error, or it panics.  A protected action
  takes the context and the input; it may change the state of the backend, on which other
  requests run meanwhile.
\<close>

datatype flow_end = Returns flow_value "gerr option" | Panics

type_synonym 's protected_action = "gctx \<Rightarrow> flow_value \<Rightarrow> 's \<Rightarrow> flow_end \<times> 's"

text \<open>\<open>return f()\<close> for a function that returns a value and an error.\<close>

fun return_result :: "gerr + flow_value \<Rightarrow> flow_end" where
  "return_result (Inl e) = Returns flow_nil (Some e)"
| "return_result (Inr v) = Returns v None"

definition join_errors :: "gerr option \<Rightarrow> gerr \<Rightarrow> gerr" where
  "join_errors first e = (case first of None \<Rightarrow> ErrorsJoin [e] | Some x \<Rightarrow> ErrorsJoin [x, e])"

text \<open>The deferred function; \<open>logged\<close> is its message when it runs after a panic.\<close>

definition quota_deferred ::
  "('s, 'h) reserver \<Rightarrow> gctx \<Rightarrow> 'h \<Rightarrow> (gerr \<Rightarrow> gerr) \<Rightarrow> string \<Rightarrow> flow_end \<Rightarrow> bool \<Rightarrow> 's
    \<Rightarrow> (flow_end \<times> log) \<times> 's" where
  "quota_deferred R ctx reservation wrap logged result settled s =
     (if settled then ((result, []), s)
      else case finish_reservation R ctx reservation False 0 s of
        (None, s) \<Rightarrow> ((result, []), s)
      | (Some e, s) \<Rightarrow>
          (case result of
             Panics \<Rightarrow> ((Panics, [(logged, wrap e)]), s)
           | Returns output err \<Rightarrow> ((Returns output (Some (join_errors err (wrap e))), []), s)))"

text \<open>
  The body from the call of the action on: the flag is \<open>settled\<close>, \<open>wrap\<close> what is returned
  for a commit that failed, and \<open>finish\<close> the rest of the body after a commit.
\<close>

definition quota_body ::
  "(gerr \<Rightarrow> gerr) \<Rightarrow> (flow_value \<Rightarrow> i64 \<Rightarrow> 's \<Rightarrow> flow_end \<times> 's) \<Rightarrow> ('s, 'h) reserver \<Rightarrow> 'h \<Rightarrow> i64
    \<Rightarrow> 's protected_action \<Rightarrow> gctx \<Rightarrow> flow_value \<Rightarrow> 's \<Rightarrow> (flow_end \<times> bool) \<times> 's" where
  "quota_body wrap finish R reservation estimate next ctx input s =
     (case next ctx input s of
        (Panics, s) \<Rightarrow> ((Panics, False), s)
      | (Returns output (Some e), s) \<Rightarrow> ((Returns output (Some e), False), s)
      | (Returns output None, s) \<Rightarrow>
          let actual = (case reported_cost output of Some c \<Rightarrow> clamp0 c | None \<Rightarrow> estimate) in
          (case finish_reservation R ctx reservation True actual s of
             (Some e, s) \<Rightarrow> ((Returns flow_nil (Some (wrap e)), False), s)
           | (None, s) \<Rightarrow> (case finish output actual s of (result, s) \<Rightarrow> ((result, True), s))))"

text \<open>After the commit: the event is recorded, except in a wallet, which has done so.\<close>

definition quota_finish ::
  "string \<Rightarrow> string \<Rightarrow> currency \<Rightarrow> ('s, 'h) reserver \<Rightarrow> gctx \<Rightarrow> flow_value \<Rightarrow> i64 \<Rightarrow> 's \<Rightarrow> flow_end \<times> 's" where
  "quota_finish mode action_name cur R ctx output actual s =
     (if 0 <s actual then
        if mode = ''wallet'' then (return_result (set_quota_state output True ''wallet_charged''), s)
        else
          let (d, op) = action_domain_operation action_name in
          (case RecordEvent R (accounting_ctx ctx) ((action_event d op actual)\<lparr>ev_currency := cur\<rparr>) s of
             (Some e, s) \<Rightarrow> (Returns flow_nil (Some (wrapf ''cost: record durable usage: %w'' e)), s)
           | (None, s) \<Rightarrow> (return_result (set_quota_state output True ''reserved''), s))
      else (return_result (set_quota_state output True ''reserved''), s))"

text \<open>\<open>quotaMiddleware\<close>; \<open>ledger_for\<close> is \<open>ledgerForInput\<close>, below.\<close>

definition quota_middleware ::
  "string \<Rightarrow> currency \<Rightarrow> (gctx \<Rightarrow> flow_value \<Rightarrow> 's \<Rightarrow> (gerr + ('s, 'h) reserver \<times> string) \<times> 's)
    \<Rightarrow> estimate_spec \<Rightarrow> string \<Rightarrow> 's protected_action \<Rightarrow> gctx \<Rightarrow> flow_value \<Rightarrow> 's \<Rightarrow> (flow_end \<times> log) \<times> 's" where
  "quota_middleware mode cur ledger_for spec action_name next ctx input s =
     (case resolve spec (flow_gval input) of
        Inl e \<Rightarrow> ((Returns flow_nil (Some e), []), s)
      | Inr estimate \<Rightarrow>
     (case ledger_for ctx input s of
        (Inl e, s) \<Rightarrow> ((Returns flow_nil (Some e), []), s)
      | (Inr (R, denied_state), s) \<Rightarrow>
     (case Reserve R ctx estimate s of
        (Inl e, s) \<Rightarrow>
          if errors_is e ErrBudgetExceeded
          then ((return_result (set_quota_state input False denied_state), []), s)
          else ((Returns flow_nil (Some (Errorf ''cost: reserve %s for account: %w'' [FStr mode, FErr e])), []), s)
      | (Inr reservation, s) \<Rightarrow>
          (case quota_body (\<lambda>e. Errorf ''cost: settle %s reservation: %w'' [FStr mode, FErr e])
              (quota_finish mode action_name cur R ctx) R reservation estimate next ctx input s of
             ((result, settled), s) \<Rightarrow>
               quota_deferred R ctx reservation (\<lambda>e. Errorf ''cost: release %s reservation: %w'' [FStr mode, FErr e])
                 ''failed to release PostgreSQL reservation after panic'' result settled s))))"

section \<open>The ledger of a month\<close>

text \<open>The UTC year and month of a \<open>time.Time\<close>, all that \<open>Format("2006-01")\<close> prints.\<close>

record utc_month =
  um_year :: nat
  um_month :: nat

definition pad_left :: "nat \<Rightarrow> string \<Rightarrow> string" where
  "pad_left n s = replicate (n - length s) (CHR ''0'') @ s"

definition format_month :: "utc_month \<Rightarrow> string" where
  "format_month m = pad_left 4 (nat_digits (um_year m)) @ CHR ''-'' # pad_left 2 (nat_digits (um_month m))"

definition monthly_scope :: "string \<Rightarrow> string \<Rightarrow> utc_month \<Rightarrow> gerr + string" where
  "monthly_scope prefix tenant now =
     (let tenant = trim_space tenant in
      if tenant = [] then Inl (ErrorsNew ''cost: tenant identifier is required for durable quota'')
      else Inr (prefix @ '':'' @ sha256_hex tenant @ '':'' @ format_month now))"

record postgres_store =
  ps_budget :: i64
  ps_currency :: currency
  ps_schema_mode :: string
  ps_accounting_mode :: string
  ps_scope_prefix :: string
  ps_tenant_field :: string
  ps_user_field :: string
  ps_wallet_field :: string
  ps_ttl :: i64

text \<open>
  \<open>INSERT ... ON CONFLICT(scope) DO UPDATE SET limit_micros WHERE currency = EXCLUDED.currency\<close>:
  the number of rows it affects and the data after it.
\<close>

definition sql_upsert_matching :: "string \<Rightarrow> i64 \<Rightarrow> string \<Rightarrow> int \<Rightarrow> pg_db \<Rightarrow> nat \<times> pg_db" where
  "sql_upsert_matching scope limit cur now db =
     (case pg_budgets db scope of
        None \<Rightarrow> (1, db\<lparr>pg_budgets := (pg_budgets db)
            (scope \<mapsto> \<lparr>br_limit = limit, br_used = 0, br_currency = cur, br_updated = now\<rparr>)\<rparr>)
      | Some row \<Rightarrow>
          if br_currency row = cur
          then (1, db\<lparr>pg_budgets := (pg_budgets db)(scope \<mapsto> row\<lparr>br_limit := limit\<rparr>)\<rparr>)
          else (0, db))"

text \<open>
  A nil context panics in \<open>database/sql\<close>.  \<open>RowsAffected\<close> reads what the driver already has
  and does not fail.
\<close>

definition ensure_budget_row :: "postgres_store \<Rightarrow> gctx \<Rightarrow> string \<Rightarrow> pg_db backend \<Rightarrow> gerr option \<times> pg_db backend" where
  "ensure_budget_row st c scope s =
     (let cur = currency_string (ps_currency st);
          (rows, db) = sql_upsert_matching scope (ps_budget st) cur (be_now s) (be_data s) in
      if c = NilCtx then (Some (External ''panic: nil pointer dereference''), s)
      else only_error (
        try_do (exec_call (Inr db)) (\<lambda>e. e) (\<lambda>_.
        if rows \<noteq> 0 then (\<lambda>s. (Inr (), s))
        else try_do (\<lambda>s. tx_call (Inr (map_option br_currency (pg_budgets (be_data s) scope))) s) (\<lambda>e. e) (\<lambda>answer.
          case answer of
            None \<Rightarrow> fail err_no_rows
          | Some existing \<Rightarrow> fail (Errorf ''currency mismatch for scope %s: database has %s, config has %s''
              [FStr scope, FStr existing, FStr cur]))) s))"

definition ledger_for_tenant ::
  "postgres_store \<Rightarrow> gctx \<Rightarrow> string \<Rightarrow> utc_month \<Rightarrow> pg_db backend \<Rightarrow> (gerr + pg_ledger) \<times> pg_db backend" where
  "ledger_for_tenant st c tenant now s =
     (case monthly_scope (ps_scope_prefix st) tenant now of
        Inl e \<Rightarrow> (Inl e, s)
      | Inr scope \<Rightarrow>
          let l = pg_new \<lparr>pl_db = True, pl_scope = scope, pl_limit = ps_budget st,
                 pl_currency = ps_currency st, pl_ttl = ps_ttl st\<rparr>;
              (err, s) = (if ps_schema_mode st = ''auto'' then ensure_schema l c s else ensure_budget_row st c scope s) in
          (case err of
             Some e \<Rightarrow> (Inl (wrapf ''initialize PostgreSQL monthly quota: %w'' e), s)
           | None \<Rightarrow> (Inr l, s)))"

text \<open>\<open>ledgerForInput\<close>, in the two accounting modes.\<close>

definition monthly_ledger_for ::
  "postgres_store \<Rightarrow> utc_month \<Rightarrow> gctx \<Rightarrow> flow_value \<Rightarrow> pg_db backend
    \<Rightarrow> (gerr + (pg_db backend, nat) reserver \<times> string) \<times> pg_db backend" where
  "monthly_ledger_for st now c input s =
     (case tenant_value input (ps_tenant_field st) of
        Inl e \<Rightarrow> (Inl e, s)
      | Inr tenant \<Rightarrow>
          (case ledger_for_tenant st c tenant now s of
             (Inl e, s) \<Rightarrow> (Inl e, s)
           | (Inr l, s) \<Rightarrow> (Inr (pg_reserver l, ''monthly_quota_exceeded''), s)))"

definition wallet_ledger_for ::
  "postgres_store \<Rightarrow> string \<Rightarrow> gctx \<Rightarrow> flow_value \<Rightarrow> wallet_db backend
    \<Rightarrow> (gerr + (wallet_db backend, nat) reserver \<times> string) \<times> wallet_db backend" where
  "wallet_ledger_for st action_name c input s =
     (case wallet_identity_from_input input (ps_tenant_field st) (ps_user_field st) (ps_wallet_field st) of
        Inl e \<Rightarrow> (Inl e, s)
      | Inr identity \<Rightarrow>
          let (d, op) = action_domain_operation action_name in
          (Inr (wallet_reserver \<lparr>wl_db = True, wl_identity = identity, wl_currency = ps_currency st,
              wl_ttl = ps_ttl st, wl_domain = d, wl_operation = op\<rparr>, ''wallet_insufficient_funds''), s))"

text \<open>The middleware of a store in each of the modes; \<open>now\<close> is the month when a request starts.\<close>

definition monthly_middleware where
  "monthly_middleware st now spec action_name next =
     quota_middleware ''monthly'' (ps_currency st) (monthly_ledger_for st now) spec action_name next"

definition wallet_middleware where
  "wallet_middleware st spec action_name next =
     quota_middleware ''wallet'' (ps_currency st) (wallet_ledger_for st action_name) spec action_name next"

end
