(* ===== verification/PostgresSpec.thy ===== *)
theory PostgresSpec
  imports Postgres Guard
begin

text \<open>
  What the PostgreSQL ledger promises (\<open>adapters/postgres/ledger.go\<close>): the limit, the
  conservation of what is committed, retries after a lost answer, expired leases, the
  audit table, and the contract test on a fresh schema.
\<close>

section \<open>Sequences of calls\<close>

text \<open>A client's calls on one ledger, in any order, with time passing between them.\<close>

datatype pg_call =
    PgReserve gctx i64
  | PgCommit nat gctx i64
  | PgRelease nat gctx
  | PgRecord gctx event
  | PgWait nat

fun pg_run1 :: "pg_ledger \<Rightarrow> pg_call \<Rightarrow> pg_db backend \<Rightarrow> pg_db backend" where
  "pg_run1 l (PgReserve c e) s = snd (pg_reserve l c e s)"
| "pg_run1 l (PgCommit h c a) s = snd (pg_commit l h c a s)"
| "pg_run1 l (PgRelease h c) s = snd (pg_release l h c s)"
| "pg_run1 l (PgRecord c ev) s = snd (pg_record l c ev s)"
| "pg_run1 l (PgWait n) s = s\<lparr>be_now := be_now s + int n\<rparr>"

fun pg_run :: "pg_ledger \<Rightarrow> pg_call list \<Rightarrow> pg_db backend \<Rightarrow> pg_db backend" where
  "pg_run l [] s = s"
| "pg_run l (c # cs) s = pg_run l cs (pg_run1 l c s)"

text \<open>The calls use reservations that exist, and no commit exceeds what is held.\<close>

fun pg_ok :: "pg_call \<Rightarrow> pg_db backend \<Rightarrow> bool" where
  "pg_ok (PgCommit h c a) s =
     (h < length (be_objs s) \<and> (case pg_held s h of Some r \<Rightarrow> max 0 (sint a) \<le> r | None \<Rightarrow> True))"
| "pg_ok (PgRelease h c) s = (h < length (be_objs s))"
| "pg_ok _ s = True"

fun pg_disciplined :: "pg_ledger \<Rightarrow> pg_call list \<Rightarrow> pg_db backend \<Rightarrow> bool" where
  "pg_disciplined l [] s = True"
| "pg_disciplined l (c # cs) s = (pg_ok c s \<and> pg_disciplined l cs (pg_run1 l c s))"

abbreviation pg_total :: "pg_ledger \<Rightarrow> pg_db backend \<Rightarrow> int" where
  "pg_total l s \<equiv> pg_used (pl_scope l) (be_data s)"

abbreviation pg_cap :: "pg_ledger \<Rightarrow> pg_db backend \<Rightarrow> int" where
  "pg_cap l s \<equiv> pg_limit (pl_scope l) (be_data s)"

section \<open>Lemmas: what is charged\<close>

text \<open>
  The part of the counter that no lease stands for: what has been charged to the scope.
  The invariant without the assumption that no answer is lost.
\<close>

definition pg_charged :: "pg_ledger \<Rightarrow> pg_db backend \<Rightarrow> int" where
  "pg_charged l s = pg_total l s - owed (pl_scope l) (pg_leases (be_data s))"

definition pg_base :: "pg_ledger \<Rightarrow> pg_db backend \<Rightarrow> bool" where
  "pg_base l s \<longleftrightarrow> pg_valid (pl_scope l) (be_data s)
     \<and> objs_owned (pl_scope l) (pg_leases (be_data s)) (be_objs s)"

text \<open>A call takes the amount of \<open>h\<close> out of the open leases.\<close>

definition pg_takes :: "pg_ledger \<Rightarrow> nat \<Rightarrow> pg_db backend \<Rightarrow> pg_db backend \<Rightarrow> bool" where
  "pg_takes l h s t \<longleftrightarrow> (\<exists>r. pg_held s h = Some r \<and>
     owed (pl_scope l) (pg_leases (be_data t)) = owed (pl_scope l) (pg_leases (be_data s)) - r)"

lemma pg_takes_objs [simp]: "pg_takes l h s (t\<lparr>be_objs := objs\<rparr>) = pg_takes l h s t"
  by (simp add: pg_takes_def)

lemma pg_base_wait [simp]: "pg_base l (s\<lparr>be_now := n\<rparr>) = pg_base l s"
  by (simp add: pg_base_def)

lemma pg_charged_data: "be_data t = be_data s \<Longrightarrow> pg_charged l t = pg_charged l s"
  by (simp add: pg_charged_def)

lemma objs_owned_lost:
  "objs_owned owner rows objs \<Longrightarrow> le_owner r = owner \<Longrightarrow> objs_owned owner (rows @ [r]) objs"
  by (auto simp: objs_owned_def lease_of_append split: option.splits if_splits)

lemma pg_reserve_charged:
  assumes "pg_base l s" and "pg_reserve l c e s = (res, t)"
  shows "pg_base l t \<and> pg_charged l t = pg_charged l s"
proof -
  let ?scope = "pl_scope l"
  have valid: "pg_valid ?scope (be_data s)" and own: "objs_owned ?scope (pg_leases (be_data s)) (be_objs s)"
    using assms(1) by (auto simp: pg_base_def)
  have good: "good_leases (pg_leases (be_data s))" using valid by (simp add: pg_valid_def)
  have freed: "pg_valid ?scope db \<and> objs_owned ?scope (pg_leases db) (be_objs s)
      \<and> pg_used ?scope db - owed ?scope (pg_leases db) = pg_charged l s"
    if "pg_freed ?scope (be_now s) (be_data s) db" for db
    using pg_freed_effect [OF that valid] objs_owned_filter [OF own good] by (auto simp: pg_charged_def)
  have leased: "pg_valid ?scope (be_data t) \<and> objs_owned ?scope (pg_leases (be_data t)) (be_objs t)
      \<and> pg_charged l t = pg_charged l s"
    if f: "pg_freed ?scope (be_now s) (be_data s) db"
      and g: "pg_leased ?scope (new_lease l i e (be_now s)) (be_now s) db (be_data t)"
      and e: "0 \<le> sint e"
      and o: "be_objs t = be_objs s \<or> be_objs t = be_objs s @ [\<lparr>ro_id = i, ro_done = False\<rparr>]" for db i
    using freed [OF f] pg_leased_effect [OF g] e o objs_owned_lost [of ?scope "pg_leases db" "be_objs s"]
      objs_owned_insert [of ?scope "pg_leases db" "be_objs s" "new_lease l i e (be_now s)"]
    by (auto simp: pg_charged_def)
  have e: "0 \<le> sint e" if "t \<noteq> s"
    using assms(2) that by (auto simp: pg_reserve_def i64_simps split: option.splits if_splits)
  show ?thesis
  proof (cases "t = s")
    case True
    then show ?thesis using assms(1) by simp
  next
    case False
    show ?thesis
      using pg_reserve_state [OF assms(2)] freed leased e [OF False] valid own
      by (cases res) (auto simp: pg_base_def pg_charged_def)
  qed
qed

text \<open>
  A terminal operation on the object \<open>h\<close>: either the data stay as they are, or the lease is
  taken and \<open>charge\<close> is added to what is charged.
\<close>

definition obj_id :: "pg_db backend \<Rightarrow> nat \<Rightarrow> string" where
  "obj_id s h = ro_id (be_objs s ! h)"

lemma once_charged:
  assumes "pg_base l s" and "h < length (be_objs s)" and "once h oper s = (err, t)"
    and "\<And>res u. oper (obj_id s h) s = (res, u) \<Longrightarrow> same_client s u
      \<and> (be_data u = be_data s \<or> pg_settled (pl_scope l) (obj_id s h) delta (be_now s) (be_data s) (be_data u))
      \<and> (\<forall>x. res = Inr x \<longrightarrow> pg_settled (pl_scope l) (obj_id s h) delta (be_now s) (be_data s) (be_data u))"
    and "\<And>r. 0 \<le> sint (le_amount r) \<Longrightarrow> delta r + sint (le_amount r) = charge" and "0 \<le> charge"
  shows "pg_base l t \<and> length (be_objs t) = length (be_objs s) \<and> obj_id t h = obj_id s h
    \<and> (if be_data t = be_data s then err = None \<longrightarrow> ro_done (be_objs s ! h)
       else pg_charged l t = pg_charged l s + charge \<and> lease_of (obj_id s h) (pg_leases (be_data s)) \<noteq> None
         \<and> lease_of (obj_id s h) (pg_leases (be_data t)) = None \<and> pg_takes l h s t)"
proof (cases "ro_done (be_objs s ! h)")
  case True
  then show ?thesis using assms(1,3) by (simp add: once_done)
next
  case False
  have taken: "pg_base l u \<and> pg_charged l u = pg_charged l s + charge
      \<and> lease_of (obj_id s h) (pg_leases (be_data s)) \<noteq> None
      \<and> lease_of (obj_id s h) (pg_leases (be_data u)) = None \<and> be_data u \<noteq> be_data s \<and> pg_takes l h s u"
    if set: "pg_settled (pl_scope l) (obj_id s h) delta (be_now s) (be_data s) (be_data u)"
      and objs: "be_objs u = be_objs s" for u
  proof -
    have base: "pg_valid (pl_scope l) (be_data s)" "objs_owned (pl_scope l) (pg_leases (be_data s)) (be_objs s)"
      and good: "good_leases (pg_leases (be_data s))"
      using assms(1) by (auto simp: pg_base_def pg_valid_def)
    have own: "le_owner r = pl_scope l \<and> 0 \<le> sint (le_amount r)"
      if "lease_of (obj_id s h) (pg_leases (be_data s)) = Some r" for r
      using base(2) False assms(2) that good_amount [OF good that] by (auto simp: objs_owned_def obj_id_def)
    obtain r where r: "lease_of (obj_id s h) (pg_leases (be_data s)) = Some r"
        "pg_valid (pl_scope l) (be_data u)"
        "pg_total l u = pg_total l s + delta r"
        "owed (pl_scope l) (pg_leases (be_data u)) = owed (pl_scope l) (pg_leases (be_data s)) - sint (le_amount r)"
        "pg_leases (be_data u) = filter (\<lambda>x. le_id x \<noteq> obj_id s h) (pg_leases (be_data s))"
      using pg_settled_effect [OF set base(1)] own assms(5,6) by force
    then have "lease_of (obj_id s h) (pg_leases (be_data u)) = None"
      by (auto simp: lease_of_None)
    moreover have "pg_takes l h s u"
      using r(1,4) assms(2) False by (simp add: pg_takes_def pg_held_def held_lease_def obj_id_def)
    ultimately show ?thesis
      using r objs_owned_filter [OF base(2) good] assms(5) [of r] own [OF r(1)] objs
      by (auto simp: pg_base_def pg_charged_def)
  qed
  from once_open [OF False assms(3)] show ?thesis
  proof (elim disjE exE conjE)
    fix e
    assume e: "err = Some e" and run: "oper (ro_id (be_objs s ! h)) s = (Inl e, t)"
    then have "same_client s t" and "be_data t = be_data s
        \<or> pg_settled (pl_scope l) (obj_id s h) delta (be_now s) (be_data s) (be_data t)"
      using assms(4) [of "Inl e" t] by (auto simp: obj_id_def)
    then show ?thesis
      using taken [of t] assms(1) e by (auto simp: same_client_def obj_id_def pg_base_def)
  next
    fix u
    assume e: "err = None" and run: "oper (ro_id (be_objs s ! h)) s = (Inr (), u)"
      and t: "t = u\<lparr>be_objs := (be_objs u)[h := (be_objs s ! h)\<lparr>ro_done := True\<rparr>]\<rparr>"
    then have "same_client s u"
      and set: "pg_settled (pl_scope l) (obj_id s h) delta (be_now s) (be_data s) (be_data u)"
      using assms(4) [of "Inr ()" u] by (auto simp: obj_id_def)
    then show ?thesis
      using taken [OF set] assms(2) t objs_owned_done
      by (auto simp: same_client_def obj_id_def pg_base_def pg_charged_def)
  qed
qed

lemma pg_commit_charged:
  assumes "pg_base l s" and "h < length (be_objs s)" and "pg_commit l h c a s = (err, t)"
  shows "pg_base l t \<and> length (be_objs t) = length (be_objs s) \<and> obj_id t h = obj_id s h
    \<and> (if be_data t = be_data s then err = None \<longrightarrow> ro_done (be_objs s ! h)
       else pg_charged l t = pg_charged l s + max 0 (sint a)
         \<and> lease_of (obj_id s h) (pg_leases (be_data s)) \<noteq> None
         \<and> lease_of (obj_id s h) (pg_leases (be_data t)) = None \<and> pg_takes l h s t)"
  using pg_commit_cases [OF assms(3)]
proof (elim disjE conjE)
  assume o: "once h (pg_commit_tx l (clamp0 a)) s = (err, t)"
  show ?thesis
    by (rule once_charged [where delta = "\<lambda>r. sint (clamp0 a - le_amount r)", OF assms(1,2) o])
      (use pg_commit_tx_state [of l "clamp0 a"] in blast, simp_all add: sint_diff_nonneg i64_simps)
qed (use assms(1) in auto)

lemma pg_release_charged:
  assumes "pg_base l s" and "h < length (be_objs s)" and "pg_release l h c s = (err, t)"
  shows "pg_base l t \<and> length (be_objs t) = length (be_objs s) \<and> obj_id t h = obj_id s h
    \<and> (if be_data t = be_data s then err = None \<longrightarrow> ro_done (be_objs s ! h)
       else pg_charged l t = pg_charged l s
         \<and> lease_of (obj_id s h) (pg_leases (be_data s)) \<noteq> None
         \<and> lease_of (obj_id s h) (pg_leases (be_data t)) = None \<and> pg_takes l h s t)"
  using pg_release_cases [OF assms(3)]
proof (elim disjE conjE)
  assume o: "once h (pg_release_tx l) s = (err, t)"
  have "pg_base l t \<and> length (be_objs t) = length (be_objs s) \<and> obj_id t h = obj_id s h
    \<and> (if be_data t = be_data s then err = None \<longrightarrow> ro_done (be_objs s ! h)
       else pg_charged l t = pg_charged l s + 0
         \<and> lease_of (obj_id s h) (pg_leases (be_data s)) \<noteq> None
         \<and> lease_of (obj_id s h) (pg_leases (be_data t)) = None \<and> pg_takes l h s t)"
    by (rule once_charged [where delta = "\<lambda>r. - sint (le_amount r)", OF assms(1,2) o])
      (use pg_release_tx_state [of l] in blast, simp_all)
  then show ?thesis by simp
qed (use assms(1) in auto)

text \<open>Terminal calls on one reservation, each tried in its own context.\<close>

fun pg_terminal :: "pg_ledger \<Rightarrow> nat \<Rightarrow> gctx \<times> terminal \<Rightarrow> pg_db backend \<Rightarrow> gerr option \<times> pg_db backend" where
  "pg_terminal l h (c, TCommit a) s = pg_commit l h c a s"
| "pg_terminal l h (c, TRelease) s = pg_release l h c s"

fun pg_terminals :: "pg_ledger \<Rightarrow> nat \<Rightarrow> (gctx \<times> terminal) list \<Rightarrow> pg_db backend \<Rightarrow> pg_db backend" where
  "pg_terminals l h [] s = s"
| "pg_terminals l h (x # xs) s = pg_terminals l h xs (snd (pg_terminal l h x s))"

lemma pg_terminal_charged:
  assumes "pg_base l s" and "h < length (be_objs s)" and "pg_terminal l h x s = (err, t)"
  shows "pg_base l t \<and> h < length (be_objs t) \<and> obj_id t h = obj_id s h
    \<and> (be_data t = be_data s
       \<or> pg_charged l t = pg_charged l s + terminal_charge x
         \<and> lease_of (obj_id s h) (pg_leases (be_data s)) \<noteq> None
         \<and> lease_of (obj_id s h) (pg_leases (be_data t)) = None)"
proof (cases x)
  case (Pair c y)
  show ?thesis
    using assms pg_commit_charged [of l s h c _ err t] pg_release_charged [of l s h c err t] Pair
    by (cases y) (auto split: if_splits)
qed

lemma pg_terminals_after:
  assumes "pg_base l s" and "h < length (be_objs s)" and "lease_of (obj_id s h) (pg_leases (be_data s)) = None"
  shows "pg_charged l (pg_terminals l h xs s) = pg_charged l s"
  using assms
proof (induction xs arbitrary: s)
  case (Cons x xs)
  obtain err t where t: "pg_terminal l h x s = (err, t)" by fastforce
  have st: "pg_base l t \<and> h < length (be_objs t) \<and> obj_id t h = obj_id s h" "be_data t = be_data s"
    using pg_terminal_charged [OF Cons.prems(1,2) t] Cons.prems(3) by auto
  then show ?case
    using Cons.IH [of t] t Cons.prems(3) by (simp add: pg_charged_data [OF st(2)])
qed simp

section \<open>Lemmas: the limit\<close>

lemma pg_reserve_limit:
  assumes "pg_base l s" and "pg_reserve l c e s = (res, t)" and "pg_total l s \<le> pg_cap l s"
  shows "pg_total l t \<le> pg_cap l s"
proof -
  let ?scope = "pl_scope l"
  have valid: "pg_valid ?scope (be_data s)" using assms(1) by (simp add: pg_base_def)
  have freed: "pg_used ?scope db \<le> pg_cap l s \<and> pg_valid ?scope db \<and> pg_limit ?scope db = pg_cap l s"
    if "pg_freed ?scope (be_now s) (be_data s) db" for db
    using pg_freed_effect [OF that valid] assms(3) by (auto simp: pg_limit_frame)
  have leased: "pg_total l t \<le> pg_cap l s"
    if f: "pg_freed ?scope (be_now s) (be_data s) db" and e: "0 \<le> sint e"
      and g: "pg_leased ?scope (new_lease l i e (be_now s)) (be_now s) db (be_data t)" for db i
    using freed [OF f] pg_leased_effect [OF g] e pg_limit_frame by auto
  show ?thesis
  proof (cases "0 \<le> sint e")
    case True
    then show ?thesis
      using pg_reserve_state [OF assms(2)] freed leased assms(3) by (cases res) auto
  next
    case False
    then have "t = s" using assms(2) by (auto simp: pg_reserve_def i64_simps split: option.splits if_splits)
    then show ?thesis using assms(3) by simp
  qed
qed

lemma pg_run1_limit:
  assumes "pg_base l s" and "pg_ok call s" and "pg_total l s \<le> pg_cap l s"
  shows "pg_base l (pg_run1 l call s) \<and> pg_cap l (pg_run1 l call s) = pg_cap l s
    \<and> pg_total l (pg_run1 l call s) \<le> pg_cap l s"
proof (cases call)
  case (PgReserve c e)
  obtain res t where r: "pg_reserve l c e s = (res, t)" by fastforce
  then show ?thesis
    using pg_reserve_charged [OF assms(1) r] pg_reserve_limit [OF assms(1) r assms(3)]
      pg_limit_frame [OF pg_reserve_frame [OF r]] PgReserve by simp
next
  case (PgCommit h c a)
  obtain err t where r: "pg_commit l h c a s = (err, t)" by fastforce
  have h: "h < length (be_objs s)" using assms(2) PgCommit by simp
  note ch = pg_commit_charged [OF assms(1) h r]
  have "pg_total l t \<le> pg_total l s"
  proof (cases "be_data t = be_data s")
    case False
    then obtain x where "pg_held s h = Some x"
      "owed (pl_scope l) (pg_leases (be_data t)) = owed (pl_scope l) (pg_leases (be_data s)) - x"
      using ch by (auto simp: pg_takes_def)
    moreover have "max 0 (sint a) \<le> x" using calculation(1) assms(2) PgCommit by simp
    ultimately show ?thesis using ch False by (simp add: pg_charged_def max_def split: if_splits)
  qed simp
  then show ?thesis
    using ch pg_terminal_careful [of l h c a s err t] assms(3) r PgCommit by (simp add: pg_limit_frame)
next
  case (PgRelease h c)
  obtain err t where r: "pg_release l h c s = (err, t)" by fastforce
  have h: "h < length (be_objs s)" using assms(2) PgRelease by simp
  note ch = pg_release_charged [OF assms(1) h r]
  have "pg_total l t \<le> pg_total l s"
  proof (cases "be_data t = be_data s")
    case False
    then obtain x where x: "pg_held s h = Some x"
      "owed (pl_scope l) (pg_leases (be_data t)) = owed (pl_scope l) (pg_leases (be_data s)) - x"
      using ch by (auto simp: pg_takes_def)
    have "0 \<le> x"
      using x(1) assms(1) held_leaseD [of "pg_leases (be_data s)" "be_objs s" h x] good_amount
      by (auto simp: pg_held_def pg_base_def pg_valid_def)
    then show ?thesis using ch False x(2) by (simp add: pg_charged_def)
  qed simp
  then show ?thesis
    using ch pg_terminal_careful [of l h c 0 s err t] assms(3) r PgRelease by (simp add: pg_limit_frame)
next
  case (PgRecord c ev)
  obtain err t where r: "pg_record l c ev s = (err, t)" by fastforce
  then show ?thesis
    using pg_record_state [OF r] assms PgRecord
    by (simp add: pg_base_def pg_valid_def pg_used_def pg_limit_def same_client_def)
next
  case (PgWait n)
  then show ?thesis using assms by simp
qed

section \<open>Properties\<close>

text \<open>
  C7.  The limit of the PostgreSQL ledger holds, in a scope whose limit is not negative and
  for clients whose commits do not exceed what was reserved.  Whatever calls a client makes, in any
  order, with any delays between them, whichever of the database calls fail and whichever
  answers are lost after a transaction has been committed, the counter of the scope stays
  within the limit, and it always covers the leases that are still in the table.
\<close>

theorem pg_limit_kept:
  assumes "pg_base l s" and "pg_total l s \<le> pg_cap l s" and "pg_disciplined l cs s"
  shows "pg_base l (pg_run l cs s) \<and> pg_total l (pg_run l cs s) \<le> pg_cap l s
    \<and> owed (pl_scope l) (pg_leases (be_data (pg_run l cs s))) \<le> pg_total l (pg_run l cs s)"
  using assms
proof (induction cs arbitrary: s)
  case Nil
  then show ?case by (simp add: pg_base_def pg_valid_def)
next
  case (Cons c cs)
  have "pg_base l (pg_run1 l c s) \<and> pg_cap l (pg_run1 l c s) = pg_cap l s
      \<and> pg_total l (pg_run1 l c s) \<le> pg_cap l s"
    using pg_run1_limit [OF Cons.prems(1) _ Cons.prems(2)] Cons.prems(3) by simp
  then show ?case
    using Cons.IH [of "pg_run1 l c s"] Cons.prems(3) by simp
qed

text \<open>
  An example: a scope with a limit of 100, a random source that counts, and a network that
  loses the answer to the commit of the first transaction.
\<close>

definition sample_ledger :: pg_ledger where
  "sample_ledger = pg_new \<lparr>pl_db = True, pl_scope = ''checkout'', pl_limit = 100, pl_currency = USD, pl_ttl = 0\<rparr>"

definition pg_empty :: pg_db where
  "pg_empty = \<lparr>pg_budgets = (\<lambda>_. None), pg_leases = [], pg_entries = []\<rparr>"

definition sample_db :: pg_db where
  "sample_db = sql_upsert_budget ''checkout'' 100 ''USD'' 0 pg_empty"

lemma sample_ledger_simps [simp]:
  "pl_db sample_ledger = True" "pl_scope sample_ledger = ''checkout''" "pl_limit sample_ledger = 100"
  "pl_currency sample_ledger = USD" "pl_ttl sample_ledger = 30000000000"
  by (simp_all add: sample_ledger_def pg_new_def i64_simps)

lemma sample_db_simps [simp]:
  "pg_budgets sample_db = [''checkout'' \<mapsto> \<lparr>br_limit = 100, br_used = 0, br_currency = ''USD'', br_updated = 0\<rparr>]"
  "pg_leases sample_db = []" "pg_entries sample_db = []"
  by (simp_all add: sample_db_def sql_upsert_budget_def pg_empty_def)

lemma sample_inv: "(\<And>m. Lost m \<notin> set xs) \<Longrightarrow> pg_inv sample_ledger (empty_server sample_db xs)"
  by (simp add: pg_inv_def pg_valid_def good_leases_def pg_limit_def pg_used_def empty_server_def
      no_lost_def objs_owned_def)

theorem pg_limit_kept_witness:
  "pg_total sample_ledger (pg_run sample_ledger [PgReserve background 60, PgWait 40000000, PgReserve background 70]
     (empty_server sample_db [Fine, Fine, Fine, Fine, Fine, Lost ''connection reset''])) \<le> 100"
proof -
  let ?s = "empty_server sample_db [Fine, Fine, Fine, Fine, Fine, Lost ''connection reset'']"
  have "pg_base sample_ledger ?s"
    using sample_inv [of "[]"] by (simp add: pg_inv_def pg_base_def empty_server_def)
  moreover have "pg_total sample_ledger ?s \<le> pg_cap sample_ledger ?s" "pg_cap sample_ledger ?s = 100"
    by (simp_all add: empty_server_def pg_used_def pg_limit_def)
  moreover have "pg_disciplined sample_ledger [PgReserve background 60, PgWait 40000000, PgReserve background 70] ?s"
    by simp
  ultimately show ?thesis
    using pg_limit_kept [of sample_ledger ?s "[PgReserve background 60, PgWait 40000000, PgReserve background 70]"]
    by simp
qed

text \<open>
  C8.  A reservation is charged at most once.  The calls of a client that tries to settle
  one reservation again and again, with commits of different amounts and with releases,
  move what is charged to the scope by nothing or by the amount of one of the commits,
  even when answers of the database are lost after it has committed the transaction.
\<close>

theorem pg_charged_at_most_once:
  assumes "pg_base l s" and "h < length (be_objs s)"
  shows "pg_charged l (pg_terminals l h xs s) - pg_charged l s \<in> insert 0 (terminal_charge ` set xs)"
  using assms
proof (induction xs arbitrary: s)
  case Nil
  then show ?case by simp
next
  case (Cons x xs)
  obtain err t where t: "pg_terminal l h x s = (err, t)" by fastforce
  note st = pg_terminal_charged [OF Cons.prems t]
  show ?case
  proof (cases "be_data t = be_data s")
    case True
    then show ?thesis
      using Cons.IH [of t] st t by (auto simp: pg_charged_data [OF True])
  next
    case False
    then have "pg_charged l (pg_terminals l h xs t) = pg_charged l s + terminal_charge x"
      using pg_terminals_after [of l t h xs] st by simp
    then show ?thesis using t by simp
  qed
qed

text \<open>A commit whose answer is lost, tried again with another amount.\<close>

definition sample_lost :: "pg_db backend" where
  "sample_lost = snd (pg_reserve sample_ledger background 60
     (empty_server sample_db (replicate 6 Fine @ [Fine, Fine, Fine, Lost ''i/o timeout''])))"

theorem pg_charged_at_most_once_witness:
  "pg_charged sample_ledger (pg_terminals sample_ledger 0
     [(background, TCommit 50), (background, TCommit 55)] sample_lost) - pg_charged sample_ledger sample_lost
   \<in> {0, 50, 55}"
proof -
  let ?s = "empty_server sample_db (replicate 6 Fine @ [Fine, Fine, Fine, Lost ''i/o timeout''])"
  have "pg_base sample_ledger ?s"
    by (simp add: pg_base_def pg_valid_def good_leases_def pg_limit_def pg_used_def empty_server_def
        objs_owned_def)
  moreover obtain res where r: "pg_reserve sample_ledger background 60 ?s = (res, sample_lost)"
    by (metis prod.collapse sample_lost_def)
  ultimately have base: "pg_base sample_ledger sample_lost"
    using pg_reserve_charged by blast
  have "be_objs sample_lost \<noteq> []"
    by (simp add: sample_lost_def pg_reserve_def try_do_def new_id_def empty_server_def counting_def
        begin_tx_def next_outcome_def load_budget_and_reclaim_def tx_call_def load_budget_def
        sql_reclaim_def in_int64_def pg_hold_def sql_insert_lease_def commit_tx_def add_obj_def
        i64_simps Let_def eval_nat_numeral currency_string.simps USD_def)
  then show ?thesis
    using pg_charged_at_most_once [OF base, of 0 "[(background, TCommit 50), (background, TCommit 55)]"] by simp
qed

section \<open>Lemmas: expired leases, the audit table, a fresh schema\<close>

lemma pg_reserve_from_load:
  assumes "be_outcomes s = []" and "pl_db l" and "0 \<le> sint e" and "sint e \<le> sint MaxEstimate"
    and "be_random s (be_drawn s) = Some b"
    and "load_budget_and_reclaim l (be_data s) (s\<lparr>be_drawn := Suc (be_drawn s)\<rparr>)
      = (Inr (used, limit, db), s\<lparr>be_drawn := Suc (be_drawn s)\<rparr>)"
    and "\<not> (0 \<le>s limit \<and> limit - e <s used)"
    and "sql_insert_lease (new_lease l (hex_encode b) e (be_now s)) (pg_leases db) = Inr rows"
  shows "\<exists>t. pg_reserve l background e s = (Inr (length (be_objs s)), t)
    \<and> be_data t = sql_set_used (pl_scope l) (used + e) (be_now s) (db\<lparr>pg_leases := rows\<rparr>)"
proof -
  have e: "\<not> (e <s 0 \<or> MaxEstimate <s e)" using assms(3,4) by (simp add: i64_simps)
  show ?thesis
    using assms e by (auto simp: pg_reserve_def try_do_def new_id_def pg_hold_def add_obj_def Let_def)
qed

text \<open>On a server that answers, the expired leases are freed and the transaction goes on.\<close>

lemma load_budget_frees:
  assumes inv: "pg_inv l s" and quiet: "be_outcomes t = []" "be_now t = be_now s"
    and row: "pg_budgets (be_data s) (pl_scope l) = Some row" "br_currency row = currency_string (pl_currency l)"
  shows "\<exists>db row1. load_budget_and_reclaim l (be_data s) t = (Inr (br_used row1, br_limit row1, db), t)
    \<and> pg_budgets db (pl_scope l) = Some row1 \<and> pg_freed (pl_scope l) (be_now s) (be_data s) db"
proof -
  let ?scope = "pl_scope l" and ?rows = "pg_leases (be_data s)"
  let ?sum = "sum_leases (filter (lease_expired ?scope (be_now s)) ?rows)"
  have good: "good_leases ?rows" and cover: "owed ?scope ?rows \<le> sint (br_used row)"
    using inv row(1) by (auto simp: pg_inv_def pg_valid_def pg_used_row)
  have "0 \<le> ?sum" "?sum \<le> owed ?scope ?rows"
    using sum_leases_nonneg [OF good_leases_filter [OF good]] owed_nonneg [OF good_leases_filter [OF good]]
      owed_split [of ?scope ?rows "be_now s"] by simp_all
  then have rec: "sql_reclaim ?scope (be_now s) ?rows
      = Inr (word_of_int ?sum, filter (\<lambda>r. \<not> lease_expired ?scope (be_now s) r) ?rows)"
    using cover sint_upper [of "br_used row"] by (simp add: sql_reclaim_def in_int64_def)
  obtain res t' where run: "load_budget_and_reclaim l (be_data s) t = (res, t')" by fastforce
  have "\<exists>x. res = Inr x" "t' = t"
    using run rec quiet row by (auto simp: load_budget_and_reclaim_def try_do_def load_budget_def Let_def split: if_splits)
  then show ?thesis
    using load_budget_freed [OF run] run quiet(2) by auto
qed

text \<open>
  C9.  Abandoned reservations do not consume the budget for ever.  \<open>Reserve\<close>, on a database
  that answers, deletes exactly the leases of its scope that have expired and keeps all
  others.  It then decides as if the expired ones had never been: an estimate that fits what
  has been charged and what the remaining leases hold is reserved, any other is denied, and
  in both cases the counter has given back what the expired leases held.
\<close>

theorem pg_abandoned_freed:
  assumes inv: "pg_inv l s" and quiet: "be_outcomes s = []" "pl_db l" "fresh_ids (le_id ` set (pg_leases (be_data s))) s"
    and row: "pg_budgets (be_data s) (pl_scope l) = Some row" "br_currency row = currency_string (pl_currency l)"
    and e: "0 \<le> sint e" "sint e \<le> sint MaxEstimate"
    and live: "live = filter (\<lambda>r. \<not> (le_owner r = pl_scope l \<and> le_expires r \<le> be_now s)) (pg_leases (be_data s))"
    and left: "left = pg_charged l s + owed (pl_scope l) live"
  shows "if left + sint e \<le> pg_cap l s
    then \<exists>h t i. pg_reserve l background e s = (Inr h, t) \<and> pg_total l t = left + sint e
      \<and> pg_leases (be_data t) = live @ [new_lease l i e (be_now s)]
    else \<exists>x t. pg_reserve l background e s = (Inl x, t) \<and> errors_is x ErrBudgetExceeded \<and> pg_total l t = left
      \<and> pg_leases (be_data t) = live"
proof -
  let ?s = "s\<lparr>be_drawn := Suc (be_drawn s)\<rparr>" and ?scope = "pl_scope l"
  obtain b where b: "be_random s (be_drawn s) = Some b" "hex_encode b \<notin> le_id ` set (pg_leases (be_data s))"
    using fresh_idsD [OF quiet(3)] by blast
  obtain db row1 where load: "load_budget_and_reclaim l (be_data s) ?s = (Inr (br_used row1, br_limit row1, db), ?s)"
    and row1: "pg_budgets db ?scope = Some row1" and freed: "pg_freed ?scope (be_now s) (be_data s) db"
    using load_budget_frees [OF inv _ _ row, of ?s] quiet(1) by auto
  have valid: "pg_valid ?scope (be_data s)" using inv by (simp add: pg_inv_def)
  note eff = pg_freed_effect [OF freed valid]
  have leases: "pg_leases db = live" using eff by (simp add: live lease_expired_def)
  have used: "pg_used ?scope db = sint (br_used row1)" and cap': "pg_limit ?scope db = sint (br_limit row1)"
    using row1 by (simp_all add: pg_used_row pg_limit_row)
  have total: "sint (br_used row1) = left"
    using conjunct1 [OF conjunct2 [OF conjunct2 [OF conjunct2 [OF eff]]]] used
    by (simp add: left pg_charged_def leases)
  have cap: "sint (br_limit row1) = pg_cap l s"
    using eff cap' pg_limit_frame [of ?scope "be_data s" db] by simp
  have good: "good_leases (pg_leases db)" and cover: "owed ?scope (pg_leases db) \<le> left"
    using conjunct1 [OF eff] used total by (simp_all add: pg_valid_def)
  have lim: "0 \<le> sint (br_limit row1)" and nonneg: "0 \<le> sint (br_used row1)"
    using valid cap owed_nonneg [OF good, of ?scope] cover total by (simp_all add: pg_valid_def)
  have "sint (br_limit row1 - e) = sint (br_limit row1) - sint e"
    using lim e(1) by (rule sint_diff_nonneg)
  then have check: "(0 \<le>s br_limit row1 \<and> br_limit row1 - e <s br_used row1) = (\<not> left + sint e \<le> pg_cap l s)"
    using total cap lim by (auto simp: i64_simps)
  show ?thesis
  proof (cases "left + sint e \<le> pg_cap l s")
    case True
    have ins: "sql_insert_lease (new_lease l (hex_encode b) e (be_now s)) (pg_leases db)
        = Inr (pg_leases db @ [new_lease l (hex_encode b) e (be_now s)])"
      using b(2) by (auto simp: leases live sql_insert_lease_def list_ex_iff intro: rev_image_eqI)
    obtain t where t: "pg_reserve l background e s = (Inr (length (be_objs s)), t)"
        "be_data t = sql_set_used ?scope (br_used row1 + e) (be_now s)
          (db\<lparr>pg_leases := pg_leases db @ [new_lease l (hex_encode b) e (be_now s)]\<rparr>)"
      using pg_reserve_from_load [OF quiet(1,2) e b(1) load _ ins] check True by blast
    have "sint (br_used row1 + e) = sint (br_used row1) + sint e"
      using True total cap nonneg e(1) sint_upper [of "br_limit row1"] by (intro sint_add_i64) linarith+
    then have "pg_total l t = left + sint e"
      unfolding t(2) using row1 total by (subst sql_set_used_effect(3)) simp_all
    then show ?thesis using True t by (auto simp: leases sql_set_used_effect(2))
  next
    case False
    have "\<not> (e <s 0 \<or> MaxEstimate <s e)" using e by (simp add: i64_simps)
    then have "\<exists>x. pg_reserve l background e s = (Inl x, ?s\<lparr>be_data := db\<rparr>) \<and> errors_is x ErrBudgetExceeded"
      using load quiet b(1) check False
      by (auto simp: pg_reserve_def try_do_def new_id_def pg_deny_def fail_def Let_def)
    then show ?thesis using False leases row1 total by (auto simp: pg_used_row)
  qed
qed

text \<open>
  A lease of 60 that has expired and one of 30 that is open, under a limit of 100: an estimate
  of 70 fits.
\<close>

definition half_abandoned :: "pg_db backend" where
  "half_abandoned = (empty_server
     (sql_set_used ''checkout'' 90 0 (sample_db\<lparr>pg_leases :=
        [\<lparr>le_id = ''aa'', le_owner = ''checkout'', le_amount = 60, le_expires = 30000000\<rparr>,
         \<lparr>le_id = ''bb'', le_owner = ''checkout'', le_amount = 30, le_expires = 30000001\<rparr>]\<rparr>)) [])
     \<lparr>be_now := 30000000, be_objs := [\<lparr>ro_id = ''aa'', ro_done = False\<rparr>, \<lparr>ro_id = ''bb'', ro_done = False\<rparr>]\<rparr>"

theorem pg_abandoned_freed_witness:
  "\<exists>h t. pg_reserve sample_ledger background 70 half_abandoned = (Inr h, t) \<and> pg_total sample_ledger t = 100
     \<and> map le_amount (pg_leases (be_data t)) = [30, 70]"
proof -
  let ?aa = "\<lparr>le_id = ''aa'', le_owner = ''checkout'', le_amount = 60, le_expires = 30000000\<rparr>"
  let ?bb = "\<lparr>le_id = ''bb'', le_owner = ''checkout'', le_amount = 30, le_expires = 30000001\<rparr>"
  have rows: "pg_leases (be_data half_abandoned) = [?aa, ?bb]"
    "pg_budgets (be_data half_abandoned) ''checkout'' = Some \<lparr>br_limit = 100, br_used = 90, br_currency = ''USD'', br_updated = 0\<rparr>"
    "be_outcomes half_abandoned = []" "be_now half_abandoned = 30000000" "be_random half_abandoned = counting"
    "be_objs half_abandoned = [\<lparr>ro_id = ''aa'', ro_done = False\<rparr>, \<lparr>ro_id = ''bb'', ro_done = False\<rparr>]"
    by (simp_all add: half_abandoned_def empty_server_def sql_set_used_def)
  have inv: "pg_inv sample_ledger half_abandoned"
    by (simp add: pg_inv_def pg_valid_def good_leases_def pg_limit_def pg_used_def no_lost_def objs_owned_def rows)
  have fresh: "fresh_ids (le_id ` set (pg_leases (be_data half_abandoned))) half_abandoned"
  proof (rule fresh_counting)
    have "replicate m (CHR ''0'') \<noteq> ''aa''" "replicate m (CHR ''0'') \<noteq> ''bb''" for m by (cases m; simp)+
    then show "replicate (2 * n) (CHR ''0'') \<notin> le_id ` set (pg_leases (be_data half_abandoned))" for n
      by (simp add: rows)
  qed (simp add: rows)
  have charged: "30 = pg_charged sample_ledger half_abandoned + owed (pl_scope sample_ledger) [?bb]"
    and cap: "pg_limit ''checkout'' (be_data half_abandoned) = 100"
    by (simp_all add: pg_charged_def pg_used_def pg_limit_def rows)
  have "\<exists>h t i. pg_reserve sample_ledger background 70 half_abandoned = (Inr h, t) \<and> pg_total sample_ledger t = 30 + sint (70 :: i64)
      \<and> pg_leases (be_data t) = [?bb] @ [new_lease sample_ledger i 70 (be_now half_abandoned)]"
    using pg_abandoned_freed [OF inv rows(3) _ fresh _ _ _ _ _ charged, of _ 70]
    by (simp add: rows(1,2,4) cap USD_def sint_MaxEstimate)
  then show ?thesis by auto
qed

text \<open>A scope whose budget is held by a lease that has expired.\<close>

definition abandoned :: "pg_db backend" where
  "abandoned = (empty_server
     (sql_set_used ''checkout'' 60 0 (sample_db\<lparr>pg_leases := [\<lparr>le_id = ''aa'', le_owner = ''checkout'',
        le_amount = 60, le_expires = 30000000\<rparr>]\<rparr>)) [])
     \<lparr>be_now := 30000000, be_objs := [\<lparr>ro_id = ''aa'', ro_done = False\<rparr>]\<rparr>"

section \<open>The audit table\<close>

lemma pg_record_entries:
  assumes "pg_record l c ev s = (err, t)"
  shows "(err = None \<longrightarrow> c = background) \<and>
    (pg_entries (be_data t) = pg_entries (be_data s) \<and> err \<noteq> None
     \<or> (\<exists>row. en_scope row = pl_scope l \<and> en_event_id row = Some (ev_id ev)
          \<and> en_cost row = ev_cost ev \<and> en_domain row = ev_domain ev \<and> en_operation row = ev_operation ev
          \<and> pg_entries (be_data t) = sql_insert_entry row (pg_entries (be_data s))))"
proof -
  have fill: "ev_id (fill_currency cur ev) = ev_id ev" "ev_cost (fill_currency cur ev) = ev_cost ev"
    "ev_domain (fill_currency cur ev) = ev_domain ev" "ev_operation (fill_currency cur ev) = ev_operation ev" for cur
    by (simp_all add: fill_currency_def)
  let ?row = "\<lparr>en_scope = pl_scope l, en_domain = ev_domain ev, en_operation = ev_operation ev,
      en_cost = ev_cost ev, en_currency = currency_string (pl_currency l),
      en_event_id = Some (ev_id ev), en_recorded = be_now s\<rparr>"
  let ?db = "(be_data s)\<lparr>pg_entries := sql_insert_entry ?row (pg_entries (be_data s))\<rparr>"
  have "err \<noteq> None \<and> t = s \<or> c = background \<and> only_error (exec_call (Inr ?db) s) = (err, t)"
    using assms by (auto simp: pg_record_def Let_def ctx_check_None fill split: option.splits if_splits)
  then show ?thesis
  proof (elim disjE conjE)
    assume c: "c = background" and x: "only_error (exec_call (Inr ?db) s) = (err, t)"
    obtain r where r: "exec_call (Inr ?db) s = (r, t)" "err = None \<longleftrightarrow> r = Inr ()"
      using x by (auto simp: only_error_eq)
    have "pg_entries (be_data t) = pg_entries (be_data s) \<and> err \<noteq> None
        \<or> pg_entries (be_data t) = sql_insert_entry ?row (pg_entries (be_data s))"
      using exec_call_state [OF r(1)] r(2) by (cases r) auto
    moreover have "en_scope ?row = pl_scope l \<and> en_event_id ?row = Some (ev_id ev)
        \<and> en_cost ?row = ev_cost ev \<and> en_domain ?row = ev_domain ev \<and> en_operation ?row = ev_operation ev"
      by simp
    ultimately show ?thesis using c by blast
  qed auto
qed

lemma sql_insert_entry_twice:
  assumes "en_event_id row = Some i" and "en_event_id row' = Some i" and "en_scope row' = en_scope row"
  shows "sql_insert_entry row' (sql_insert_entry row rows) = sql_insert_entry row rows"
  using assms by (auto simp: sql_insert_entry_def list_ex_iff)

text \<open>
  Recording is idempotent by event identifier.  After a \<open>Record\<close> that returned no
  error, recording an event with the same identifier leaves the audit table as it is,
  whatever the outcome of the second call; and it stays so through any later reservations,
  commits and releases.
\<close>

theorem pg_record_idempotent:
  assumes "pg_record l c ev s = (None, t)" and "ev_id ev' = ev_id ev"
    and "pg_entries (be_data u) = pg_entries (be_data t)" and "pg_record l d ev' u = (err, v)"
  shows "pg_entries (be_data v) = pg_entries (be_data t)"
proof -
  obtain row where row: "en_scope row = pl_scope l" "en_event_id row = Some (ev_id ev)"
      "pg_entries (be_data t) = sql_insert_entry row (pg_entries (be_data s))"
    using pg_record_entries [OF assms(1)] by auto
  show ?thesis
    using pg_record_entries [OF assms(4)] sql_insert_entry_twice [of row "ev_id ev"] row assms(2,3) by auto
qed

definition checkout_event :: "string \<Rightarrow> i64 \<Rightarrow> event" where
  "checkout_event i a = \<lparr>ev_id = i, ev_domain = ''orders'', ev_operation = ''checkout'', ev_cost = a,
     ev_currency = USD, ev_time = None\<rparr>"

theorem pg_record_idempotent_witness:
  "\<exists>t v. pg_record sample_ledger background (checkout_event ''request-1'' 5) (empty_server sample_db []) = (None, t)
     \<and> length (pg_entries (be_data t)) = 1
     \<and> pg_record sample_ledger background (checkout_event ''request-1'' 7) t = (None, v)
     \<and> pg_entries (be_data v) = pg_entries (be_data t)"
proof -
  let ?ev = "checkout_event ''request-1''"
  have run: "\<exists>u. pg_record sample_ledger background (?ev a) s = (None, u)" if "be_outcomes s = []" "0 < sint a" for s a
    using that by (auto simp: pg_record_def only_error_eq checkout_event_def fill_currency_def USD_def
        empty_currency_def i64_simps Let_def)
  obtain t where t: "pg_record sample_ledger background (?ev 5) (empty_server sample_db []) = (None, t)"
    using run [of "empty_server sample_db []" 5] by (auto simp: empty_server_def)
  have len: "length (pg_entries (be_data t)) = 1" and out: "be_outcomes t = []"
    using t pg_record_entries [OF t] pg_record_state [OF t]
    by (auto simp: empty_server_def sql_insert_entry_def same_client_def)
  obtain v where v: "pg_record sample_ledger background (?ev 7) t = (None, v)"
    using run [OF out, of 7] by auto
  show ?thesis
    using t len v pg_record_idempotent [OF t _ _ v] by (auto simp: checkout_event_def)
qed

text \<open>
  C12.  The audit trail of guarded actions in PostgreSQL has one row.  The guard records its
  events without an identifier, and the adapter stores the empty text where the unique
  index expects \<open>NULL\<close>; so after one guarded action has been charged and recorded, a
  later guarded action of the scope that is charged as well, with no error in the log,
  adds no row to the audit table.
\<close>

theorem pg_guard_events_collide:
  assumes "guard_after (pg_reserver l) est1 ctx1 (Some a1) None meta1 s = ([], t)"
    and "hc_value ctx1 = Some h1" and "0 < sint a1"
    and "pg_entries (be_data u) = pg_entries (be_data t)"
    and "guard_after (pg_reserver l) est2 ctx2 (Some a2) None meta2 u = (log, v)"
  shows "pg_entries (be_data v) = pg_entries (be_data t)"
proof -
  have commit: "pg_entries (be_data y) = pg_entries (be_data x)"
    if "pg_commit l h c a x = (err, y)" for h c a x err y
    using pg_terminal_careful [of l h c a x err y] that by (simp add: pg_frame_def)
  have after: "\<exists>x d op a err. pg_entries (be_data x) = pg_entries (be_data w)
      \<and> pg_record l background (action_event d op a) x = (err, y) \<and> (lg = [] \<longrightarrow> err = None)
    \<or> (\<not> (hc_value ctx = Some h \<and> 0 < sint b \<and> lg = []) \<and> pg_entries (be_data y) = pg_entries (be_data w))"
    if "guard_after (pg_reserver l) est ctx (Some b) None meta w = (lg, y)" for est ctx b meta w lg y h
  proof (cases "hc_value ctx")
    case None
    then show ?thesis using that by (simp add: guard_after_def)
  next
    case (Some k)
    obtain e1 x where 1: "pg_commit l k background (clamp0 b) w = (e1, x)" by fastforce
    let ?name = "case meta of None \<Rightarrow> [] | Some n \<Rightarrow> n"
    obtain e2 z where 2: "pg_record l background (action_event (domain ?name) (operation ?name) (clamp0 b)) x = (e2, z)"
      by fastforce
    show ?thesis
      using that 1 2 commit [OF 1] Some
      by (auto simp: guard_after_def finish_context_def accounting_ctx_def Let_def i64_simps split: option.splits if_splits)
  qed
  have ids: "ev_id (action_event d op a) = []" for d op a
    by (simp add: action_event_def)
  obtain x d op a where x: "pg_record l background (action_event d op a) x = (None, t)"
    using after [OF assms(1), of h1] assms(2,3) by blast
  from after [OF assms(5)] show ?thesis
    using pg_record_idempotent [OF x, of "action_event d' op' a'" for d' op' a'] assms(4) ids by metis
qed

text \<open>Two guarded actions, of 40 and 30, through \<open>Before\<close> and \<open>After\<close>.\<close>

definition guarded :: "pg_ledger \<Rightarrow> i64 \<Rightarrow> string \<Rightarrow> pg_db backend \<Rightarrow> (nat hook_ctx \<times> pg_db backend) \<times> log \<times> pg_db backend" where
  "guarded l a name s =
     (let ((ctx, _), s) = guard_before (Some (pg_reserver l)) a \<lparr>hc_ctx = background, hc_value = None\<rparr> s in
      ((ctx, s), guard_after (pg_reserver l) a ctx (Some a) None (Some name) s))"

definition guarded1 :: "(nat hook_ctx \<times> pg_db backend) \<times> log \<times> pg_db backend" where
  "guarded1 = guarded sample_ledger 40 ''orders.checkout'' (empty_server sample_db [])"

definition guarded2 :: "(nat hook_ctx \<times> pg_db backend) \<times> log \<times> pg_db backend" where
  "guarded2 = guarded sample_ledger 30 ''orders.refund'' (snd (snd guarded1))"

lemma guarded_runs:
  "fst (snd guarded1) = []" "fst (snd guarded2) = []"
  "hc_value (fst (fst guarded1)) = Some 0"
  "map en_cost (pg_entries (be_data (snd (snd guarded1)))) = [40]"
  "pg_total sample_ledger (snd (snd guarded2)) = 70"
  by code_simp+

theorem pg_guard_events_collide_witness:
  "fst (snd guarded2) = [] \<and> pg_total sample_ledger (snd (snd guarded2)) = 70
   \<and> map en_cost (pg_entries (be_data (snd (snd guarded2)))) = [40]"
proof -
  let ?t = "snd (snd guarded1)" and ?u = "snd (fst guarded2)"
  have shape: "\<exists>err. guard_before (Some (pg_reserver l)) a \<lparr>hc_ctx = background, hc_value = None\<rparr> s
        = ((fst (fst (guarded l a name s)), err), snd (fst (guarded l a name s)))
      \<and> guard_after (pg_reserver l) a (fst (fst (guarded l a name s))) (Some a) None (Some name)
          (snd (fst (guarded l a name s))) = snd (guarded l a name s)" for l a name s
    by (simp add: guarded_def Let_def split: prod.splits)
  have a1: "guard_after (pg_reserver sample_ledger) 40 (fst (fst guarded1)) (Some 40) None (Some ''orders.checkout'')
      (snd (fst guarded1)) = ([], ?t)"
    using shape [of sample_ledger 40 "empty_server sample_db []" "''orders.checkout''", folded guarded1_def]
      guarded_runs(1) by (metis prod.collapse)
  have a2: "guard_after (pg_reserver sample_ledger) 30 (fst (fst guarded2)) (Some 30) None (Some ''orders.refund'') ?u
      = (fst (snd guarded2), snd (snd guarded2))"
    using shape [of sample_ledger 30 ?t "''orders.refund''", folded guarded2_def] by simp
  obtain res where "pg_reserve sample_ledger background 30 ?t = (res, ?u)"
    using shape [of sample_ledger 30 ?t "''orders.refund''", folded guarded2_def]
    by (auto simp: guard_before_def split: prod.splits sum.splits)
  then have "pg_entries (be_data ?u) = pg_entries (be_data ?t)"
    using pg_reserve_frame by (fastforce simp: pg_frame_def)
  from pg_guard_events_collide [OF a1 _ _ this a2, of 0] show ?thesis
    using guarded_runs by simp
qed

text \<open>
  \<open>EnsureSchema\<close> and the contract test.  On a scope that has no row, with a limit of
  100 and a database that answers, \<open>EnsureSchema\<close> succeeds and the ledger then passes the
  contract test of the test kit.
\<close>

theorem pg_fresh_passes_contract:
  assumes "pl_db l" and "pl_limit l = 100"
    and "pg_budgets (be_data s) (pl_scope l) = None" and "pg_leases (be_data s) = []"
    and "be_outcomes s = []" and "be_objs s = []"
    and "\<And>n. be_random s n \<noteq> None" and "inj (be_random s)"
  shows "\<exists>t. ensure_schema l background s = (None, t) \<and> run_contract (pg_reserver l) t = None"
proof -
  let ?row = "\<lparr>br_limit = 100, br_used = 0, br_currency = currency_string (pl_currency l), br_updated = be_now s\<rparr>"
  let ?t = "s\<lparr>be_data := (be_data s)\<lparr>pg_budgets := (pg_budgets (be_data s))(pl_scope l \<mapsto> ?row)\<rparr>\<rparr>"
  have run: "ensure_schema l background s = (None, ?t)"
    using assms(1-3,5)
    by (simp add: ensure_schema_def try_do_def check_currency_def only_error_def sql_upsert_budget_def Let_def)
  have "pg_inv l ?t"
    using assms(4,5,6)
    by (simp add: pg_inv_def pg_valid_def good_leases_def pg_limit_def pg_used_def no_lost_def objs_owned_def)
  moreover have "fresh_ids {} ?t"
    using assms(7,8) by (auto simp: fresh_ids_def inj_def)
  ultimately have "pg_quiet l ?t"
    using assms(1,4,5) by (simp add: pg_quiet_def)
  then have "run_contract (pg_reserver l) ?t = None"
    by (rule pg_prompt.run_contract_passes) (simp_all add: pg_used_def pg_limit_def)
  then show ?thesis using run by blast
qed

theorem pg_fresh_passes_contract_witness:
  "\<exists>t. ensure_schema sample_ledger background (empty_server pg_empty []) = (None, t)
     \<and> run_contract (pg_reserver sample_ledger) t = None"
proof -
  have "inj counting" by (auto simp: inj_def counting_def dest: arg_cong [where f = length])
  then show ?thesis
    by (intro pg_fresh_passes_contract) (simp_all add: empty_server_def pg_empty_def counting_def)
qed

text \<open>
  \<open>EnsureSchema\<close> on a scope that is in use.  It never touches the counter, the leases,
  the audit table or another scope; a currency that differs from the one in the table is
  an error that changes nothing, and on success the row has the configured limit.
\<close>

theorem ensure_schema_effect:
  assumes "ensure_schema l c s = (err, t)"
  shows "pg_leases (be_data t) = pg_leases (be_data s) \<and> pg_entries (be_data t) = pg_entries (be_data s)
    \<and> pg_total l t = pg_total l s
    \<and> (\<forall>scope. scope \<noteq> pl_scope l \<longrightarrow> pg_budgets (be_data t) scope = pg_budgets (be_data s) scope)
    \<and> (case pg_budgets (be_data s) (pl_scope l) of
         Some row \<Rightarrow> if br_currency row \<noteq> currency_string (pl_currency l)
           then err \<noteq> None \<and> be_data t = be_data s else True
       | None \<Rightarrow> True)
    \<and> (err = None \<longrightarrow> pg_cap l t = sint (pl_limit l))"
proof -
  let ?scope = "pl_scope l" and ?cur = "currency_string (pl_currency l)"
  let ?up = "sql_upsert_budget ?scope (pl_limit l) ?cur (be_now s) (be_data s)"
  have up: "pg_leases ?up = pg_leases (be_data s)" "pg_entries ?up = pg_entries (be_data s)"
      "pg_used ?scope ?up = pg_used ?scope (be_data s)" "pg_limit ?scope ?up = sint (pl_limit l)"
      "\<forall>x. x \<noteq> ?scope \<longrightarrow> pg_budgets ?up x = pg_budgets (be_data s) x"
    by (auto simp: sql_upsert_budget_def pg_used_def pg_limit_def Let_def split: option.splits)
  have "(be_data t = be_data s \<and> err \<noteq> None)
      \<or> (be_data t = ?up \<and> map_option br_currency (pg_budgets (be_data s) ?scope) \<in> {None, Some ?cur})"
  proof (cases "c = NilCtx \<or> \<not> pl_db l")
    case True
    then show ?thesis using assms by (auto simp: ensure_schema_def Let_def split: if_splits)
  next
    case False
    then obtain res where "try_do (exec_call (Inr (be_data s))) (wrapf ''postgres: schema: %w'') (\<lambda>_.
        try_do begin_tx (wrapf ''postgres: begin schema upsert: %w'') (\<lambda>tx.
        try_do (tx_call (Inr (map_option br_currency (pg_budgets tx ?scope))))
          (wrapf ''postgres: check existing currency: %w'') (\<lambda>existing.
        try_do (check_currency l existing) (\<lambda>e. e) (\<lambda>_.
        try_do (tx_call (Inr (sql_upsert_budget ?scope (pl_limit l) ?cur (be_now s) tx)))
          (wrapf ''postgres: upsert budget: %w'') (\<lambda>tx.
        commit_tx tx))))) s = (res, t)" and err: "err \<noteq> None \<or> (\<exists>u. res = Inr u)"
      using assms by (auto simp: ensure_schema_def Let_def only_error_eq)
    then show ?thesis
    proof (elim try_doE)
      fix a s1 tx s2 existing s3 a' s4 tx' s5
      assume 1: "exec_call (Inr (be_data s)) s = (Inr a, s1)" and 2: "begin_tx s1 = (Inr tx, s2)"
        and 3: "tx_call (Inr (map_option br_currency (pg_budgets tx ?scope))) s2 = (Inr existing, s3)"
        and 4: "check_currency l existing s3 = (Inr a', s4)"
        and 5: "tx_call (Inr (sql_upsert_budget ?scope (pl_limit l) ?cur (be_now s) tx)) s4 = (Inr tx', s5)"
        and 6: "commit_tx tx' s5 = (res, t)"
      have "tx = be_data s" "be_data s3 = be_data s"
        using exec_call_state [OF 1] begin_tx_state [OF 2] tx_call_state [OF 3] by auto
      moreover have "existing \<in> {None, Some ?cur}" "s4 = s3"
        using 4 by (auto simp: check_currency_def split: option.splits if_splits)
      ultimately show ?thesis
        using tx_call_state [OF 3] tx_call_state [OF 5] commit_tx_state [OF 6] err by auto
    qed (use err in \<open>auto dest!: exec_call_state begin_tx_state tx_call_state
          simp: check_currency_def split: option.splits if_splits\<close>)
  qed
  then show ?thesis
    using up by (auto simp: pg_used_def pg_limit_def split: option.splits)
qed

theorem ensure_schema_effect_witness:
  "\<exists>t. ensure_schema (sample_ledger\<lparr>pl_limit := 500\<rparr>) background abandoned = (None, t)
     \<and> pg_total sample_ledger t = 60 \<and> pg_cap sample_ledger t = 500"
proof -
  let ?l = "sample_ledger\<lparr>pl_limit := 500\<rparr>"
  obtain err t where r: "ensure_schema ?l background abandoned = (err, t)" by fastforce
  have "err = None"
  proof -
    have "fst (ensure_schema ?l background abandoned) = None" by code_simp
    then show ?thesis using r by simp
  qed
  moreover have "pg_total sample_ledger abandoned = 60" by code_simp
  ultimately show ?thesis
    using r ensure_schema_effect [OF r] by simp
qed




end
