(* ===== verification/WalletLemmas.thy ===== *)
theory WalletLemmas
  imports Wallet
begin

text \<open>
  The effect of every operation of \<open>Wallet\<close> on a wallet whose books are in order, and the
  interpretations of the reserver contract.
\<close>

section \<open>A wallet in order\<close>

definition bal :: "string \<Rightarrow> wallet_db \<Rightarrow> int" where
  "bal w db = (case wd_wallets db w of None \<Rightarrow> 0 | Some row \<Rightarrow> sint (wr_balance row))"

definition hold :: "string \<Rightarrow> wallet_db \<Rightarrow> int" where
  "hold w db = (case wd_wallets db w of None \<Rightarrow> 0 | Some row \<Rightarrow> sint (wr_reserved row))"

text \<open>The row exists, what is held is the sum of the leases and covered by the balance.\<close>

definition wallet_ok :: "string \<Rightarrow> wallet_db \<Rightarrow> bool" where
  "wallet_ok w db \<longleftrightarrow> good_leases (wd_leases db) \<and> wd_wallets db w \<noteq> None
     \<and> hold w db \<le> bal w db \<and> hold w db = owed w (wd_leases db)"

text \<open>What the operations of a ledger leave alone.\<close>

definition row_id :: "wallet_row \<Rightarrow> string \<times> string \<times> string \<times> string" where
  "row_id r = (wr_tenant r, wr_user r, wr_currency r, wr_status r)"

definition wallet_frame :: "string \<Rightarrow> wallet_db \<Rightarrow> wallet_db \<Rightarrow> bool" where
  "wallet_frame w db db' \<longleftrightarrow> wd_tenants db' = wd_tenants db \<and> wd_users db' = wd_users db
     \<and> wd_usage db' = wd_usage db \<and> map_option row_id (wd_wallets db' w) = map_option row_id (wd_wallets db w)
     \<and> (\<forall>x. x \<noteq> w \<longrightarrow> wd_wallets db' x = wd_wallets db x)"

lemma wallet_frame_refl [simp]: "wallet_frame w db db"
  by (simp add: wallet_frame_def)

lemma wallet_frame_trans: "wallet_frame w a b \<Longrightarrow> wallet_frame w b c \<Longrightarrow> wallet_frame w a c"
  by (auto simp: wallet_frame_def)

lemma wallet_frame_upd [simp]:
  "wallet_frame w a (b\<lparr>wd_leases := x\<rparr>) = wallet_frame w a b"
  "wallet_frame w (a\<lparr>wd_leases := x\<rparr>) b = wallet_frame w a b"
  "wallet_frame w a (b\<lparr>wd_entries := y\<rparr>) = wallet_frame w a b"
  "wallet_frame w (a\<lparr>wd_entries := y\<rparr>) b = wallet_frame w a b"
  by (simp_all add: wallet_frame_def)

lemma bal_hold_upd [simp]:
  "bal w (db\<lparr>wd_leases := x\<rparr>) = bal w db" "hold w (db\<lparr>wd_leases := x\<rparr>) = hold w db"
  "bal w (db\<lparr>wd_entries := y\<rparr>) = bal w db" "hold w (db\<lparr>wd_entries := y\<rparr>) = hold w db"
  by (simp_all add: bal_def hold_def)

lemma wallet_row:
  assumes "wd_wallets db w = Some row"
  shows "bal w db = sint (wr_balance row)" and "hold w db = sint (wr_reserved row)"
  using assms by (simp_all add: bal_def hold_def)

lemma sql_set_wallet_effect:
  assumes "sql_set_wallet w fb fr now db = Inr db'" and "wd_wallets db w \<noteq> None"
  shows "bal w db' = fb (bal w db) \<and> hold w db' = fr (hold w db) \<and> 0 \<le> hold w db' \<and> hold w db' \<le> bal w db'
    \<and> wd_leases db' = wd_leases db \<and> wd_entries db' = wd_entries db \<and> wallet_frame w db db'
    \<and> wd_wallets db' w \<noteq> None"
proof -
  obtain row where row: "wd_wallets db w = Some row" using assms(2) by blast
  define b r where "b = fb (sint (wr_balance row))" and "r = fr (sint (wr_reserved row))"
  have ok: "in_int64 b" "in_int64 r" "0 \<le> r" "r \<le> b"
    and db': "db' = db\<lparr>wd_wallets := (wd_wallets db)(w \<mapsto>
        row\<lparr>wr_balance := word_of_int b, wr_reserved := word_of_int r, wr_updated := now\<rparr>)\<rparr>"
    using assms(1) row by (auto simp: sql_set_wallet_def Let_def b_def r_def split: if_splits)
  show ?thesis
    using ok row by (auto simp: db' wallet_frame_def row_id_def bal_def hold_def sint_of_in_int64 b_def r_def)
qed

text \<open>The update goes through when the new values are in order.\<close>

lemma sql_set_wallet_ok:
  assumes "wd_wallets db w \<noteq> None" and "0 \<le> fr (hold w db)" and "fr (hold w db) \<le> fb (bal w db)"
    and "fb (bal w db) \<le> max_int64"
  shows "\<exists>db'. sql_set_wallet w fb fr now db = Inr db'"
  using assms by (auto simp: sql_set_wallet_def bal_def hold_def in_int64_def Let_def split: option.splits)

section \<open>The parts of a transaction\<close>

lemma lock_wallet_state:
  assumes "lock_wallet l require tx s = (res, t)"
  shows "be_data t = be_data s \<and> be_drawn t = be_drawn s \<and> same_client s t
    \<and> (\<forall>b r st. res = Inr (b, r, st) \<longrightarrow>
        (\<exists>row. wd_wallets tx (wl_wallet l) = Some row \<and> b = wr_balance row \<and> r = wr_reserved row
          \<and> st = wr_status row
          \<and> row_id row = (wl_tenant l, wl_user l, currency_string (wl_currency l), st)
          \<and> (require \<longrightarrow> wd_tenants tx (wl_tenant l) = Some active \<and> wd_users tx (wl_tenant l, wl_user l) = Some active)))"
  using assms unfolding lock_wallet_def
proof (cases rule: try_doE)
  case (error e)
  then show ?thesis using tx_call_state [OF error(1)] by simp
next
  case (ok answer s1)
  have st: "t = s1" using ok(2) by (auto simp: check_lock_def split: option.splits if_splits)
  have "\<forall>b r st. res = Inr (b, r, st) \<longrightarrow> (\<exists>k. answer = Some k \<and> b = lk_balance k \<and> r = lk_reserved k
      \<and> st = lk_status k \<and> lk_currency k = currency_string (wl_currency l)
      \<and> (require \<longrightarrow> lk_tenant_status k = active \<and> lk_user_status k = active))"
    using ok(2) by (auto simp: check_lock_def split: option.splits if_splits)
  moreover have "answer = sql_lock_wallet (wl_identity l) require tx"
    using tx_call_state [OF ok(1)] by simp
  ultimately show ?thesis
    using tx_call_state [OF ok(1)] st
    by (fastforce simp: sql_lock_wallet_def row_id_def split: option.splits if_splits)
qed

lemma update_reserved_state:
  assumes "update_reserved l v tx s = (res, t)"
  shows "be_data t = be_data s \<and> be_drawn t = be_drawn s \<and> same_client s t
    \<and> (\<forall>db. res = Inr db \<longrightarrow> sql_set_wallet (wl_wallet l) (\<lambda>b. b) (\<lambda>_. sint v) (be_now s) tx = Inr db)"
  using assms unfolding update_reserved_def
  by (elim try_doE) (auto dest!: tx_call_state)

lemma check_wallet_active_state:
  assumes "check_wallet_active l st s = (res, t)"
  shows "t = s \<and> (\<forall>u. res = Inr u \<longrightarrow> st = active)"
  using assms by (auto simp: check_wallet_active_def split: if_splits)

text \<open>Reclaiming keeps a wallet in order.\<close>

lemma reclaim_expired_effect:
  assumes "reclaim_expired l tx reserved s = (res, t)"
  shows "be_data t = be_data s \<and> be_drawn t = be_drawn s \<and> same_client s t"
    and "res = Inr (reserved', tx') \<Longrightarrow> wallet_ok (wl_wallet l) tx \<Longrightarrow> sint reserved = hold (wl_wallet l) tx \<Longrightarrow>
      wallet_ok (wl_wallet l) tx' \<and> sint reserved' = hold (wl_wallet l) tx' \<and> bal (wl_wallet l) tx' = bal (wl_wallet l) tx
      \<and> hold (wl_wallet l) tx' \<le> hold (wl_wallet l) tx
      \<and> wd_leases tx' = filter (\<lambda>r. \<not> lease_expired (wl_wallet l) (be_now s) r) (wd_leases tx)
      \<and> wd_entries tx' = wd_entries tx \<and> wallet_frame (wl_wallet l) tx tx'"
proof -
  let ?w = "wl_wallet l"
  let ?rest = "\<lambda>n rows. if reserved <s n then fail (wallet_invariant_error l)
       else let reserved = reserved - n; tx = tx\<lparr>wd_leases := rows\<rparr> in
         if 0 <s n
         then try_do (update_reserved l reserved tx) (wrapf ''postgres wallet: release expired holds: %w'') (\<lambda>tx s.
                (Inr (reserved, tx), s))
         else (\<lambda>s. (Inr (reserved, tx), s))"
  have run: "try_do (tx_call (sql_reclaim ?w (be_now s) (wd_leases tx)))
       (wrapf ''postgres wallet: reclaim expired reservations: %w'') (\<lambda>(n, rows). ?rest n rows) s = (res, t)"
    using assms by (simp add: reclaim_expired_def)
  have both: "be_data t = be_data s \<and> be_drawn t = be_drawn s \<and> same_client s t
    \<and> (\<forall>reserved' tx'. res = Inr (reserved', tx') \<longrightarrow>
        (\<exists>n rows. sql_reclaim ?w (be_now s) (wd_leases tx) = Inr (n, rows) \<and> \<not> reserved <s n
          \<and> reserved' = reserved - n
          \<and> (if 0 <s n then sql_set_wallet ?w (\<lambda>b. b) (\<lambda>_. sint reserved') (be_now s) (tx\<lparr>wd_leases := rows\<rparr>) = Inr tx'
             else tx' = tx\<lparr>wd_leases := rows\<rparr>)))"
    using run
  proof (cases rule: try_doE)
    case (error e)
    then show ?thesis using tx_call_state [OF error(1)] by simp
  next
    case (ok a s1)
    obtain n rows where a: "a = (n, rows)" by fastforce
    note 1 = tx_call_state [OF ok(1)]
    have rec: "sql_reclaim ?w (be_now s) (wd_leases tx) = Inr (n, rows)" and now: "be_now s1 = be_now s"
      using 1 a by (simp_all add: same_client_def)
    consider "reserved <s n" | "\<not> reserved <s n" "\<not> 0 <s n" | "\<not> reserved <s n" "0 <s n" by blast
    then show ?thesis
    proof cases
      case 3
      then have "try_do (update_reserved l (reserved - n) (tx\<lparr>wd_leases := rows\<rparr>))
          (wrapf ''postgres wallet: release expired holds: %w'') (\<lambda>tx s. (Inr (reserved - n, tx), s)) s1 = (res, t)"
        using ok(2) a by (simp add: Let_def)
      then show ?thesis
      proof (cases rule: try_doE)
        case (error e)
        then show ?thesis
          using update_reserved_state [OF error(1)] 1 same_client_trans by auto
      next
        case (ok tx2 s2)
        then show ?thesis
          using update_reserved_state [OF ok(1)] 1 same_client_trans [of s s1 s2] 3 rec now by auto
      qed
    qed (use ok(2) a 1 rec in \<open>auto simp: Let_def\<close>)
  qed
  from both show "be_data t = be_data s \<and> be_drawn t = be_drawn s \<and> same_client s t" by blast
  assume res: "res = Inr (reserved', tx')" and wok: "wallet_ok ?w tx" and reserved: "sint reserved = hold ?w tx"
  from both res obtain n rows where rec: "sql_reclaim ?w (be_now s) (wd_leases tx) = Inr (n, rows)"
    and le: "\<not> reserved <s n" and r': "reserved' = reserved - n"
    and upd: "if 0 <s n then sql_set_wallet ?w (\<lambda>b. b) (\<lambda>_. sint reserved') (be_now s) (tx\<lparr>wd_leases := rows\<rparr>) = Inr tx'
             else tx' = tx\<lparr>wd_leases := rows\<rparr>"
    by blast
  have good: "good_leases (wd_leases tx)" using wok by (simp add: wallet_ok_def)
  note r = sql_reclaim_owed [OF rec good]
  have hold: "0 \<le> hold ?w tx" using owed_nonneg [OF good, of ?w] wok by (simp add: wallet_ok_def)
  have diff: "sint reserved' = sint reserved - sint n"
    unfolding r' using reserved hold r by (intro sint_diff_nonneg) simp_all
  show "wallet_ok ?w tx' \<and> sint reserved' = hold ?w tx' \<and> bal ?w tx' = bal ?w tx
      \<and> hold ?w tx' \<le> hold ?w tx
      \<and> wd_leases tx' = filter (\<lambda>r. \<not> lease_expired ?w (be_now s) r) (wd_leases tx)
      \<and> wd_entries tx' = wd_entries tx \<and> wallet_frame ?w tx tx'"
  proof (cases "0 <s n")
    case True
    then have upd': "sql_set_wallet ?w (\<lambda>b. b) (\<lambda>_. sint reserved') (be_now s) (tx\<lparr>wd_leases := rows\<rparr>) = Inr tx'"
      using upd by simp
    from sql_set_wallet_effect [OF upd'] show ?thesis
      using wok r diff reserved by (auto simp: wallet_ok_def)
  next
    case False
    then have "sint n = 0" using r by (simp add: i64_simps)
    then show ?thesis
      using False upd wok r diff reserved by (auto simp: wallet_ok_def)
  qed
qed

section \<open>Reserve\<close>

definition wallet_freed :: "string \<Rightarrow> int \<Rightarrow> wallet_db \<Rightarrow> wallet_db \<Rightarrow> bool" where
  "wallet_freed w now db db' \<longleftrightarrow> wallet_ok w db' \<and> bal w db' = bal w db \<and> hold w db' \<le> hold w db
     \<and> wd_leases db' = filter (\<lambda>r. \<not> lease_expired w now r) (wd_leases db)
     \<and> wd_entries db' = wd_entries db \<and> wallet_frame w db db'"

definition wallet_leased :: "string \<Rightarrow> lease \<Rightarrow> wallet_db \<Rightarrow> wallet_db \<Rightarrow> bool" where
  "wallet_leased w r db db' \<longleftrightarrow> wallet_ok w db' \<and> bal w db' = bal w db
     \<and> hold w db' = hold w db + sint (le_amount r)
     \<and> wd_leases db' = wd_leases db @ [r] \<and> lease_of (le_id r) (wd_leases db) = None
     \<and> wd_entries db' = wd_entries db \<and> wallet_frame w db db'"

lemma wallet_lease_simps [simp]:
  "le_id (wallet_lease l i e now) = i" "le_owner (wallet_lease l i e now) = wl_wallet l"
  "le_amount (wallet_lease l i e now) = e" "now < le_expires (wallet_lease l i e now)"
  using ttl_seconds_pos [of "wl_ttl l"] by (simp_all add: wallet_lease_def)

lemma wallet_deny_state:
  assumes "wallet_deny l available e db s = (res, t)"
  shows "same_client s t \<and> (\<exists>x. res = Inl x) \<and> be_data t \<in> {be_data s, db}"
  using assms unfolding wallet_deny_def by (elim try_doE) (auto dest!: commit_tx_state)

lemma insert_reservation_state:
  assumes "insert_reservation l i e tx s = (res, t)"
  shows "be_data t = be_data s \<and> be_drawn t = be_drawn s \<and> same_client s t
    \<and> (\<forall>db. res = Inr db \<longrightarrow> (\<exists>rows. sql_insert_lease (wallet_lease l i e (be_now s)) (wd_leases tx) = Inr rows
         \<and> db = tx\<lparr>wd_leases := rows\<rparr>))"
  using assms unfolding insert_reservation_def by (elim try_doE) (auto dest!: tx_call_state)

lemma wallet_hold_state:
  assumes "wallet_hold l i reserved e db s = (res, t)"
    and ok: "wallet_ok (wl_wallet l) db" "sint reserved = hold (wl_wallet l) db"
    and e: "0 \<le> sint e" "hold (wl_wallet l) db + sint e \<le> bal (wl_wallet l) db"
  defines "put \<equiv> wallet_leased (wl_wallet l) (wallet_lease l i e (be_now s)) db"
  shows "same_env s t \<and> be_drawn t = be_drawn s
    \<and> (case res of
         Inl x \<Rightarrow> be_objs t = be_objs s \<and> (be_data t = be_data s \<or> \<not> no_lost s \<and> put (be_data t))
       | Inr h \<Rightarrow> h = length (be_objs s) \<and> be_objs t = be_objs s @ [\<lparr>ro_id = i, ro_done = False\<rparr>]
           \<and> put (be_data t))"
  using assms(1) [unfolded wallet_hold_def]
proof (cases rule: try_doE)
  case (error x)
  then show ?thesis
    using insert_reservation_state [OF error(1)] same_client_env [of s t] by auto
next
  case (ok db1 s1)
  note 1 = insert_reservation_state [OF ok(1)]
  then obtain rows where ins: "sql_insert_lease (wallet_lease l i e (be_now s)) (wd_leases db) = Inr rows"
    and db1: "db1 = db\<lparr>wd_leases := rows\<rparr>" by auto
  note i = sql_insert_lease_Inr [OF ins]
  have good: "good_leases (wd_leases db)" using assms(2) by (simp add: wallet_ok_def)
  have sum: "sint (reserved + e) = hold (wl_wallet l) db + sint e"
  proof -
    have "bal (wl_wallet l) db \<le> max_int64" using sint_upper by (auto simp: bal_def split: option.split)
    then show ?thesis
      using ok(2) assms(2,3) e owed_nonneg [OF good, of "wl_wallet l"]
      by (subst sint_add_i64) (simp_all add: wallet_ok_def)
  qed
  from ok(2) show ?thesis
  proof (cases rule: try_doE)
    case (error x)
    then show ?thesis
      using 1 update_reserved_state [OF error(1)] same_client_env [OF same_client_trans, of s s1 t] by auto
  next
    case (ok db2 s2)
    note 2 = update_reserved_state [OF ok(1)]
    have set: "sql_set_wallet (wl_wallet l) (\<lambda>b. b) (\<lambda>_. hold (wl_wallet l) db + sint e) (be_now s1) db1 = Inr db2"
      using 2 sum by simp
    have put: "put db2"
      unfolding put_def wallet_leased_def
      using sql_set_wallet_effect [OF set] i db1 assms(2) good_leases_insert [OF good, of "wallet_lease l i e (be_now s)"] e
      by (auto simp: wallet_ok_def)
    have st: "be_data s2 = be_data s" "same_client s s2" "be_drawn s2 = be_drawn s"
      using 1 2 same_client_trans by auto
    from ok(2) show ?thesis
    proof (cases rule: try_doE)
      case (error x)
      note 3 = commit_tx_state [OF error(1)]
      have "same_client s t" using 3 st same_client_trans by blast
      moreover have "be_data t = be_data s \<or> \<not> no_lost s \<and> be_data t = db2"
        using 3 st by (auto simp: same_client_def)
      ultimately show ?thesis
        using error(2) 3 st put same_client_env [of s t] by auto
    next
      case (ok u s3)
      note 3 = commit_tx_state [OF ok(1)]
      have "same_client s s3" using 3 st same_client_trans by blast
      then show ?thesis
        using ok(2) 3 st put same_client_env [of s s3] by (auto simp: add_obj_def)
    qed
  qed
qed

lemma begin_reservation_state:
  assumes "begin_reservation l c e s = (res, t)"
  shows "be_data t = be_data s \<and> same_client s t
    \<and> (\<forall>tx i. res = Inr (tx, i) \<longrightarrow> tx = be_data s \<and> c = background \<and> 0 \<le> sint e \<and> sint e \<le> sint MaxEstimate)"
proof (cases "ctx_check c = None \<and> validate_estimate l e = None")
  case False
  then show ?thesis
    using assms by (auto simp: begin_reservation_def validate_wallet_context_def split: option.splits)
next
  case True
  then have c: "c = background" "0 \<le> sint e" "sint e \<le> sint MaxEstimate"
    by (auto simp: ctx_check_None validate_estimate_def i64_simps split: if_splits)
  from assms True have "try_do new_id (wrapf ''postgres wallet: reservation id: %w'') (\<lambda>i.
          try_do begin_tx (wrapf ''postgres wallet: begin reservation: %w'') (\<lambda>tx s.
            (Inr (tx, i), s))) s = (res, t)"
    by (simp add: begin_reservation_def validate_wallet_context_def)
  then show ?thesis
    using c by (elim try_doE) (auto dest!: new_id_state begin_tx_state intro: same_client_trans)
qed

lemma wallet_reserve_state:
  assumes "wallet_reserve l c e s = (res, t)" and "wallet_ok (wl_wallet l) (be_data s)"
  defines "freed \<equiv> wallet_freed (wl_wallet l) (be_now s) (be_data s)"
    and "put \<equiv> \<lambda>i. wallet_leased (wl_wallet l) (wallet_lease l i e (be_now s))"
  shows "same_env s t \<and>
    (case res of
       Inl x \<Rightarrow> be_objs t = be_objs s \<and> (be_data t = be_data s
         \<or> (\<exists>db. freed db \<and> (be_data t = db \<or> \<not> no_lost s \<and> (\<exists>i. put i db (be_data t)))))
     | Inr h \<Rightarrow> c = background \<and> 0 \<le> sint e \<and> sint e \<le> sint MaxEstimate \<and> h = length (be_objs s)
         \<and> (\<exists>i db. be_objs t = be_objs s @ [\<lparr>ro_id = i, ro_done = False\<rparr>] \<and> freed db \<and> put i db (be_data t)))"
  using assms(1) [unfolded wallet_reserve_def]
proof (cases rule: try_doE)
  case (error x)
  then show ?thesis
    using begin_reservation_state [OF error(1)] same_client_env [of s t] by auto
next
  case (ok a s1)
  obtain tx i where a: "a = (tx, i)" by fastforce
  have 1: "be_data s1 = be_data s" "same_client s s1" "tx = be_data s" "c = background" "0 \<le> sint e"
      "sint e \<le> sint MaxEstimate"
    using begin_reservation_state [OF ok(1)] a by auto
  from ok(2) [unfolded a prod.case] show ?thesis
  proof (cases rule: try_doE)
    case (error x)
    then show ?thesis
      using 1 lock_wallet_state [OF error(1)] same_client_env [OF same_client_trans, of s s1 t] by auto
  next
    case (ok b s2)
    obtain balance reserved status where b: "b = (balance, reserved, status)" by (cases b)
    note 2 = lock_wallet_state [OF ok(1)]
    then obtain row where row: "wd_wallets (be_data s) (wl_wallet l) = Some row" "balance = wr_balance row"
        "reserved = wr_reserved row"
      using b 1(3) by blast
    have st2: "be_data s2 = be_data s" "same_client s s2" using 1 2 same_client_trans by auto
    from ok(2) [unfolded b prod.case] show ?thesis
    proof (cases rule: try_doE)
      case (error x)
      then show ?thesis
        using check_wallet_active_state [OF error(1)] st2 same_client_env [of s s2] by auto
    next
      case (ok u s3)
      have s3: "s3 = s2" using check_wallet_active_state [OF ok(1)] by simp
      from ok(2) show ?thesis
      proof (cases rule: try_doE)
        case (error x)
        then show ?thesis
          using reclaim_expired_effect(1) [OF error(1)] st2 s3 same_client_env [OF same_client_trans, of s s2 t] by auto
      next
        case (ok d s4)
        obtain reserved' db where d: "d = (reserved', db)" by fastforce
        have st4: "be_data s4 = be_data s" "same_client s s4"
          using reclaim_expired_effect(1) [OF ok(1)] st2 s3 same_client_trans by auto
        have now: "be_now s3 = be_now s" "be_now s4 = be_now s"
          using st2 st4 s3 by (simp_all add: same_client_def)
        have freed: "freed db" and res': "sint reserved' = hold (wl_wallet l) db" and okdb: "wallet_ok (wl_wallet l) db"
          using reclaim_expired_effect(2) [OF ok(1) arg_cong [where f = Inr, OF d]] assms(2) row 1(3) now
          by (auto simp: freed_def wallet_freed_def wallet_row)
        have balance: "sint balance = bal (wl_wallet l) db"
          using freed row by (simp add: freed_def wallet_freed_def wallet_row)
        have dec: "wallet_decide l i balance reserved' e db s4 = (res, t)"
          using ok(2) d by simp
        have order: "0 \<le> sint reserved'" "sint reserved' \<le> sint balance"
          using okdb res' balance owed_nonneg [of "wd_leases db" "wl_wallet l"] by (auto simp: wallet_ok_def)
        have diff: "sint (balance - reserved') = sint balance - sint reserved'"
          using order by (intro sint_diff_nonneg) simp_all
        have valid: "\<not> (balance <s 0 \<or> reserved' <s 0 \<or> balance <s reserved')"
          using order by (simp add: i64_simps)
        show ?thesis
        proof (cases "balance - reserved' <s e")
          case True
          then have "wallet_deny l (balance - reserved') e db s4 = (res, t)"
            using dec valid by (simp add: wallet_decide_def)
          from wallet_deny_state [OF this] show ?thesis
            using st4 freed same_client_env [OF same_client_trans, of s s4 t] by auto
        next
          case False
          then have h: "wallet_hold l i reserved' e db s4 = (res, t)"
            using dec valid by (simp add: wallet_decide_def)
          have room: "hold (wl_wallet l) db + sint e \<le> bal (wl_wallet l) db"
            using False diff res' balance by (simp add: i64_simps)
          have env: "same_env s s4" "be_objs s4 = be_objs s" "no_lost s \<longrightarrow> no_lost s4"
            using same_client_env [OF st4(2)] by (auto simp: same_env_def)
          show ?thesis
            using wallet_hold_state [OF h okdb res' 1(5) room] env freed st4 1 same_env_trans [of s s4 t] now(2)
            by (cases res) (auto simp: put_def)
        qed
      qed
    qed
  qed
qed

section \<open>Commit and release\<close>

lemma find_cond:
  "good_leases rows \<Longrightarrow> List.find (\<lambda>r. le_id r = i \<and> q r) rows =
     (case lease_of i rows of Some r \<Rightarrow> if q r then Some r else None | None \<Rightarrow> None)"
proof (induction rows)
  case (Cons r rows)
  have "lease_of i rows = None" if "le_id r = i"
    using Cons.prems that by (auto simp: good_leases_def lease_of_None)
  then show ?case
    using Cons by (auto simp: good_leases_def)
qed simp

lemma sql_take_cond:
  assumes "good_leases rows"
  shows "sql_take (\<lambda>r. le_id r = i \<and> q r) rows =
     (case lease_of i rows of
        Some r \<Rightarrow> if q r then (Some (le_amount r), filter (\<lambda>x. le_id x \<noteq> i) rows) else (None, rows)
      | None \<Rightarrow> (None, rows))"
proof -
  have same: "filter (\<lambda>x. \<not> (le_id x = i \<and> q x)) rows =
      (case lease_of i rows of Some r \<Rightarrow> if q r then filter (\<lambda>x. le_id x \<noteq> i) rows else rows | None \<Rightarrow> rows)"
  proof (cases "lease_of i rows")
    case None
    then have "i \<notin> le_id ` set rows" by (simp add: lease_of_None)
    then show ?thesis using None by (auto simp: filter_id_conv)
  next
    case (Some r)
    have "x = r" if "x \<in> set rows" "le_id x = i" for x
      using lease_of_member [OF assms that(1)] that(2) Some by simp
    then show ?thesis
      using Some by (auto simp: filter_id_conv intro!: filter_cong)
  qed
  then show ?thesis
    by (simp add: sql_take_def find_cond [OF assms] split: option.split)
qed

text \<open>What a terminal operation has done when its transaction is committed.\<close>

definition wallet_settled :: "wallet_ledger \<Rightarrow> string \<Rightarrow> int \<Rightarrow> bool \<Rightarrow> int \<Rightarrow> wallet_entry list \<Rightarrow> wallet_db \<Rightarrow> wallet_db \<Rightarrow> bool" where
  "wallet_settled l i charge live now rows db db' \<longleftrightarrow>
     (\<exists>r. lease_of i (wd_leases db) = Some r \<and> le_owner r = wl_wallet l \<and> (live \<longrightarrow> now < le_expires r)
        \<and> wallet_ok (wl_wallet l) db' \<and> bal (wl_wallet l) db' = bal (wl_wallet l) db - charge
        \<and> hold (wl_wallet l) db' = hold (wl_wallet l) db - sint (le_amount r)
        \<and> wd_leases db' = filter (\<lambda>x. le_id x \<noteq> i) (wd_leases db)
        \<and> wd_entries db' = wd_entries db @ rows \<and> wallet_frame (wl_wallet l) db db')"

definition debit_rows :: "wallet_ledger \<Rightarrow> string \<Rightarrow> i64 \<Rightarrow> int \<Rightarrow> wallet_entry list" where
  "debit_rows l i a now = (if 0 <s a then [debit_entry l i a now] else [])"

lemma take_unexpired_state:
  assumes "take_unexpired l i tx s = (res, t)" and "good_leases (wd_leases tx)"
  shows "be_data t = be_data s \<and> be_drawn t = be_drawn s \<and> same_client s t
    \<and> (\<forall>held db. res = Inr (held, db) \<longrightarrow>
        (\<exists>r. lease_of i (wd_leases tx) = Some r \<and> le_owner r = wl_wallet l \<and> be_now s < le_expires r
           \<and> held = le_amount r \<and> db = tx\<lparr>wd_leases := filter (\<lambda>x. le_id x \<noteq> i) (wd_leases tx)\<rparr>))"
  using assms(1) [unfolded take_unexpired_def]
proof (cases rule: try_doE)
  case (error e)
  then show ?thesis using tx_call_state [OF error(1)] by simp
next
  case (ok a s1)
  note st = tx_call_state [OF ok(1)]
  then have "a = sql_take (\<lambda>r. le_id r = i \<and> le_owner r = wl_wallet l \<and> be_now s < le_expires r) (wd_leases tx)"
    by simp
  then show ?thesis
    using ok(2) st unfolding sql_take_cond [OF assms(2)]
    by (cases "lease_of i (wd_leases tx)") (auto split: if_splits)
qed

lemma take_any_state:
  assumes "take_any l i tx s = (res, t)" and "good_leases (wd_leases tx)"
  shows "be_data t = be_data s \<and> be_drawn t = be_drawn s \<and> same_client s t
    \<and> (\<forall>held db. res = Inr (held, db) \<longrightarrow>
        (\<exists>r. lease_of i (wd_leases tx) = Some r \<and> le_owner r = wl_wallet l
           \<and> held = le_amount r \<and> db = tx\<lparr>wd_leases := filter (\<lambda>x. le_id x \<noteq> i) (wd_leases tx)\<rparr>))"
  using assms(1) [unfolded take_any_def]
proof (cases rule: try_doE)
  case (error e)
  then show ?thesis using tx_call_state [OF error(1)] by simp
next
  case (ok a s1)
  note st = tx_call_state [OF ok(1)]
  then have "a = sql_take (\<lambda>r. le_id r = i \<and> le_owner r = wl_wallet l) (wd_leases tx)"
    by simp
  then show ?thesis
    using ok(2) st unfolding sql_take_cond [OF assms(2)]
    by (cases "lease_of i (wd_leases tx)") (auto split: if_splits)
qed

lemma check_available_state:
  assumes "check_available l balance reserved held actual s = (res, t)"
  shows "t = s \<and> (\<forall>u. res = Inr u \<longrightarrow> \<not> reserved <s held \<and> \<not> balance - (reserved - held) <s actual)"
  using assms by (auto simp: check_available_def Let_def split: if_splits)

lemma write_debit_state:
  assumes "write_debit l i a tx s = (res, t)"
  shows "be_data t = be_data s \<and> be_drawn t = be_drawn s \<and> same_client s t
    \<and> (\<forall>db. res = Inr db \<longrightarrow> db = tx\<lparr>wd_entries := wd_entries tx @ debit_rows l i a (be_now s)\<rparr>
         \<and> (0 <s a \<longrightarrow> \<not> entry_exists (wl_wallet l) i (wd_entries tx)))"
proof (cases "0 <s a")
  case True
  then have "try_do (tx_call (sql_insert_wallet_entry (debit_entry l i a (be_now s)) tx))
      (wrapf ''postgres wallet: write debit entry: %w'') (\<lambda>tx s. (Inr tx, s)) s = (res, t)"
    using assms by (simp add: write_debit_def)
  then show ?thesis
    using True by (elim try_doE) (auto dest!: tx_call_state simp: sql_insert_wallet_entry_def debit_rows_def
        debit_entry_def split: if_splits)
next
  case False
  then show ?thesis using assms by (auto simp: write_debit_def debit_rows_def)
qed

text \<open>
  The shape of both operations: on an error the data are as they were, unless an answer was
  lost, and on success \<open>P\<close> holds of the new data.
\<close>

definition settles_as :: "wallet_db backend \<Rightarrow> (gerr + unit) \<Rightarrow> wallet_db backend \<Rightarrow> (wallet_db \<Rightarrow> bool) \<Rightarrow> bool" where
  "settles_as s res t P \<longleftrightarrow> same_client s t \<and> (be_data t = be_data s \<or> P (be_data t))
     \<and> (\<forall>u. res = Inr u \<longrightarrow> P (be_data t)) \<and> (no_lost s \<longrightarrow> (\<forall>e. res = Inl e \<longrightarrow> be_data t = be_data s))"

lemma settles_as_same:
  "same_client s t \<Longrightarrow> be_data t = be_data s \<Longrightarrow> settles_as s (Inl e) t P"
  by (simp add: settles_as_def)

lemma settles_as_commit:
  assumes "same_client s s1" and "be_data s1 = be_data s" and "P db"
    and "try_do (commit_tx db) w (\<lambda>_ s. (Inr (), s)) s1 = (res, t)"
  shows "settles_as s res t P"
  using assms(4)
proof (cases rule: try_doE)
  case (error e)
  then show ?thesis
    using commit_tx_state [OF error(1)] assms(1-3) same_client_trans [of s s1 t]
    by (auto simp: settles_as_def same_client_def)
next
  case (ok u s2)
  then show ?thesis
    using commit_tx_state [OF ok(1)] assms(1-3) same_client_trans [of s s1 t] by (auto simp: settles_as_def)
qed

lemma wallet_release_tx_state:
  assumes "wallet_release_tx l i s = (res, t)" and "wallet_ok (wl_wallet l) (be_data s)"
  shows "settles_as s res t (wallet_settled l i 0 False (be_now s) [] (be_data s))"
  using assms(1) [unfolded wallet_release_tx_def Let_def]
proof (cases rule: try_doE)
  case (error e)
  then show ?thesis using begin_tx_state [OF error(1)] by (simp add: settles_as_same)
next
  case (ok tx s1)
  note 1 = begin_tx_state [OF ok(1)]
  have good: "good_leases (wd_leases tx)" using 1 assms(2) by (simp add: wallet_ok_def)
  from ok(2) show ?thesis
  proof (cases rule: try_doE)
    case (error e)
    then show ?thesis using 1 lock_wallet_state [OF error(1)] same_client_trans by (auto intro: settles_as_same)
  next
    case (ok a s2)
    note 2 = lock_wallet_state [OF ok(1)]
    from ok(2) show ?thesis
    proof (cases rule: try_doE)
      case (error e)
      then show ?thesis
        using 1 2 take_any_state [OF error(1) good] same_client_trans [of s s1 s2] same_client_trans [of s s2 t]
        by (auto intro!: settles_as_same)
    next
      case (ok b s3)
      obtain held db where b: "b = (held, db)" by fastforce
      note 3 = take_any_state [OF ok(1) good]
      obtain r where r: "lease_of i (wd_leases tx) = Some r" "le_owner r = wl_wallet l" "held = le_amount r"
          "db = tx\<lparr>wd_leases := filter (\<lambda>x. le_id x \<noteq> i) (wd_leases tx)\<rparr>"
        using 3 b by auto
      have st: "be_data s3 = be_data s" "same_client s s3"
        using 1 2 3 same_client_trans by metis+
      from ok(2) [unfolded b prod.case] show ?thesis
      proof (cases rule: try_doE)
        case (error e)
        then show ?thesis
          using st tx_call_state [OF error(1)] same_client_trans [of s s3 t] by (auto intro!: settles_as_same)
      next
        case (ok db2 s4)
        note 4 = tx_call_state [OF ok(1)]
        have set: "sql_set_wallet (wl_wallet l) (\<lambda>b. b) (\<lambda>r. r - sint held) (be_now s) db = Inr db2"
          using 4 by simp
        have "wallet_settled l i 0 False (be_now s) [] (be_data s) db2"
          using sql_set_wallet_effect [OF set] r owed_remove [OF good r(1), of "wl_wallet l"] assms(2) 1
            good_leases_filter [OF good]
          by (auto simp: wallet_settled_def wallet_ok_def)
        then show ?thesis
          using settles_as_commit [OF _ _ _ ok(2)] st 4 same_client_trans [of s s3 s4] by simp
      qed
    qed
  qed
qed

lemma wallet_commit_tx_state:
  assumes "wallet_commit_tx l a i s = (res, t)" and "wallet_ok (wl_wallet l) (be_data s)"
  shows "settles_as s res t (wallet_settled l i (sint a) True (be_now s) (debit_rows l i a (be_now s)) (be_data s))"
  using assms(1) [unfolded wallet_commit_tx_def]
proof (cases rule: try_doE)
  case (error e)
  then show ?thesis using begin_tx_state [OF error(1)] by (simp add: settles_as_same)
next
  case (ok tx s1)
  note 1 = begin_tx_state [OF ok(1)]
  have good: "good_leases (wd_leases tx)" using 1 assms(2) by (simp add: wallet_ok_def)
  from ok(2) show ?thesis
  proof (cases rule: try_doE)
    case (error e)
    then show ?thesis using 1 lock_wallet_state [OF error(1)] same_client_trans by (auto intro: settles_as_same)
  next
    case (ok x s2)
    obtain balance reserved status where x: "x = (balance, reserved, status)" by (cases x)
    note 2 = lock_wallet_state [OF ok(1)]
    have st2: "be_data s2 = be_data s" "same_client s s2" using 1 2 same_client_trans by metis+
    from ok(2) [unfolded x prod.case] show ?thesis
    proof (cases rule: try_doE)
      case (error e)
      then show ?thesis using st2 check_wallet_active_state [OF error(1)] by (auto intro: settles_as_same)
    next
      case (ok u s3)
      have s3: "s3 = s2" using check_wallet_active_state [OF ok(1)] by simp
      from ok(2) [unfolded settle_wallet_def Let_def s3] show ?thesis
      proof (cases rule: try_doE)
        case (error e)
        then show ?thesis
          using st2 take_unexpired_state [OF error(1) good] same_client_trans [of s s2 t] by (auto intro!: settles_as_same)
      next
        case (ok b s4)
        obtain held db where b: "b = (held, db)" by fastforce
        note 4 = take_unexpired_state [OF ok(1) good]
        have now: "be_now s2 = be_now s" using st2 by (simp add: same_client_def)
        obtain r where r: "lease_of i (wd_leases tx) = Some r" "le_owner r = wl_wallet l" "held = le_amount r"
            "be_now s < le_expires r" "db = tx\<lparr>wd_leases := filter (\<lambda>x. le_id x \<noteq> i) (wd_leases tx)\<rparr>"
          using 4 b now by auto
        have st4: "be_data s4 = be_data s" "same_client s s4" using 4 st2 same_client_trans by metis+
        from ok(2) [unfolded b prod.case] show ?thesis
        proof (cases rule: try_doE)
          case (error e)
          then show ?thesis using st4 check_available_state [OF error(1)] by (auto intro: settles_as_same)
        next
          case (ok v s5)
          have s5: "s5 = s4" using check_available_state [OF ok(1)] by simp
          from ok(2) [unfolded s5] show ?thesis
          proof (cases rule: try_doE)
            case (error e)
            then show ?thesis
              using st4 tx_call_state [OF error(1)] same_client_trans [of s s4 t] by (auto intro!: settles_as_same)
          next
            case (ok db2 s6)
            note 6 = tx_call_state [OF ok(1)]
            have set: "sql_set_wallet (wl_wallet l) (\<lambda>b. b - sint a) (\<lambda>r. r - sint held) (be_now s) db = Inr db2"
              using 6 now by simp
            have st6: "be_data s6 = be_data s" "same_client s s6" using 6 st4 same_client_trans by metis+
            from ok(2) show ?thesis
            proof (cases rule: try_doE)
              case (error e)
              then show ?thesis
                using st6 write_debit_state [OF error(1)] same_client_trans [of s s6 t] by (auto intro!: settles_as_same)
            next
              case (ok db3 s7)
              note 7 = write_debit_state [OF ok(1)]
              have "be_now s6 = be_now s" using st6 by (simp add: same_client_def)
              then have db3: "db3 = db2\<lparr>wd_entries := wd_entries db2 @ debit_rows l i a (be_now s)\<rparr>"
                using 7 by simp
              have "wallet_settled l i (sint a) True (be_now s) (debit_rows l i a (be_now s)) (be_data s) db3"
                using sql_set_wallet_effect [OF set] r owed_remove [OF good r(1), of "wl_wallet l"] assms(2) 1
                  good_leases_filter [OF good] db3
                by (auto simp: wallet_settled_def wallet_ok_def)
              then show ?thesis
                using settles_as_commit [OF _ _ _ ok(2)] st6 7 same_client_trans [of s s6 s7] by simp
            qed
          qed
        qed
      qed
    qed
  qed
qed

section \<open>The contract\<close>

text \<open>
  The budget of a wallet is its balance: what is in use is what has been held or debited of
  an amount \<open>k\<close>, the balance when accounting starts.
\<close>

definition wallet_used :: "int \<Rightarrow> wallet_ledger \<Rightarrow> wallet_db backend \<Rightarrow> int" where
  "wallet_used k l s = k - bal (wl_wallet l) (be_data s) + hold (wl_wallet l) (be_data s)"

definition wallet_inv :: "wallet_ledger \<Rightarrow> wallet_db backend \<Rightarrow> bool" where
  "wallet_inv l s \<longleftrightarrow> wallet_ok (wl_wallet l) (be_data s) \<and> no_lost s
     \<and> objs_owned (wl_wallet l) (wd_leases (be_data s)) (be_objs s)"

definition wallet_held :: "wallet_db backend \<Rightarrow> nat \<Rightarrow> int option" where
  "wallet_held s h = held_lease (wd_leases (be_data s)) (be_objs s) h"

lemma wallet_reserve_good:
  assumes "wallet_reserve l c e s = (res, t)" and "wallet_inv l s"
  shows "wallet_inv l t \<and>
    (case res of
       Inl x \<Rightarrow> wallet_used k l t \<le> wallet_used k l s
     | Inr h \<Rightarrow> c = background \<and> 0 \<le> sint e \<and> wallet_held t h = Some (sint e)
         \<and> wallet_used k l t \<le> wallet_used k l s + sint e \<and> wallet_used k l t \<le> k)"
proof -
  let ?w = "wl_wallet l"
  have inv: "wallet_ok ?w (be_data s)" "no_lost s" "objs_owned ?w (wd_leases (be_data s)) (be_objs s)"
    using assms(2) by (auto simp: wallet_inv_def)
  have good: "good_leases (wd_leases (be_data s))" using inv(1) by (simp add: wallet_ok_def)
  note st = wallet_reserve_state [OF assms(1) inv(1)]
  have lost: "no_lost t" using st inv(2) by (auto simp: same_env_def)
  have freed: "wallet_ok ?w db \<and> objs_owned ?w (wd_leases db) (be_objs s)"
    if "wallet_freed ?w (be_now s) (be_data s) db" for db
    using that objs_owned_filter [OF inv(3) good] by (simp add: wallet_freed_def)
  show ?thesis
  proof (cases res)
    case (Inl x)
    then show ?thesis
      using st inv lost freed by (auto simp: wallet_inv_def wallet_used_def wallet_freed_def)
  next
    case (Inr h)
    then obtain i db where objs: "be_objs t = be_objs s @ [\<lparr>ro_id = i, ro_done = False\<rparr>]"
      and f: "wallet_freed ?w (be_now s) (be_data s) db"
      and p: "wallet_leased ?w (wallet_lease l i e (be_now s)) db (be_data t)"
      and c: "c = background" "0 \<le> sint e" "h = length (be_objs s)"
      using st by auto
    have "objs_owned ?w (wd_leases (be_data t)) (be_objs t)"
      using objs_owned_insert [of ?w "wd_leases db" "be_objs s" "wallet_lease l i e (be_now s)"] freed [OF f] p objs
      by (simp add: wallet_leased_def)
    moreover have "wallet_held t h = Some (sint e)"
      using held_lease_new [of "wallet_lease l i e (be_now s)" "wd_leases db" "be_objs s"] p objs c(3)
      by (simp add: wallet_held_def wallet_leased_def)
    ultimately show ?thesis
      using Inr c f p lost
      by (auto simp: wallet_inv_def wallet_used_def wallet_freed_def wallet_leased_def wallet_ok_def)
  qed
qed

text \<open>A terminal call, for an operation that settles by a charge.\<close>

lemma wallet_once_err:
  assumes "wallet_inv l s" and "once h operation s = (Some x, t)"
    and "\<And>i res u. operation i s = (res, u) \<Longrightarrow> \<exists>P. settles_as s res u P"
  shows "wallet_inv l t \<and> be_data t = be_data s"
proof -
  have "\<not> ro_done (be_objs s ! h)" using assms(2) by (auto simp: once_done)
  from once_open [OF this assms(2)] obtain P where "settles_as s (Inl x) t P"
    using assms(3) by blast
  then show ?thesis
    using assms(1) by (auto simp: settles_as_def wallet_inv_def same_client_def)
qed

lemma wallet_once_ok:
  assumes "wallet_inv l s" and "wallet_held s h = Some a" and "once h operation s = (None, t)"
    and "\<And>i res u. operation i s = (res, u) \<Longrightarrow> settles_as s res u (wallet_settled l i charge live (be_now s) (rows i) (be_data s))"
  shows "wallet_inv l t \<and> obj_finished (be_objs t) h \<and> wallet_held t h = None
    \<and> wallet_used k l t = wallet_used k l s - a + charge"
proof -
  let ?x = "be_objs s ! h" and ?w = "wl_wallet l"
  obtain r where h: "h < length (be_objs s)" "\<not> ro_done ?x"
    and r: "lease_of (ro_id ?x) (wd_leases (be_data s)) = Some r" "sint (le_amount r) = a"
    using held_leaseD [of "wd_leases (be_data s)" "be_objs s" h a] assms(2) by (auto simp: wallet_held_def)
  obtain u where u: "operation (ro_id ?x) s = (Inr (), u)"
    and t: "t = u\<lparr>be_objs := (be_objs u)[h := ?x\<lparr>ro_done := True\<rparr>]\<rparr>"
    using once_open [OF h(2) assms(3)] by auto
  have set: "wallet_settled l (ro_id ?x) charge live (be_now s) (rows (ro_id ?x)) (be_data s) (be_data u)"
    and same: "same_client s u"
    using assms(4) [OF u] by (auto simp: settles_as_def)
  have good: "good_leases (wd_leases (be_data s))" using assms(1) by (simp add: wallet_inv_def wallet_ok_def)
  have "objs_owned ?w (wd_leases (be_data u)) (be_objs s)"
    using objs_owned_filter [OF _ good] assms(1) set by (auto simp: wallet_inv_def wallet_settled_def)
  then show ?thesis
    using set same assms(1) h r objs_owned_done
    by (auto simp: t wallet_inv_def wallet_settled_def same_client_def no_lost_def wallet_held_def wallet_used_def)
qed

lemma wallet_commit_cases:
  assumes "wallet_commit l h c a s = (err, t)"
  shows "(err \<noteq> None \<and> t = s) \<or> (c = background \<and> once h (wallet_commit_tx l (clamp0 a)) s = (err, t))"
  using assms by (auto simp: wallet_commit_def validate_wallet_context_def ctx_check_None split: option.splits)

lemma wallet_release_cases:
  assumes "wallet_release l h c s = (err, t)"
  shows "(err \<noteq> None \<and> t = s) \<or> (c = background \<and> once h (wallet_release_tx l) s = (err, t))"
  using assms by (auto simp: wallet_release_def ctx_check_None split: option.splits)

lemma wallet_terminal_err:
  assumes "wallet_inv l s" and "wallet_commit l h c a s = (Some x, t) \<or> wallet_release l h c s = (Some x, t)"
  shows "wallet_inv l t \<and> be_data t = be_data s"
  using assms(2)
proof
  have ok: "wallet_ok (wl_wallet l) (be_data s)" using assms(1) by (simp add: wallet_inv_def)
  { assume "wallet_commit l h c a s = (Some x, t)"
    from wallet_commit_cases [OF this] show ?thesis
      using wallet_once_err [OF assms(1), of h "wallet_commit_tx l (clamp0 a)" x t]
        wallet_commit_tx_state [OF _ ok] assms(1) by fastforce }
  { assume "wallet_release l h c s = (Some x, t)"
    from wallet_release_cases [OF this] show ?thesis
      using wallet_once_err [OF assms(1), of h "wallet_release_tx l" x t]
        wallet_release_tx_state [OF _ ok] assms(1) by fastforce }
qed

lemma wallet_commit_exact:
  assumes "wallet_inv l s" and "wallet_held s h = Some r" and "wallet_commit l h c a s = (None, t)"
  shows "wallet_inv l t \<and> obj_finished (be_objs t) h \<and> wallet_held t h = None
    \<and> wallet_used k l t = wallet_used k l s - r + max 0 (sint a)"
proof -
  have ok: "wallet_ok (wl_wallet l) (be_data s)" using assms(1) by (simp add: wallet_inv_def)
  have "once h (wallet_commit_tx l (clamp0 a)) s = (None, t)"
    using wallet_commit_cases [OF assms(3)] by simp
  from wallet_once_ok [OF assms(1,2) this wallet_commit_tx_state [OF _ ok]] show ?thesis
    by (simp add: sint_clamp0)
qed

lemma wallet_release_exact:
  assumes "wallet_inv l s" and "wallet_held s h = Some r" and "wallet_release l h c s = (None, t)"
  shows "wallet_inv l t \<and> obj_finished (be_objs t) h \<and> wallet_held t h = None
    \<and> wallet_used k l t = wallet_used k l s - r"
proof -
  have ok: "wallet_ok (wl_wallet l) (be_data s)" using assms(1) by (simp add: wallet_inv_def)
  have "once h (wallet_release_tx l) s = (None, t)"
    using wallet_release_cases [OF assms(3)] by simp
  from wallet_once_ok [OF assms(1,2) this wallet_release_tx_state [OF _ ok]] show ?thesis by simp
qed

lemma wallet_record_state:
  assumes "wallet_record l c ev s = (err, t)"
  shows "same_client s t \<and> wd_wallets (be_data t) = wd_wallets (be_data s)
    \<and> wd_leases (be_data t) = wd_leases (be_data s) \<and> wd_entries (be_data t) = wd_entries (be_data s)
    \<and> wd_tenants (be_data t) = wd_tenants (be_data s) \<and> wd_users (be_data t) = wd_users (be_data s)"
proof -
  have "t = s \<or> (\<exists>row r. exec_call (sql_insert_usage row (be_data s)) s = (r, t))"
    using assms
    by (auto simp: wallet_record_def only_error_eq Let_def split: option.splits if_splits elim!: try_doE)
  then show ?thesis
  proof (elim disjE exE)
    fix row r
    assume "exec_call (sql_insert_usage row (be_data s)) s = (r, t)"
    note st = exec_call_state [OF this]
    have "\<exists>rows. x = (be_data s)\<lparr>wd_usage := rows\<rparr>" if "sql_insert_usage row (be_data s) = Inr x" for x
    proof -
      have "x = (be_data s)\<lparr>wd_usage := wd_usage (be_data s)\<rparr> \<or> x = (be_data s)\<lparr>wd_usage := wd_usage (be_data s) @ [row]\<rparr>"
        using that by (simp add: sql_insert_usage_def split: if_splits)
      then show ?thesis by blast
    qed
    then have "be_data t = be_data s \<or> (\<exists>rows. be_data t = (be_data s)\<lparr>wd_usage := rows\<rparr>)"
      using st by blast
    then show ?thesis using st by (elim disjE exE) simp_all
  qed simp
qed

interpretation wallet: reserver_contract "wallet_reserver l" "wallet_inv l" "wallet_used k l" "\<lambda>_. k"
  wallet_held "\<lambda>s. obj_finished (be_objs s)" max_int64 for k l
proof (unfold_locales, goal_cases)
  case (1 s c e h s')
  then show ?case using wallet_reserve_good [of l c e s "Inr h" s' k] by simp
next
  case (2 s c e x s')
  then show ?case using wallet_reserve_good [of l c e s "Inl x" s' k] by simp
next
  case (3 s h r c a s')
  then show ?case using wallet_commit_exact [of l s h r c a s' k] by simp
next
  case (4 s h c a x s')
  then show ?case using wallet_terminal_err [of l s h c a x s'] by (simp add: wallet_used_def)
next
  case (5 s h r c s')
  then show ?case using wallet_release_exact [of l s h r c s' k] by simp
next
  case (6 s h c x s')
  then show ?case using wallet_terminal_err [of l s h c 0 x s'] by (simp add: wallet_used_def)
next
  case (7 s h a)
  then show ?case by (simp add: wallet_commit_def validate_wallet_context_def once_finished)
next
  case (8 s h)
  then show ?case by (simp add: wallet_release_def once_finished)
next
  case (12 s c ev err s' h)
  then show ?case
    using wallet_record_state [of l c ev s err s']
    by (simp add: wallet_inv_def wallet_ok_def wallet_used_def wallet_held_def same_client_def bal_def hold_def)
qed simp_all

end
