(* ===== verification/WalletQuiet.thy ===== *)
theory WalletQuiet
  imports WalletLemmas
begin

text \<open>
  The wallets on a database that answers every call: what the operations then do exactly,
  and the interpretation of the contract for that case.
\<close>

section \<open>The calls of a settlement\<close>

text \<open>The wallet exists in the currency of the ledger and all of its owners are active.\<close>

definition wallet_open :: "wallet_ledger \<Rightarrow> wallet_db \<Rightarrow> bool" where
  "wallet_open l db \<longleftrightarrow>
     map_option row_id (wd_wallets db (wl_wallet l))
       = Some (wl_tenant l, wl_user l, currency_string (wl_currency l), active)
     \<and> wd_tenants db (wl_tenant l) = Some active \<and> wd_users db (wl_tenant l, wl_user l) = Some active"

lemma lock_wallet_open:
  assumes "be_outcomes s = []" and "wallet_open l tx"
  shows "\<exists>b r. lock_wallet l True tx s = (Inr (b, r, active), s)
    \<and> sint b = bal (wl_wallet l) tx \<and> sint r = hold (wl_wallet l) tx"
  using assms
  by (auto simp: wallet_open_def lock_wallet_def sql_lock_wallet_def check_lock_def row_id_def bal_def hold_def)

text \<open>The lease of a reservation that is still alive.\<close>

definition live_lease :: "wallet_ledger \<Rightarrow> string \<Rightarrow> int \<Rightarrow> lease list \<Rightarrow> lease option" where
  "live_lease l i now rows =
     (case lease_of i rows of
        Some r \<Rightarrow> if le_owner r = wl_wallet l \<and> now < le_expires r then Some r else None
      | None \<Rightarrow> None)"

lemma take_unexpired_quiet:
  assumes "be_outcomes s = []" and "good_leases (wd_leases tx)"
  shows "take_unexpired l i tx s =
    (case live_lease l i (be_now s) (wd_leases tx) of
       None \<Rightarrow> (Inl (Errorf ''%w: %s'' [FErr (Sentinel ErrReservationNotFound), FStr i]), s)
     | Some r \<Rightarrow> (Inr (le_amount r, tx\<lparr>wd_leases := filter (\<lambda>x. le_id x \<noteq> i) (wd_leases tx)\<rparr>), s))"
  using assms
  by (simp add: take_unexpired_def live_lease_def sql_take_cond split: option.split)

lemma check_available_exact:
  assumes "0 \<le> sint held" and "sint held \<le> sint reserved" and "sint reserved \<le> sint balance" and "0 \<le> sint a"
  shows "check_available l balance reserved held a s =
    (if sint balance - (sint reserved - sint held) < sint a
     then (Inl (Errorf ''%w: wallet=%s available_after_release=%d actual=%d''
        [FErr (Sentinel ErrBudgetExceeded), FStr (wl_wallet l), FInt (balance - (reserved - held)), FInt a]), s)
     else (Inr (), s))"
proof -
  have 1: "sint (reserved - held) = sint reserved - sint held"
    using assms by (intro sint_diff_nonneg) linarith+
  then have "sint (balance - (reserved - held)) = sint balance - (sint reserved - sint held)"
    using assms by (subst sint_diff_nonneg) linarith+
  then show ?thesis
    using assms by (simp add: check_available_def i64_simps)
qed

lemma write_debit_quiet:
  assumes "be_outcomes s = []" and "\<not> entry_exists (wl_wallet l) i (wd_entries tx)"
  shows "write_debit l i a tx s = (Inr (tx\<lparr>wd_entries := wd_entries tx @ debit_rows l i a (be_now s)\<rparr>), s)"
  using assms
  by (auto simp: write_debit_def debit_rows_def sql_insert_wallet_entry_def debit_entry_def i64_simps)

text \<open>The body of a commit when every call is answered.\<close>

lemma wallet_commit_tx_quiet:
  assumes q: "be_outcomes s = []" and ok: "wallet_ok (wl_wallet l) (be_data s)" and open': "wallet_open l (be_data s)"
    and a: "0 \<le> sint a" and new: "\<not> entry_exists (wl_wallet l) i (wd_entries (be_data s))"
  shows "case live_lease l i (be_now s) (wd_leases (be_data s)) of
       None \<Rightarrow> \<exists>e. wallet_commit_tx l a i s = (Inl e, s) \<and> errors_is e ErrReservationNotFound
     | Some r \<Rightarrow>
         if bal (wl_wallet l) (be_data s) - (hold (wl_wallet l) (be_data s) - sint (le_amount r)) < sint a
         then \<exists>e. wallet_commit_tx l a i s = (Inl e, s) \<and> errors_is e ErrBudgetExceeded
         else \<exists>t. wallet_commit_tx l a i s = (Inr (), t)"
proof -
  let ?w = "wl_wallet l" and ?db = "be_data s"
  have good: "good_leases (wd_leases ?db)" using ok by (simp add: wallet_ok_def)
  obtain b r where lock: "lock_wallet l True ?db s = (Inr (b, r, active), s)"
    and br: "sint b = bal ?w ?db" "sint r = hold ?w ?db"
    using lock_wallet_open [OF q open'] by blast
  have run: "wallet_commit_tx l a i s = settle_wallet l i b r a ?db s"
    by (simp add: wallet_commit_tx_def q lock check_wallet_active_def)
  show ?thesis
  proof (cases "live_lease l i (be_now s) (wd_leases ?db)")
    case None
    then show ?thesis
      by (simp add: run settle_wallet_def take_unexpired_quiet [OF q good])
  next
    case (Some x)
    then have x: "lease_of i (wd_leases ?db) = Some x" "le_owner x = ?w"
      by (auto simp: live_lease_def split: option.splits if_splits)
    let ?tx = "?db\<lparr>wd_leases := filter (\<lambda>x. le_id x \<noteq> i) (wd_leases ?db)\<rparr>"
    have take: "take_unexpired l i ?db s = (Inr (le_amount x, ?tx), s)"
      using Some by (simp add: take_unexpired_quiet [OF q good])
    have amount: "0 \<le> sint (le_amount x)" "sint (le_amount x) \<le> sint r" "sint r \<le> sint b"
      using good_amount [OF good x(1)] owed_ge_lease [OF good x] ok br by (auto simp: wallet_ok_def)
    note check = check_available_exact [OF amount a]
    show ?thesis
    proof (cases "bal ?w ?db - (hold ?w ?db - sint (le_amount x)) < sint a")
      case True
      then have "check_available l b r (le_amount x) a s = (Inl (Errorf ''%w: wallet=%s available_after_release=%d actual=%d''
        [FErr (Sentinel ErrBudgetExceeded), FStr (wl_wallet l), FInt (b - (r - le_amount x)), FInt a]), s)"
        using check [of l s] br by simp
      then show ?thesis
        using Some True by (simp add: run settle_wallet_def take)
    next
      case False
      then have avail: "check_available l b r (le_amount x) a s = (Inr (), s)"
        using check [of l s] br by simp
      have "bal ?w ?tx - sint a \<le> max_int64"
        using a sint_upper [of b] br by simp
      then obtain db2 where set: "sql_set_wallet ?w (\<lambda>b. b - sint a) (\<lambda>r. r - sint (le_amount x)) (be_now s) ?tx = Inr db2"
        using sql_set_wallet_ok [of ?tx ?w "\<lambda>r. r - sint (le_amount x)" "\<lambda>b. b - sint a" "be_now s"] False amount br ok
        by (auto simp: wallet_ok_def)
      have row: "wd_wallets ?tx ?w \<noteq> None" using ok by (simp add: wallet_ok_def)
      have "wd_entries db2 = wd_entries ?db"
        using sql_set_wallet_effect [OF set row] by simp
      then have "write_debit l i a db2 s = (Inr (db2\<lparr>wd_entries := wd_entries db2 @ debit_rows l i a (be_now s)\<rparr>), s)"
        using write_debit_quiet [OF q] new by simp
      then show ?thesis
        using Some False by (simp add: run settle_wallet_def take avail q set)
    qed
  qed
qed

section \<open>Reserve and release\<close>

text \<open>
  Every call is answered, the wallet is open, no lease has expired, and no identifier was
  used before, also not as the key of a debit.
\<close>

definition wallet_ids :: "wallet_db \<Rightarrow> string set" where
  "wallet_ids db = le_id ` set (wd_leases db) \<union> we_key ` set (wd_entries db)"

definition wallet_quiet :: "wallet_ledger \<Rightarrow> wallet_db backend \<Rightarrow> bool" where
  "wallet_quiet l s \<longleftrightarrow> wallet_inv l s \<and> be_outcomes s = [] \<and> wl_db l \<and> wallet_open l (be_data s)
     \<and> (\<forall>r\<in>set (wd_leases (be_data s)). \<not> lease_expired (wl_wallet l) (be_now s) r
          \<and> le_id r \<notin> we_key ` set (wd_entries (be_data s)))
     \<and> fresh_ids (wallet_ids (be_data s)) s"

lemma wallet_quietD:
  assumes "wallet_quiet l s"
  shows "wallet_inv l s" and "be_outcomes s = []" and "wallet_open l (be_data s)"
    and "wallet_ok (wl_wallet l) (be_data s)" and "good_leases (wd_leases (be_data s))"
  using assms by (auto simp: wallet_quiet_def wallet_inv_def wallet_ok_def)

lemma reclaim_quiet:
  assumes "wallet_quiet l s" and "be_outcomes t = []" and "be_now t = be_now s" and "0 \<le> sint reserved"
  shows "reclaim_expired l (be_data s) reserved t = (Inr (reserved, be_data s), t)"
proof -
  have "sql_reclaim (wl_wallet l) (be_now t) (wd_leases (be_data s)) = Inr (0, wd_leases (be_data s))"
    using assms by (intro sql_reclaim_none) (simp add: wallet_quiet_def)
  then show ?thesis
    using assms(2,4) by (simp add: reclaim_expired_def try_do_def i64_simps)
qed

lemma wallet_hold_quiet:
  assumes ok: "wallet_ok (wl_wallet l) db" and r: "sint reserved = hold (wl_wallet l) db"
    and e: "0 \<le> sint e" "hold (wl_wallet l) db + sint e \<le> bal (wl_wallet l) db"
    and q: "be_outcomes s = []" and new: "i \<notin> le_id ` set (wd_leases db)"
  shows "\<exists>db'. wallet_hold l i reserved e db s
    = (Inr (length (be_objs s)), s\<lparr>be_data := db', be_objs := be_objs s @ [\<lparr>ro_id = i, ro_done = False\<rparr>]\<rparr>)"
proof -
  let ?rows = "wd_leases db @ [wallet_lease l i e (be_now s)]" and ?w = "wl_wallet l"
  have good: "good_leases (wd_leases db)" and row: "wd_wallets db ?w \<noteq> None" and le: "hold ?w db \<le> bal ?w db"
    using ok by (auto simp: wallet_ok_def)
  have nonneg: "0 \<le> hold ?w db" using ok owed_nonneg [OF good, of ?w] by (simp add: wallet_ok_def)
  have max: "bal ?w db \<le> max_int64" using sint_upper by (auto simp: bal_def split: option.split)
  have sum: "sint (reserved + e) = hold ?w db + sint e"
    using r e nonneg max by (subst sint_add_i64) simp_all
  have ins: "sql_insert_lease (wallet_lease l i e (be_now s)) (wd_leases db) = Inr ?rows"
    using new by (auto simp: sql_insert_lease_def list_ex_iff intro: rev_image_eqI)
  have "\<exists>db'. sql_set_wallet ?w (\<lambda>b. b) (\<lambda>_. sint (reserved + e)) (be_now s) (db\<lparr>wd_leases := ?rows\<rparr>) = Inr db'"
    using row e nonneg max sum by (intro sql_set_wallet_ok) simp_all
  then show ?thesis
    using q ins by (auto simp: wallet_hold_def insert_reservation_def update_reserved_def try_do_def add_obj_def)
qed

lemma wallet_reserve_quiet:
  assumes quiet: "wallet_quiet l s" and e: "0 \<le> sint e" "sint e \<le> sint MaxEstimate"
  defines "u \<equiv> s\<lparr>be_drawn := Suc (be_drawn s)\<rparr>"
  shows "if bal (wl_wallet l) (be_data s) - hold (wl_wallet l) (be_data s) < sint e
    then \<exists>x. wallet_reserve l background e s = (Inl x, u\<lparr>be_data := be_data s\<rparr>) \<and> errors_is x ErrBudgetExceeded
    else \<exists>b db. be_random s (be_drawn s) = Some b
      \<and> hex_encode b \<notin> wallet_ids (be_data s)
      \<and> wallet_reserve l background e s = (Inr (length (be_objs s)),
           u\<lparr>be_data := db, be_objs := be_objs s @ [\<lparr>ro_id = hex_encode b, ro_done = False\<rparr>]\<rparr>)"
proof -
  let ?w = "wl_wallet l" and ?db = "be_data s"
  note q = wallet_quietD [OF quiet]
  have u: "be_data u = ?db" "be_outcomes u = []" "be_now u = be_now s" "be_objs u = be_objs s"
    using q(2) by (simp_all add: u_def)
  obtain b where b: "be_random s (be_drawn s) = Some b"
      "hex_encode b \<notin> wallet_ids ?db"
    using quiet fresh_idsD [of "wallet_ids ?db" s] unfolding wallet_quiet_def by blast
  have begin': "begin_reservation l background e s = (Inr (?db, hex_encode b), u)"
    using quiet e b(1) u
    by (simp add: begin_reservation_def validate_wallet_context_def validate_estimate_def wallet_quiet_def
        try_do_def new_id_def Let_def i64_simps u_def)
  obtain balance reserved where lock: "lock_wallet l True ?db u = (Inr (balance, reserved, active), u)"
    and br: "sint balance = bal ?w ?db" "sint reserved = hold ?w ?db"
    using lock_wallet_open [OF u(2) q(3)] by blast
  have order: "0 \<le> sint reserved" "sint reserved \<le> sint balance"
    using br q(4) owed_nonneg [OF q(5), of ?w] by (simp_all add: wallet_ok_def)
  have run: "wallet_reserve l background e s = wallet_decide l (hex_encode b) balance reserved e ?db u"
    using reclaim_quiet [OF quiet u(2,3) order(1)]
    by (simp add: wallet_reserve_def begin' lock check_wallet_active_def)
  have sane: "\<not> (balance <s 0 \<or> reserved <s 0 \<or> balance <s reserved)"
    using order by (simp add: i64_simps)
  have diff: "sint (balance - reserved) = bal ?w ?db - hold ?w ?db"
    using order br sint_diff_nonneg [of balance reserved] by simp
  show ?thesis
  proof (cases "bal ?w ?db - hold ?w ?db < sint e")
    case True
    then have "balance - reserved <s e" using diff by (simp add: i64_simps)
    then show ?thesis
      using True sane u by (simp add: run wallet_decide_def wallet_deny_def)
  next
    case False
    then have "\<not> balance - reserved <s e" using diff by (simp add: i64_simps)
    then have "wallet_decide l (hex_encode b) balance reserved e ?db u = wallet_hold l (hex_encode b) reserved e ?db u"
      using sane by (simp add: wallet_decide_def)
    then show ?thesis
      using False wallet_hold_quiet [OF q(4) br(2) e(1) _ u(2), of "hex_encode b"] b run u
      by (auto simp: wallet_ids_def)
  qed
qed

lemma wallet_release_tx_quiet:
  assumes quiet: "wallet_quiet l s" and r: "lease_of i (wd_leases (be_data s)) = Some r" "le_owner r = wl_wallet l"
  shows "\<exists>t. wallet_release_tx l i s = (Inr (), t)"
proof -
  let ?w = "wl_wallet l" and ?db = "be_data s"
  note q = wallet_quietD [OF quiet]
  let ?tx = "?db\<lparr>wd_leases := filter (\<lambda>x. le_id x \<noteq> i) (wd_leases ?db)\<rparr>"
  obtain b v where lock: "lock_wallet l False ?db s = (Inr (b, v, active), s)"
    using q(2,3)
    by (auto simp: wallet_open_def lock_wallet_def sql_lock_wallet_def check_lock_def row_id_def)
  have take: "take_any l i ?db s = (Inr (le_amount r, ?tx), s)"
    using q(2) r by (simp add: take_any_def sql_take_cond [OF q(5)])
  have "sint (le_amount r) \<le> hold ?w ?db" "0 \<le> sint (le_amount r)"
    using owed_ge_lease [OF q(5) r] good_amount [OF q(5) r(1)] q(4) by (simp_all add: wallet_ok_def)
  moreover have "bal ?w ?db \<le> max_int64" using sint_upper by (auto simp: bal_def split: option.split)
  ultimately have "\<exists>db'. sql_set_wallet ?w (\<lambda>b. b) (\<lambda>v. v - sint (le_amount r)) (be_now s) ?tx = Inr db'"
    using q(4) by (intro sql_set_wallet_ok) (simp_all add: wallet_ok_def)
  then show ?thesis
    using q(2) lock take by (auto simp: wallet_release_tx_def Let_def)
qed

section \<open>The world stays quiet\<close>

lemma wallet_quietI:
  assumes "wallet_quiet l s" and "wallet_inv l t" and "wallet_frame (wl_wallet l) (be_data s) (be_data t)"
    and "be_now t = be_now s" and "be_outcomes t = []"
    and "\<forall>r\<in>set (wd_leases (be_data t)). \<not> lease_expired (wl_wallet l) (be_now s) r
          \<and> le_id r \<notin> we_key ` set (wd_entries (be_data t))"
    and "fresh_ids (wallet_ids (be_data t)) t"
  shows "wallet_quiet l t"
  using assms unfolding wallet_quiet_def wallet_open_def wallet_frame_def by simp

text \<open>The data are as they were, or a lease was settled.\<close>

lemma wallet_quiet_same:
  assumes "wallet_quiet l s" and "wallet_inv l t" and "be_data t = be_data s" and "be_now t = be_now s"
    and "be_outcomes t = []" and "be_random t = be_random s" and "be_drawn s \<le> be_drawn t"
  shows "wallet_quiet l t"
proof (rule wallet_quietI [OF assms(1,2)])
  show "fresh_ids (wallet_ids (be_data t)) t"
    using fresh_ids_subset [of "wallet_ids (be_data s)" s "wallet_ids (be_data s)" t] assms
    by (simp add: wallet_quiet_def)
qed (use assms in \<open>simp_all add: wallet_quiet_def\<close>)

lemma wallet_quiet_settled:
  assumes "wallet_quiet l s" and "wallet_inv l t"
    and "wallet_settled l i charge live now rows (be_data s) (be_data t)" and "\<forall>x\<in>set rows. we_key x = i"
    and "be_now t = be_now s" and "be_outcomes t = []" and "be_random t = be_random s" and "be_drawn s \<le> be_drawn t"
  shows "wallet_quiet l t"
proof (rule wallet_quietI [OF assms(1,2)])
  obtain r where r: "lease_of i (wd_leases (be_data s)) = Some r"
    and t: "wd_leases (be_data t) = filter (\<lambda>x. le_id x \<noteq> i) (wd_leases (be_data s))"
      "wd_entries (be_data t) = wd_entries (be_data s) @ rows"
      "wallet_frame (wl_wallet l) (be_data s) (be_data t)"
    using assms(3) by (auto simp: wallet_settled_def)
  show "wallet_frame (wl_wallet l) (be_data s) (be_data t)" by (rule t)
  have "wallet_ids (be_data t) \<subseteq> wallet_ids (be_data s)"
    using lease_of_Some [OF r] assms(4) by (auto simp: wallet_ids_def t)
  then show "fresh_ids (wallet_ids (be_data t)) t"
    using fresh_ids_subset [of "wallet_ids (be_data s)" s "wallet_ids (be_data t)" t] assms
    by (simp add: wallet_quiet_def)
  show "\<forall>r\<in>set (wd_leases (be_data t)). \<not> lease_expired (wl_wallet l) (be_now s) r
          \<and> le_id r \<notin> we_key ` set (wd_entries (be_data t))"
    using assms(1,4) by (auto simp: t wallet_quiet_def)
qed (use assms in simp_all)

lemma wallet_reserve_stays_quiet:
  assumes "wallet_quiet l s" and "wallet_reserve l c e s = (res, t)"
  shows "wallet_quiet l t"
proof (cases "c = background \<and> 0 \<le> sint e \<and> sint e \<le> sint MaxEstimate")
  case False
  then have "t = s"
    using assms
    by (auto simp: wallet_reserve_def begin_reservation_def validate_wallet_context_def validate_estimate_def
        ctx_check_None i64_simps try_do_def split: option.splits if_splits)
  then show ?thesis using assms(1) by simp
next
  case True
  have inv: "wallet_inv l t"
    using wallet_reserve_good [OF assms(2)] assms(1) by (simp add: wallet_quiet_def)
  note q = wallet_quietD [OF assms(1)]
  note run = wallet_reserve_quiet [OF assms(1), of e]
  show ?thesis
  proof (cases "bal (wl_wallet l) (be_data s) - hold (wl_wallet l) (be_data s) < sint e")
    case 1: True
    then have "t = s\<lparr>be_drawn := Suc (be_drawn s), be_data := be_data s\<rparr>"
      using run True assms(2) by auto
    then show ?thesis using q by (intro wallet_quiet_same [OF assms(1) inv]) simp_all
  next
    case 2: False
    then obtain b db where b: "be_random s (be_drawn s) = Some b" "hex_encode b \<notin> wallet_ids (be_data s)"
      and res: "res = Inr (length (be_objs s))"
      and t: "t = s\<lparr>be_drawn := Suc (be_drawn s), be_data := db, be_objs := be_objs s @ [\<lparr>ro_id = hex_encode b, ro_done = False\<rparr>]\<rparr>"
      using run True assms(2) by auto
    from wallet_reserve_state [OF assms(2) q(4)] res
    obtain i db0 where objs: "be_objs t = be_objs s @ [\<lparr>ro_id = i, ro_done = False\<rparr>]"
      and f: "wallet_freed (wl_wallet l) (be_now s) (be_data s) db0"
      and p: "wallet_leased (wl_wallet l) (wallet_lease l i e (be_now s)) db0 (be_data t)"
      by auto
    have i: "i = hex_encode b" using objs t by simp
    have "filter (\<lambda>r. \<not> lease_expired (wl_wallet l) (be_now s) r) (wd_leases (be_data s)) = wd_leases (be_data s)"
      using assms(1) by (simp add: wallet_quiet_def filter_id_conv)
    then have d: "wd_leases (be_data t) = wd_leases (be_data s) @ [wallet_lease l i e (be_now s)]"
        "wd_entries (be_data t) = wd_entries (be_data s)"
      using f p by (auto simp: wallet_freed_def wallet_leased_def)
    have ids: "wallet_ids (be_data t) = insert (hex_encode b) (wallet_ids (be_data s))"
      by (auto simp: wallet_ids_def d i)
    show ?thesis
    proof (rule wallet_quietI [OF assms(1) inv])
      show "wallet_frame (wl_wallet l) (be_data s) (be_data t)"
        using f p wallet_frame_trans by (auto simp: wallet_freed_def wallet_leased_def)
      show "fresh_ids (wallet_ids (be_data t)) t"
        unfolding ids using assms(1) b(1) t by (intro fresh_ids_insert [of _ s]) (simp_all add: wallet_quiet_def)
      have "\<not> lease_expired (wl_wallet l) (be_now s) (wallet_lease l i e (be_now s))"
        by (simp add: lease_expired_def not_le)
      then show "\<forall>r\<in>set (wd_leases (be_data t)). \<not> lease_expired (wl_wallet l) (be_now s) r
          \<and> le_id r \<notin> we_key ` set (wd_entries (be_data t))"
        using assms(1) b(2) by (auto simp: d i wallet_quiet_def wallet_ids_def)
    qed (use q t in simp_all)
  qed
qed

lemma wallet_once_stays_quiet:
  assumes "wallet_quiet l s" and "wallet_inv l t" and "once h oper s = (err, t)"
    and "\<And>i res u. oper i s = (res, u) \<Longrightarrow> settles_as s res u (wallet_settled l i charge live now (rows i) (be_data s))"
    and "\<And>i x. x \<in> set (rows i) \<Longrightarrow> we_key x = i"
  shows "wallet_quiet l t"
proof (cases "ro_done (be_objs s ! h)")
  case True
  then show ?thesis using assms(1,3) by (simp add: once_done)
next
  case False
  note q = wallet_quietD(2) [OF assms(1)]
  have quiet: "wallet_quiet l t"
    if "oper i s = (res, u)" and "be_data t = be_data u" "be_now t = be_now u" "be_outcomes t = be_outcomes u"
      "be_random t = be_random u" "be_drawn t = be_drawn u" for i res u
  proof -
    have same: "same_client s u" and d: "be_data u = be_data s
        \<or> wallet_settled l i charge live now (rows i) (be_data s) (be_data u)"
      using assms(4) [OF that(1)] by (auto simp: settles_as_def)
    from d show ?thesis
    proof
      assume "be_data u = be_data s"
      then show ?thesis
        using same q that by (intro wallet_quiet_same [OF assms(1,2)]) (simp_all add: same_client_def)
    next
      assume "wallet_settled l i charge live now (rows i) (be_data s) (be_data u)"
      then show ?thesis
        using same q that assms(5)
        by (intro wallet_quiet_settled [OF assms(1,2), of i charge live now "rows i"]) (simp_all add: same_client_def)
    qed
  qed
  from once_open [OF False assms(3)] show ?thesis
  proof (elim disjE exE conjE)
    fix e
    assume "oper (ro_id (be_objs s ! h)) s = (Inl e, t)"
    from quiet [OF this] show ?thesis by simp
  next
    fix u
    assume u: "oper (ro_id (be_objs s ! h)) s = (Inr (), u)"
      and t: "t = u\<lparr>be_objs := (be_objs u)[h := (be_objs s ! h)\<lparr>ro_done := True\<rparr>]\<rparr>"
    from quiet [OF u] show ?thesis by (simp add: t)
  qed
qed

lemma debit_rows_key: "x \<in> set (debit_rows l i a now) \<Longrightarrow> we_key x = i"
  by (auto simp: debit_rows_def debit_entry_def split: if_splits)

lemma wallet_terminal_stays_quiet:
  assumes "wallet_quiet l s" and "wallet_inv l t"
    and "wallet_commit l h c a s = (err, t) \<or> wallet_release l h c s = (err, t)"
  shows "wallet_quiet l t"
  using assms(3)
proof
  note ok = wallet_quietD(4) [OF assms(1)]
  { assume "wallet_commit l h c a s = (err, t)"
    from wallet_commit_cases [OF this] show ?thesis
      using wallet_once_stays_quiet [OF assms(1,2), where h = h and oper = "wallet_commit_tx l (clamp0 a)" and err = err
          and charge = "sint (clamp0 a)" and live = True and now = "be_now s" and rows = "\<lambda>i. debit_rows l i (clamp0 a) (be_now s)"] wallet_commit_tx_state [OF _ ok] debit_rows_key assms(1)
      by blast }
  { assume "wallet_release l h c s = (err, t)"
    from wallet_release_cases [OF this] show ?thesis
      using wallet_once_stays_quiet [OF assms(1,2) _ wallet_release_tx_state [OF _ ok], where h = h and err = err] assms(1)
      by auto }
qed

lemma wallet_record_stays_quiet:
  assumes "wallet_quiet l s" and "wallet_inv l t" and "wallet_record l c ev s = (err, t)"
  shows "wallet_quiet l t"
proof -
  note st = wallet_record_state [OF assms(3)]
  have ids: "wallet_ids (be_data t) = wallet_ids (be_data s)" using st by (simp add: wallet_ids_def)
  have "fresh_ids (wallet_ids (be_data t)) t"
    using fresh_ids_subset [of "wallet_ids (be_data s)" s "wallet_ids (be_data t)" t] assms(1) st ids
    by (simp add: wallet_quiet_def same_client_def)
  then show ?thesis
    using assms(1,2) st by (simp add: wallet_quiet_def wallet_open_def same_client_def)
qed

text \<open>In a quiet world the terminal calls go through, a commit as far as the balance covers it.\<close>

lemma wallet_held_open:
  assumes "wallet_quiet l s" and "wallet_held s h = Some a"
  obtains r where "\<not> ro_done (be_objs s ! h)" and "h < length (be_objs s)"
    and "lease_of (ro_id (be_objs s ! h)) (wd_leases (be_data s)) = Some r" and "sint (le_amount r) = a"
    and "le_owner r = wl_wallet l" and "be_now s < le_expires r"
    and "\<not> entry_exists (wl_wallet l) (ro_id (be_objs s ! h)) (wd_entries (be_data s))"
proof -
  let ?i = "ro_id (be_objs s ! h)"
  obtain r where r: "\<not> ro_done (be_objs s ! h)" "h < length (be_objs s)"
      "lease_of ?i (wd_leases (be_data s)) = Some r" "sint (le_amount r) = a"
    using held_leaseD [of "wd_leases (be_data s)" "be_objs s" h a] assms(2) by (auto simp: wallet_held_def)
  have own: "le_owner r = wl_wallet l"
    using assms(1) r by (auto simp: wallet_quiet_def wallet_inv_def objs_owned_def)
  have mem: "r \<in> set (wd_leases (be_data s))" "le_id r = ?i" using lease_of_Some [OF r(3)] by auto
  then have "be_now s < le_expires r" "?i \<notin> we_key ` set (wd_entries (be_data s))"
    using assms(1) own by (auto simp: wallet_quiet_def lease_expired_def)
  then show ?thesis
    using that [OF r(1,2,3,4) own] by (force simp: entry_exists_def list_ex_iff)
qed

lemma wallet_commit_quiet:
  assumes "wallet_quiet l s" and "wallet_held s h = Some r"
    and "hold (wl_wallet l) (be_data s) - r + max 0 (sint a) \<le> bal (wl_wallet l) (be_data s)"
  shows "\<exists>t. wallet_commit l h background a s = (None, t)"
proof (rule wallet_held_open [OF assms(1,2)])
  fix x
  assume x: "\<not> ro_done (be_objs s ! h)" "lease_of (ro_id (be_objs s ! h)) (wd_leases (be_data s)) = Some x"
      "sint (le_amount x) = r" "le_owner x = wl_wallet l" "be_now s < le_expires x"
      "\<not> entry_exists (wl_wallet l) (ro_id (be_objs s ! h)) (wd_entries (be_data s))"
  note q = wallet_quietD [OF assms(1)]
  have "live_lease l (ro_id (be_objs s ! h)) (be_now s) (wd_leases (be_data s)) = Some x"
    using x by (simp add: live_lease_def)
  then obtain t where "wallet_commit_tx l (clamp0 a) (ro_id (be_objs s ! h)) s = (Inr (), t)"
    using wallet_commit_tx_quiet [OF q(2,4,3) clamp0_nonneg [of a] x(6)] assms(3) x(3)
    by (auto simp: sint_clamp0 split: if_splits)
  then show ?thesis
    using x(1) by (simp add: wallet_commit_def validate_wallet_context_def once_def Let_def)
qed

lemma wallet_release_quiet:
  assumes "wallet_quiet l s" and "wallet_held s h = Some r"
  shows "\<exists>t. wallet_release l h background s = (None, t)"
proof (rule wallet_held_open [OF assms])
  fix x
  assume x: "\<not> ro_done (be_objs s ! h)" "lease_of (ro_id (be_objs s ! h)) (wd_leases (be_data s)) = Some x"
      "le_owner x = wl_wallet l"
  from wallet_release_tx_quiet [OF assms(1) x(2,3)] show ?thesis
    using x(1) by (auto simp: wallet_release_def once_def Let_def)
qed

lemma wallet_reserve_decides:
  assumes "wallet_quiet l s" and "0 \<le> sint e" and "sint e \<le> sint MaxEstimate"
  shows "if wallet_used k l s + sint e \<le> k
    then \<exists>h t. wallet_reserve l background e s = (Inr h, t) \<and> wallet_used k l t = wallet_used k l s + sint e
    else \<exists>x t. wallet_reserve l background e s = (Inl x, t) \<and> errors_is x ErrBudgetExceeded
      \<and> wallet_used k l t = wallet_used k l s"
proof -
  note run = wallet_reserve_quiet [OF assms] and ok = wallet_quietD(4) [OF assms(1)]
  show ?thesis
  proof (cases "wallet_used k l s + sint e \<le> k")
    case False
    then show ?thesis using run by (auto simp: wallet_used_def)
  next
    case True
    then obtain h t where t: "wallet_reserve l background e s = (Inr h, t)"
      using run by (auto simp: wallet_used_def)
    from wallet_reserve_state [OF t ok]
    obtain i db where f: "wallet_freed (wl_wallet l) (be_now s) (be_data s) db"
      and p: "wallet_leased (wl_wallet l) (wallet_lease l i e (be_now s)) db (be_data t)" by auto
    have "filter (\<lambda>r. \<not> lease_expired (wl_wallet l) (be_now s) r) (wd_leases (be_data s)) = wd_leases (be_data s)"
      using assms(1) by (simp add: wallet_quiet_def filter_id_conv)
    then have "hold (wl_wallet l) db = hold (wl_wallet l) (be_data s)"
      using f ok by (auto simp: wallet_freed_def wallet_ok_def)
    then show ?thesis
      using True t f p by (auto simp: wallet_used_def wallet_freed_def wallet_leased_def)
  qed
qed

interpretation wallet_prompt: prompt_reserver "wallet_reserver l" "wallet_quiet l" "wallet_used (int k) l" "\<lambda>_. int k"
  wallet_held "\<lambda>s. obj_finished (be_objs s)" max_int64 for k l
proof (unfold_locales, goal_cases)
  case (1 s c e h s')
  then show ?case
    using wallet.reserve_ok [of l s c e h s' "int k"] wallet_reserve_stays_quiet [of l s c e "Inr h" s']
    by (simp add: wallet_quiet_def)
next
  case (2 s c e x s')
  then show ?case
    using wallet.reserve_err [of l s c e x s' "int k"] wallet_reserve_stays_quiet [of l s c e "Inl x" s']
    by (simp add: wallet_quiet_def)
next
  case (3 s h r c a s')
  then show ?case
    using wallet.commit_ok [of l s h r c a s' "int k"] wallet_terminal_stays_quiet [of l s s' h c a None]
    by (simp add: wallet_quiet_def)
next
  case (4 s h c a x s')
  then show ?case
    using wallet.commit_err [of l s h c a x s' "int k"] wallet_terminal_stays_quiet [of l s s' h c a "Some x"]
    by (simp add: wallet_quiet_def)
next
  case (5 s h r c s')
  then show ?case
    using wallet.release_ok [of l s h r c s' "int k"] wallet_terminal_stays_quiet [of l s s' h c 0 None]
    by (simp add: wallet_quiet_def)
next
  case (6 s h c x s')
  then show ?case
    using wallet.release_err [of l s h c x s' "int k"] wallet_terminal_stays_quiet [of l s s' h c 0 "Some x"]
    by (simp add: wallet_quiet_def)
next
  case (7 s h a)
  then show ?case by (rule wallet.finished_commit)
next
  case (8 s h)
  then show ?case by (rule wallet.finished_release)
next
  case (12 s c ev err s' h)
  then show ?case
    using wallet.record_neutral [of l s c ev err s' "int k" h] wallet_record_stays_quiet [of l s s' c ev err]
    by (simp add: wallet_quiet_def)
next
  case (13 s e)
  then show ?case using wallet_reserve_decides [of l s e "int k"] by auto
next
  case (14 s e)
  then show ?case using wallet_reserve_decides [of l s e "int k"] by auto
next
  case (15 s h r a)
  then obtain t where t: "wallet_commit l h background a s = (None, t)"
    using wallet_commit_quiet [of l s h r a] by (auto simp: wallet_used_def)
  then show ?case
    using wallet_commit_exact [of l s h r background a t "int k"] 15(1,2) by (auto simp: wallet_quiet_def)
next
  case (16 s h r)
  then obtain t where t: "wallet_release l h background s = (None, t)"
    using wallet_release_quiet [of l s h r] by auto
  then show ?case
    using wallet_release_exact [of l s h r background t "int k"] 16(1,2) by (auto simp: wallet_quiet_def)
qed simp_all

end
