(* ===== verification/WalletSpec.thy ===== *)
theory WalletSpec
  imports WalletQuiet LocalSpec
begin

text \<open>
  What the wallets promise (\<open>nexssflow/wallet.go\<close>): the books balance whatever fails, a
  reservation is debited at most once, a commit succeeds exactly when the lease is alive
  and the balance covers it, and the contract test passes.
\<close>

section \<open>The books\<close>

definition entry_sum :: "entry_type \<Rightarrow> string \<Rightarrow> wallet_entry list \<Rightarrow> int" where
  "entry_sum ty w rows = (\<Sum>x\<leftarrow>filter (\<lambda>x. we_wallet x = w \<and> we_type x = ty) rows. sint (we_amount x))"

lemma entry_sum_simps [simp]:
  "entry_sum ty w [] = 0"
  "entry_sum ty w (rows @ rows') = entry_sum ty w rows + entry_sum ty w rows'"
  "entry_sum ty w [x] = (if we_wallet x = w \<and> we_type x = ty then sint (we_amount x) else 0)"
  by (simp_all add: entry_sum_def)

text \<open>
  The books of a wallet balance: the balance is what was credited less what was debited, and
  what is held is the sum of the open leases, which the balance covers.
\<close>

definition wallet_books :: "string \<Rightarrow> wallet_db \<Rightarrow> bool" where
  "wallet_books w db \<longleftrightarrow> wallet_ok w db
     \<and> bal w db = entry_sum Credit w (wd_entries db) - entry_sum Debit w (wd_entries db)"

datatype wallet_call =
    WReserve gctx i64
  | WCommit nat gctx i64
  | WRelease nat gctx
  | WRecord gctx event
  | WCredit i64 string string
  | WWait nat

fun wallet_run1 :: "wallet_ledger \<Rightarrow> wallet_call \<Rightarrow> wallet_db backend \<Rightarrow> wallet_db backend" where
  "wallet_run1 l (WReserve c e) s = snd (wallet_reserve l c e s)"
| "wallet_run1 l (WCommit h c a) s = snd (wallet_commit l h c a s)"
| "wallet_run1 l (WRelease h c) s = snd (wallet_release l h c s)"
| "wallet_run1 l (WRecord c ev) s = snd (wallet_record l c ev s)"
| "wallet_run1 l (WCredit a key src) s =
     (case credit_wallet (wl_wallet l) a key src (be_now s) (be_data s) of
        Inl _ \<Rightarrow> s | Inr db \<Rightarrow> s\<lparr>be_data := db\<rparr>)"
| "wallet_run1 l (WWait n) s = s\<lparr>be_now := be_now s + int n\<rparr>"

fun wallet_run :: "wallet_ledger \<Rightarrow> wallet_call list \<Rightarrow> wallet_db backend \<Rightarrow> wallet_db backend" where
  "wallet_run l [] s = s"
| "wallet_run l (c # cs) s = wallet_run l cs (wallet_run1 l c s)"

section \<open>Lemmas\<close>

lemma wallet_books_cong:
  assumes "wallet_books w db" and "wallet_ok w db'" and "bal w db' = bal w db" and "wd_entries db' = wd_entries db"
  shows "wallet_books w db'"
  using assms by (simp add: wallet_books_def)

lemma reserve_books:
  assumes "wallet_books (wl_wallet l) (be_data s)" and "wallet_reserve l c e s = (res, t)"
  shows "wallet_books (wl_wallet l) (be_data t)"
proof -
  let ?w = "wl_wallet l"
  have ok: "wallet_ok ?w (be_data s)" using assms(1) by (simp add: wallet_books_def)
  have put: "wallet_books ?w db'"
    if "wallet_freed ?w (be_now s) (be_data s) db" and "wallet_leased ?w r db db'" for r db db'
    using that by (intro wallet_books_cong [OF assms(1)]) (simp_all add: wallet_freed_def wallet_leased_def)
  have freed: "wallet_books ?w db" if "wallet_freed ?w (be_now s) (be_data s) db" for db
    using that by (intro wallet_books_cong [OF assms(1)]) (simp_all add: wallet_freed_def)
  show ?thesis
    using wallet_reserve_state [OF assms(2) ok] put freed assms(1) by (cases res) auto
qed

text \<open>A terminal operation with a charge, and the row it writes.\<close>

definition charges :: "wallet_ledger \<Rightarrow> (string \<Rightarrow> wallet_db backend \<Rightarrow> (gerr + unit) \<times> wallet_db backend)
    \<Rightarrow> i64 \<Rightarrow> bool \<Rightarrow> bool" where
  "charges l oper a live \<longleftrightarrow> 0 \<le> sint a \<and> (\<forall>i s res u. wallet_ok (wl_wallet l) (be_data s) \<longrightarrow> oper i s = (res, u) \<longrightarrow>
     settles_as s res u (wallet_settled l i (sint a) live (be_now s) (debit_rows l i a (be_now s)) (be_data s)))"

lemma charges_commit: "0 \<le> sint a \<Longrightarrow> charges l (wallet_commit_tx l a) a True"
  using wallet_commit_tx_state by (simp add: charges_def)

lemma charges_release: "charges l (wallet_release_tx l) 0 False"
  using wallet_release_tx_state by (simp add: charges_def debit_rows_def i64_simps)

lemma debit_rows_sum [simp]:
  "0 \<le> sint a \<Longrightarrow> entry_sum Debit (wl_wallet l) (debit_rows l i a now) = sint a"
  "entry_sum Credit w (debit_rows l i a now) = 0"
  by (auto simp: debit_rows_def debit_entry_def i64_simps)

text \<open>The object and its lease, before and after.\<close>

abbreviation object_id :: "'d backend \<Rightarrow> nat \<Rightarrow> string" where
  "object_id s h \<equiv> ro_id (be_objs s ! h)"

lemma once_charges:
  assumes "wallet_ok (wl_wallet l) (be_data s)" and "charges l oper a live" and "once h oper s = (err, t)"
  shows "wallet_ok (wl_wallet l) (be_data t)
    \<and> (h < length (be_objs s) \<longrightarrow> h < length (be_objs t) \<and> object_id t h = object_id s h)
    \<and> (be_data t = be_data s
       \<or> wallet_settled l (object_id s h) (sint a) live (be_now s) (debit_rows l (object_id s h) a (be_now s)) (be_data s) (be_data t))"
proof (cases "ro_done (be_objs s ! h)")
  case True
  then show ?thesis using assms(1,3) by (simp add: once_done)
next
  case False
  have op: "settles_as s res u (wallet_settled l (object_id s h) (sint a) live (be_now s)
        (debit_rows l (object_id s h) a (be_now s)) (be_data s))"
    if "oper (object_id s h) s = (res, u)" for res u
    using assms(1,2) that unfolding charges_def by blast
  from once_open [OF False assms(3)] show ?thesis
  proof (elim disjE exE conjE)
    fix e
    assume "oper (object_id s h) s = (Inl e, t)"
    from op [OF this] show ?thesis
      using assms(1) by (auto simp: settles_as_def wallet_settled_def same_client_def)
  next
    fix u
    assume "oper (object_id s h) s = (Inr (), u)"
      and t: "t = u\<lparr>be_objs := (be_objs u)[h := (be_objs s ! h)\<lparr>ro_done := True\<rparr>]\<rparr>"
    from op [OF this(1)] show ?thesis
      by (auto simp: t settles_as_def wallet_settled_def same_client_def)
  qed
qed

lemma commit_charges:
  assumes "wallet_ok (wl_wallet l) (be_data s)" and "wallet_commit l h c a s = (err, t)"
  shows "wallet_ok (wl_wallet l) (be_data t)
    \<and> (h < length (be_objs s) \<longrightarrow> h < length (be_objs t) \<and> object_id t h = object_id s h)
    \<and> (be_data t = be_data s
       \<or> wallet_settled l (object_id s h) (max 0 (sint a)) True (be_now s)
           (debit_rows l (object_id s h) (clamp0 a) (be_now s)) (be_data s) (be_data t))"
  using wallet_commit_cases [OF assms(2)]
    once_charges [OF assms(1) charges_commit [OF clamp0_nonneg [of a]], of h err t] assms(1)
  by (auto simp: sint_clamp0)

lemma release_charges:
  assumes "wallet_ok (wl_wallet l) (be_data s)" and "wallet_release l h c s = (err, t)"
  shows "wallet_ok (wl_wallet l) (be_data t)
    \<and> (h < length (be_objs s) \<longrightarrow> h < length (be_objs t) \<and> object_id t h = object_id s h)
    \<and> (be_data t = be_data s
       \<or> wallet_settled l (object_id s h) 0 False (be_now s) (debit_rows l (object_id s h) 0 (be_now s)) (be_data s) (be_data t))"
  using wallet_release_cases [OF assms(2)] once_charges [OF assms(1) charges_release, of h err t] assms(1)
  by auto

lemma settled_books:
  assumes "wallet_books (wl_wallet l) db"
    and "wallet_settled l i (sint a) live now (debit_rows l i a now) db db'" and "0 \<le> sint a"
  shows "wallet_books (wl_wallet l) db'"
  using assms by (auto simp: wallet_books_def wallet_settled_def)

lemma credit_books:
  assumes "wallet_books w db" and "credit_wallet w a key src now db = Inr db'"
  shows "wallet_books w db'"
proof (cases "entry_exists w key (wd_entries db)")
  case True
  then show ?thesis using assms by (auto simp: credit_wallet_def split: option.splits if_splits)
next
  case False
  have row: "wd_wallets db w \<noteq> None" using assms(1) by (simp add: wallet_books_def wallet_ok_def)
  let ?db = "db\<lparr>wd_entries := wd_entries db @ [\<lparr>we_wallet = w, we_type = Credit, we_amount = a,
     we_key = key, we_source = Some src, we_domain = None, we_operation = None, we_recorded = now\<rparr>]\<rparr>"
  have set: "sql_set_wallet w (\<lambda>b. b + sint a) (\<lambda>r. r) now ?db = Inr db'"
    using False assms(2) by (auto simp: credit_wallet_def split: option.splits if_splits)
  from sql_set_wallet_effect [OF this] show ?thesis
    using row assms(1) by (auto simp: wallet_books_def wallet_ok_def)
qed

lemma wallet_run1_books:
  assumes "wallet_books (wl_wallet l) (be_data s)"
  shows "wallet_books (wl_wallet l) (be_data (wallet_run1 l c s))"
proof -
  have ok: "wallet_ok (wl_wallet l) (be_data s)" using assms by (simp add: wallet_books_def)
  show ?thesis
  proof (cases c)
    case (WReserve x e)
    obtain res t where r: "wallet_reserve l x e s = (res, t)" by fastforce
    then show ?thesis using reserve_books [OF assms r] WReserve by simp
  next
    case (WCommit h x a)
    obtain err t where r: "wallet_commit l h x a s = (err, t)" by fastforce
    then show ?thesis
      using commit_charges [OF ok r] settled_books [OF assms, of _ "clamp0 a"] assms WCommit
      by (auto simp: sint_clamp0)
  next
    case (WRelease h x)
    obtain err t where r: "wallet_release l h x s = (err, t)" by fastforce
    then show ?thesis
      using release_charges [OF ok r] settled_books [OF assms, of _ 0] assms WRelease by auto
  next
    case (WRecord x ev)
    obtain err t where r: "wallet_record l x ev s = (err, t)" by fastforce
    then show ?thesis
      using wallet_record_state [OF r] assms WRecord
      by (simp add: wallet_books_def wallet_ok_def bal_def hold_def)
  next
    case (WCredit a key src)
    then show ?thesis using credit_books [OF assms] assms by (auto split: sum.split)
  next
    case (WWait n)
    then show ?thesis using assms by simp
  qed
qed

section \<open>Properties\<close>

text \<open>
  C18.  The books of a wallet balance and it is never overdrawn.  Whatever is called, with
  any failures of the database, lost answers included, any delays and any top-ups in
  between, the balance stays the sum of the credits less the sum of the debits, what is
  held stays the sum of the open leases, and the balance covers what is held.
\<close>

theorem wallet_books_balance:
  assumes "wallet_books (wl_wallet l) (be_data s)"
  shows "wallet_books (wl_wallet l) (be_data (wallet_run l cs s))
    \<and> 0 \<le> hold (wl_wallet l) (be_data (wallet_run l cs s))
    \<and> hold (wl_wallet l) (be_data (wallet_run l cs s)) \<le> bal (wl_wallet l) (be_data (wallet_run l cs s))"
  using assms
proof (induction cs arbitrary: s)
  case Nil
  then show ?case
    using owed_nonneg [of "wd_leases (be_data s)" "wl_wallet l"] by (auto simp: wallet_books_def wallet_ok_def)
next
  case (Cons c cs)
  then show ?case using wallet_run1_books by simp
qed

definition sample_wallet :: wallet_ledger where
  "sample_wallet = \<lparr>wl_db = True, wl_identity = \<lparr>wi_tenant = ''acme'', wi_user = ''alex'', wi_wallet = ''w1''\<rparr>,
     wl_currency = USD, wl_ttl = 600000000000, wl_domain = ''support'', wl_operation = ''draft''\<rparr>"

definition sample_credit :: wallet_entry where
  "sample_credit = \<lparr>we_wallet = ''w1'', we_type = Credit, we_amount = 100, we_key = ''invoice'',
     we_source = Some ''top_up'', we_domain = None, we_operation = None, we_recorded = 0\<rparr>"

definition sample_wallet_db :: wallet_db where
  "sample_wallet_db = \<lparr>wd_tenants = [''acme'' \<mapsto> active], wd_users = [(''acme'', ''alex'') \<mapsto> active],
     wd_wallets = [''w1'' \<mapsto> \<lparr>wr_tenant = ''acme'', wr_user = ''alex'', wr_currency = ''USD'', wr_balance = 100,
        wr_reserved = 0, wr_status = active, wr_updated = 0\<rparr>],
     wd_leases = [], wd_entries = [sample_credit], wd_usage = []\<rparr>"

abbreviation sample_server :: "outcome list \<Rightarrow> wallet_db backend" where
  "sample_server \<equiv> empty_server sample_wallet_db"

lemma sample_books: "wallet_books (wl_wallet sample_wallet) (be_data (sample_server xs))"
  by (simp add: wallet_books_def wallet_ok_def good_leases_def bal_def hold_def sample_wallet_def
      empty_server_def sample_wallet_db_def entry_sum_def sample_credit_def)

lemma sample_wallet_id [simp]: "wl_wallet sample_wallet = ''w1''"
  by (simp add: sample_wallet_def)

text \<open>A reservation, a commit that fails at its last call, a top-up, and a retry.\<close>

definition sample_calls :: "wallet_call list" where
  "sample_calls = [WReserve background 60, WCommit 0 background 70, WCredit 5 ''k'' ''top_up'',
     WCommit 0 background 50, WWait 9]"

theorem wallet_books_balance_witness:
  "wallet_books ''w1'' (be_data (wallet_run sample_wallet sample_calls
     (sample_server (replicate 6 Fine @ [Fails ''down'']))))"
  using wallet_books_balance [OF sample_books [of "replicate 6 Fine @ [Fails ''down'']"], of sample_calls]
  by simp

fun wallet_terminal :: "wallet_ledger \<Rightarrow> nat \<Rightarrow> gctx \<times> terminal \<Rightarrow> wallet_db backend \<Rightarrow> gerr option \<times> wallet_db backend" where
  "wallet_terminal l h (c, TCommit a) s = wallet_commit l h c a s"
| "wallet_terminal l h (c, TRelease) s = wallet_release l h c s"

fun wallet_terminals :: "wallet_ledger \<Rightarrow> nat \<Rightarrow> (gctx \<times> terminal) list \<Rightarrow> wallet_db backend \<Rightarrow> wallet_db backend" where
  "wallet_terminals l h [] s = s"
| "wallet_terminals l h (x # xs) s = wallet_terminals l h xs (snd (wallet_terminal l h x s))"

fun terminal_debit :: "gctx \<times> terminal \<Rightarrow> int" where
  "terminal_debit (c, TCommit a) = max 0 (sint a)"
| "terminal_debit (c, TRelease) = 0"

lemma wallet_terminal_step:
  assumes "wallet_ok (wl_wallet l) (be_data s)" and "h < length (be_objs s)" and "wallet_terminal l h x s = (err, t)"
  shows "wallet_ok (wl_wallet l) (be_data t) \<and> h < length (be_objs t) \<and> object_id t h = object_id s h
    \<and> (be_data t = be_data s
       \<or> bal (wl_wallet l) (be_data t) = bal (wl_wallet l) (be_data s) - terminal_debit x
         \<and> lease_of (object_id s h) (wd_leases (be_data s)) \<noteq> None
         \<and> lease_of (object_id s h) (wd_leases (be_data t)) = None)"
proof -
  have gone: "lease_of i (filter (\<lambda>x. le_id x \<noteq> i) rows) = None" for i and rows :: "lease list"
    by (auto simp: lease_of_None)
  obtain c y where x: "x = (c, y)" by fastforce
  show ?thesis
  proof (cases y)
    case (TCommit a)
    then show ?thesis
      using commit_charges [OF assms(1), of h c a err t] assms(2,3) gone x by (auto simp: wallet_settled_def)
  next
    case TRelease
    then show ?thesis
      using release_charges [OF assms(1), of h c err t] assms(2,3) gone x by (auto simp: wallet_settled_def)
  qed
qed

lemma wallet_terminals_after:
  assumes "wallet_ok (wl_wallet l) (be_data s)" and "h < length (be_objs s)"
    and "lease_of (object_id s h) (wd_leases (be_data s)) = None"
  shows "be_data (wallet_terminals l h xs s) = be_data s"
  using assms
proof (induction xs arbitrary: s)
  case (Cons x xs)
  obtain err t where t: "wallet_terminal l h x s = (err, t)" by fastforce
  then show ?case
    using wallet_terminal_step [OF Cons.prems(1,2) t] Cons.IH [of t] Cons.prems(3) by auto
qed simp

text \<open>
  C19.  A reservation is debited at most once.  Any sequence of commits and releases on one
  reservation lowers the balance by nothing or by the amount of one of the commits, also
  when the database fails or its answers are lost.
\<close>

theorem wallet_debited_at_most_once:
  assumes "wallet_ok (wl_wallet l) (be_data s)" and "h < length (be_objs s)"
  shows "bal (wl_wallet l) (be_data s) - bal (wl_wallet l) (be_data (wallet_terminals l h xs s))
    \<in> insert 0 (terminal_debit ` set xs)"
  using assms
proof (induction xs arbitrary: s)
  case Nil
  then show ?case by simp
next
  case (Cons x xs)
  obtain err t where t: "wallet_terminal l h x s = (err, t)" by fastforce
  note st = wallet_terminal_step [OF Cons.prems t]
  show ?case
  proof (cases "be_data t = be_data s")
    case True
    then show ?thesis using Cons.IH [of t] st t by auto
  next
    case False
    then have "be_data (wallet_terminals l h xs t) = be_data t"
      using wallet_terminals_after [of l t h xs] st by simp
    then show ?thesis using st False t by auto
  qed
qed

text \<open>A commit of 50 whose answer is lost, and a retry with 55.\<close>

definition lost_commit :: "wallet_db backend" where
  "lost_commit = snd (wallet_reserve sample_wallet background 60 (sample_server (replicate 6 Fine @ replicate 5 Fine @ [Lost ''timeout''])))"

theorem wallet_debited_at_most_once_witness:
  "bal ''w1'' (be_data lost_commit) - bal ''w1'' (be_data (wallet_terminals sample_wallet 0
     [(background, TCommit 50), (background, TCommit 55)] lost_commit)) \<in> {0, 50, 55}"
proof -
  let ?s = "sample_server (replicate 6 Fine @ replicate 5 Fine @ [Lost ''timeout''])"
  have w: "wl_wallet sample_wallet = ''w1''" by (simp add: sample_wallet_def)
  obtain res where "wallet_reserve sample_wallet background 60 ?s = (res, lost_commit)"
    by (metis prod.collapse lost_commit_def)
  from reserve_books [OF sample_books this] have "wallet_ok (wl_wallet sample_wallet) (be_data lost_commit)"
    by (simp add: wallet_books_def)
  moreover have "length (be_objs lost_commit) = 1" by code_simp
  ultimately show ?thesis
    using wallet_debited_at_most_once [of sample_wallet lost_commit 0 "[(background, TCommit 50), (background, TCommit 55)]"] w
    by simp
qed

text \<open>
  C20.  When a wallet commit is accepted.  With a database that answers, on a reservation
  that is not yet settled, a commit succeeds exactly when the lease has not expired and the
  balance covers the actual cost next to what the other reservations hold.  Then the
  balance falls by the cost and one debit entry is written (none for a cost of zero).
  Otherwise nothing changes, and the error says that the reservation is gone or that the
  balance does not suffice.
\<close>

theorem wallet_commit_decision:
  assumes "be_outcomes s = []" and "wallet_ok (wl_wallet l) (be_data s)" and "wallet_open l (be_data s)"
    and "h < length (be_objs s)" and "\<not> ro_done (be_objs s ! h)"
    and "\<not> entry_exists (wl_wallet l) (object_id s h) (wd_entries (be_data s))"
    and "wallet_commit l h background a s = (err, t)"
  shows "case live_lease l (object_id s h) (be_now s) (wd_leases (be_data s)) of
       None \<Rightarrow> t = s \<and> (\<exists>e. err = Some e \<and> errors_is e ErrReservationNotFound)
     | Some r \<Rightarrow>
         let w = wl_wallet l; available = bal w (be_data s) - (hold w (be_data s) - sint (le_amount r));
             cost = max 0 (sint a) in
         if available < cost then t = s \<and> (\<exists>e. err = Some e \<and> errors_is e ErrBudgetExceeded)
         else err = None \<and> bal w (be_data t) = bal w (be_data s) - cost
           \<and> hold w (be_data t) = hold w (be_data s) - sint (le_amount r)
           \<and> wd_leases (be_data t) = filter (\<lambda>x. le_id x \<noteq> object_id s h) (wd_leases (be_data s))
           \<and> wd_entries (be_data t) = wd_entries (be_data s)
               @ (if 0 < cost then [debit_entry l (object_id s h) a (be_now s)] else [])
           \<and> ro_done (be_objs t ! h)"
proof -
  have once: "once h (wallet_commit_tx l (clamp0 a)) s = (err, t)"
    using assms(7) by (simp add: wallet_commit_def validate_wallet_context_def)
  note body = wallet_commit_tx_quiet [OF assms(1-3) clamp0_nonneg [of a] assms(6)]
  show ?thesis
  proof (cases "live_lease l (object_id s h) (be_now s) (wd_leases (be_data s))")
    case None
    then show ?thesis using body once assms(5) by (auto simp: once_def Let_def)
  next
    case (Some r)
    then have r: "lease_of (object_id s h) (wd_leases (be_data s)) = Some r"
      by (auto simp: live_lease_def split: option.splits if_splits)
    show ?thesis
    proof (cases "bal (wl_wallet l) (be_data s) - (hold (wl_wallet l) (be_data s) - sint (le_amount r)) < max 0 (sint a)")
      case True
      then show ?thesis using body Some once assms(5) by (auto simp: once_def Let_def sint_clamp0)
    next
      case False
      then obtain u where u: "wallet_commit_tx l (clamp0 a) (object_id s h) s = (Inr (), u)"
        using body Some by (auto simp: sint_clamp0)
      have "wallet_settled l (object_id s h) (sint (clamp0 a)) True (be_now s)
          (debit_rows l (object_id s h) (clamp0 a) (be_now s)) (be_data s) (be_data u)"
        and same: "same_client s u"
        using wallet_commit_tx_state [OF u assms(2)] by (auto simp: settles_as_def)
      moreover have "debit_rows l (object_id s h) (clamp0 a) (be_now s)
          = (if 0 < max 0 (sint a) then [debit_entry l (object_id s h) a (be_now s)] else [])"
        by (auto simp: debit_rows_def clamp0_def i64_simps)
      ultimately show ?thesis
        using once u assms(4,5) False Some r
        by (auto simp: once_def wallet_settled_def Let_def sint_clamp0 same_client_def)
    qed
  qed
qed

definition sample_open :: "wallet_db backend" where
  "sample_open = snd (wallet_reserve sample_wallet background 60 (sample_server []))"

lemma sample_open_ok: "wallet_ok (wl_wallet sample_wallet) (be_data sample_open)"
  using reserve_books [OF sample_books, of background 60 "[]" "fst (wallet_reserve sample_wallet background 60 (sample_server []))" sample_open]
  by (simp add: sample_open_def wallet_books_def)

lemma sample_open_eval:
  "be_outcomes sample_open = []" "wallet_open sample_wallet (be_data sample_open)"
  "length (be_objs sample_open) = 1" "\<not> ro_done (be_objs sample_open ! 0)"
  "\<not> entry_exists ''w1'' (object_id sample_open 0) (wd_entries (be_data sample_open))"
  "map_option le_amount (live_lease sample_wallet (object_id sample_open 0) (be_now sample_open)
     (wd_leases (be_data sample_open))) = Some 60"
  "bal ''w1'' (be_data sample_open) = 100" "hold ''w1'' (be_data sample_open) = 60"
  by code_simp+

text \<open>The wallet holds 100 and nothing else is reserved: 100 is covered, 101 is not.\<close>

theorem wallet_commit_decision_witness:
  "fst (wallet_commit sample_wallet 0 background 100 sample_open) = None
   \<and> errors_is (the (fst (wallet_commit sample_wallet 0 background 101 sample_open))) ErrBudgetExceeded"
proof -
  have pre: "\<not> entry_exists (wl_wallet sample_wallet) (object_id sample_open 0) (wd_entries (be_data sample_open))"
    "0 < length (be_objs sample_open)"
    using sample_open_eval(3,5) by simp_all
  obtain r where r: "live_lease sample_wallet (object_id sample_open 0) (be_now sample_open)
     (wd_leases (be_data sample_open)) = Some r" "le_amount r = 60"
    using sample_open_eval(6) by auto
  note dec = wallet_commit_decision [OF sample_open_eval(1) sample_open_ok sample_open_eval(2) pre(2)
      sample_open_eval(4) pre(1) prod.collapse [symmetric]]
  show ?thesis
    using dec [of 100] dec [of 101] r sample_open_eval(7,8) by (auto simp: Let_def)
qed

text \<open>
  A wallet passes the contract test of the test kit: whenever 100 are available in an
  open wallet and the database answers, every step of the test succeeds, whoever else holds
  reservations on the wallet.
\<close>

theorem wallet_passes_contract:
  assumes "wallet_quiet l s" and "bal (wl_wallet l) (be_data s) - hold (wl_wallet l) (be_data s) = 100"
  shows "run_contract (wallet_reserver l) s = None"
  using assms(1)
proof (rule wallet_prompt.run_contract_passes)
  show "wallet_used (int 100) l s = 0" using assms(2) by (simp add: wallet_used_def)
qed simp_all

lemma sample_quiet: "wallet_quiet sample_wallet (sample_server [])"
proof -
  have "replicate m (CHR ''0'') \<noteq> ''invoice''" for m by (cases m) simp_all
  then have "fresh_ids (wallet_ids sample_wallet_db) (sample_server [])"
    by (intro fresh_counting) (simp_all add: empty_server_def wallet_ids_def sample_wallet_db_def sample_credit_def)
  moreover have "wallet_inv sample_wallet (sample_server [])"
    using sample_books [of "[]"] by (simp add: wallet_books_def wallet_inv_def empty_server_def no_lost_def objs_owned_def)
  moreover have "wallet_open sample_wallet sample_wallet_db" by code_simp
  ultimately show ?thesis
    by (simp add: wallet_quiet_def) (simp add: empty_server_def sample_wallet_db_def sample_wallet_def)
qed

theorem wallet_passes_contract_witness:
  "run_contract (wallet_reserver sample_wallet) (sample_server []) = None"
  by (rule wallet_passes_contract [OF sample_quiet]) (simp add: empty_server_def bal_def hold_def sample_wallet_db_def)

end
