(* ===== verification/DurableLemmas.thy ===== *)
theory DurableLemmas
  imports Durable PostgresSpec WalletSpec
begin

text \<open>
  Lemmas about the durable quota middleware (\<open>nexssflow/postgres.go\<close>): the reservation
  around an action on any ledger that keeps the contract, and the requests that the
  properties are tried on.
\<close>

section \<open>A reservation around an action\<close>

fun action_failed :: "flow_end \<Rightarrow> bool" where
  "action_failed Panics = True"
| "action_failed (Returns _ err) = (err \<noteq> None)"

lemma finish_reservation_eq: "finish_reservation = finish_context"
  by (intro ext) (simp add: finish_reservation_def finish_context_def)

lemma join_not_same: "join_errors (Some e) w \<noteq> e"
proof
  assume "join_errors (Some e) w = e"
  then have "size (ErrorsJoin [e, w]) = size e" by (simp add: join_errors_def)
  then show False by simp
qed

context reserver_contract
begin

text \<open>The action failed: unless the cleanup is reported as failed too, nothing is left in use.\<close>

lemma quota_failure:
  assumes "inv s2" and "held s2 h = Some r" and "act ctx input s1 = (x, s2)" and "action_failed x"
    and "quota_body wrap finish R h est act ctx input s1 = ((res, settled), s3)"
    and "quota_deferred R ctx h wrap' logged res settled s3 = ((res', log), s4)"
  shows "inv s4 \<and> (if res' = x \<and> log = [] then finished s4 h \<and> used s4 \<le> used s2 - r else used s4 \<le> used s2)"
proof -
  have body: "res = x" "\<not> settled" "s3 = s2"
    using assms(3-5) by (auto simp: quota_body_def split: flow_end.splits option.splits)
  obtain err s where f: "finish_context R ctx h False 0 s2 = (err, s)" by fastforce
  note acc = release_accounts [OF assms(1,2) f]
  show ?thesis
  proof (cases err)
    case None
    then show ?thesis
      using assms(6) f acc body by (simp add: quota_deferred_def finish_reservation_eq)
  next
    case (Some e)
    then have "s4 = s" "\<not> (res' = x \<and> log = [])"
      using assms(4,6) f body join_not_same
      by (auto simp: quota_deferred_def finish_reservation_eq split: flow_end.splits)
    then show ?thesis using acc Some by auto
  qed
qed

text \<open>The action succeeded and so did the commit: what is reported, or the estimate, is charged.\<close>

lemma quota_success:
  assumes "inv s2" and "held s2 h = Some r" and "act ctx input s1 = (Returns out None, s2)"
    and "actual = (case reported_cost out of Some c \<Rightarrow> clamp0 c | None \<Rightarrow> est)"
    and "used s2 - r + max 0 (sint actual) \<le> cap"
    and "\<And>s res s'. inv s \<Longrightarrow> finish out actual s = (res, s') \<Longrightarrow>
        inv s' \<and> used s' = used s \<and> finished s' h = finished s h"
    and "Commit R h background actual s2 = (None, s3)"
    and "quota_body wrap finish R h est act ctx input s1 = ((res, settled), s4)"
    and "quota_deferred R ctx h wrap' logged res settled s4 = ((res', log), s5)"
  shows "inv s5 \<and> finished s5 h \<and> used s5 = used s3 \<and> log = [] \<and> finish out actual s3 = (res', s5)"
proof -
  obtain res0 s0 where fin: "finish out actual s3 = (res0, s0)" by fastforce
  have "quota_body wrap finish R h est act ctx input s1 = ((res0, True), s0)"
    using assms(3,4,7) fin by (simp add: quota_body_def finish_reservation_def accounting_ctx_def Let_def)
  then show ?thesis
    using assms(8,9) fin commit_ok [OF assms(1,2,7,5)] assms(6) [of s3 res0 s0]
    by (auto simp: quota_deferred_def)
qed

text \<open>Recording the event does not change the account.\<close>

lemma quota_finish_neutral:
  assumes "inv s" and "quota_finish mode name cur R ctx out actual s = (res, s')"
  shows "inv s' \<and> used s' = used s \<and> finished s' h = finished s h"
proof (cases "s' = s")
  case False
  obtain d op where d: "action_domain_operation name = (d, op)" by fastforce
  obtain err t where "RecordEvent R background ((action_event d op actual)\<lparr>ev_currency := cur\<rparr>) s = (err, t)" by fastforce
  then show ?thesis
    using record_neutral [OF assms(1)] assms(2) False d
    by (auto simp: quota_finish_def accounting_ctx_def split: if_splits option.splits)
qed (use assms(1) in simp)

end

fun is_object :: "flow_value \<Rightarrow> bool" where
  "is_object (FOther _ _) = False"
| "is_object _ = True"

text \<open>How the rest of the body ends.\<close>

lemma quota_finish_result:
  assumes "quota_finish mode name cur R ctx out actual s = (res, t)"
  shows "case res of
      Returns v None \<Rightarrow> set_quota_state out True
        (if 0 < sint actual \<and> mode = ''wallet'' then ''wallet_charged'' else ''reserved'') = Inr v
    | Returns v (Some e) \<Rightarrow> v = flow_nil \<and> (is_object out \<longrightarrow> 0 < sint actual \<and> mode \<noteq> ''wallet'')
    | Panics \<Rightarrow> False"
  using assms
  by (cases out)
    (auto simp: quota_finish_def set_quota_state_def i64_simps Let_def split: if_splits prod.splits option.splits)

lemma quota_finish_exact:
  assumes "quota_finish mode name cur R ctx out actual s = (res, t)"
  shows "res = (if 0 < sint actual \<and> mode \<noteq> ''wallet''
    then case fst (RecordEvent R (accounting_ctx ctx) ((action_event (fst (action_domain_operation name))
        (snd (action_domain_operation name)) actual)\<lparr>ev_currency := cur\<rparr>) s) of
        Some e \<Rightarrow> Returns flow_nil (Some (wrapf ''cost: record durable usage: %w'' e))
      | None \<Rightarrow> return_result (set_quota_state out True ''reserved'')
    else return_result (set_quota_state out True (if 0 < sint actual then ''wallet_charged'' else ''reserved'')))"
  using assms by (auto simp: quota_finish_def i64_simps Let_def split: if_splits prod.splits option.splits)

text \<open>What the middleware does once the reservation is granted.\<close>

lemma quota_granted:
  assumes "resolve spec (flow_gval input) = Inr est" and "ledger_for ctx input s = (Inr (R, denied), s0)"
    and "Reserve R ctx est s0 = (Inr h, s1)"
    and "quota_middleware mode cur ledger_for spec name act ctx input s = ((res, log), t)"
  obtains res0 settled s2
  where "quota_body (\<lambda>e. Errorf ''cost: settle %s reservation: %w'' [FStr mode, FErr e])
      (quota_finish mode name cur R ctx) R h est act ctx input s1 = ((res0, settled), s2)"
    and "quota_deferred R ctx h (\<lambda>e. Errorf ''cost: release %s reservation: %w'' [FStr mode, FErr e])
      ''failed to release PostgreSQL reservation after panic'' res0 settled s2 = ((res, log), t)"
proof -
  obtain res0 settled s2
    where "quota_body (\<lambda>e. Errorf ''cost: settle %s reservation: %w'' [FStr mode, FErr e])
      (quota_finish mode name cur R ctx) R h est act ctx input s1 = ((res0, settled), s2)"
    by (metis prod.collapse)
  with that assms show ?thesis by (simp add: quota_middleware_def)
qed

text \<open>On a prompt ledger an action that succeeds is settled.\<close>

lemma quota_settled:
  assumes prompt: "prompt_reserver R valid used limit held finished cap" and "valid s0"
    and "resolve spec (flow_gval input) = Inr est" and "0 < sint est"
    and "ledger_for ctx input s = (Inr (R, denied), s0)" and "Reserve R ctx est s0 = (Inr h, s1)"
    and "act ctx input s1 = (Returns out None, s2)" and "valid s2" and "held s2 h = held s1 h"
    and actual: "actual = (case reported_cost out of Some c \<Rightarrow> clamp0 c | None \<Rightarrow> est)"
    and "used s2 - sint est + max 0 (sint actual) \<le> cap"
    and "0 \<le> limit s2 \<longrightarrow> used s2 - sint est + max 0 (sint actual) \<le> limit s2"
    and "quota_middleware mode cur ledger_for spec name act ctx input s = ((res, log), t)"
  shows "valid t \<and> finished t h \<and> used t = used s2 - sint est + max 0 (sint actual) \<and> log = []
    \<and> (\<exists>s3. valid s3 \<and> Commit R h background actual s2 = (None, s3)
          \<and> quota_finish mode name cur R ctx out actual s3 = (res, t))"
proof -
  note contract = prompt_reserver.axioms(1) [OF prompt]
  have held: "held s2 h = Some (sint est)"
    using reserver_contract.reserve_ok [OF contract assms(2,6)] assms(9) by simp
  obtain s3 where commit: "Commit R h background actual s2 = (None, s3)"
    and used: "used s3 = used s2 - sint est + max 0 (sint actual)"
    using prompt_reserver.commit_prompt [OF prompt assms(8) held assms(4,11,12)] by blast
  from quota_granted [OF assms(3,5,6,13)] obtain res0 settled s4
    where run: "quota_body (\<lambda>e. Errorf ''cost: settle %s reservation: %w'' [FStr mode, FErr e])
      (quota_finish mode name cur R ctx) R h est act ctx input s1 = ((res0, settled), s4)"
    "quota_deferred R ctx h (\<lambda>e. Errorf ''cost: release %s reservation: %w'' [FStr mode, FErr e])
      ''failed to release PostgreSQL reservation after panic'' res0 settled s4 = ((res, log), t)" .
  have "valid t \<and> finished t h \<and> used t = used s3 \<and> log = [] \<and> quota_finish mode name cur R ctx out actual s3 = (res, t)"
    by (rule reserver_contract.quota_success [where act = act and ctx = ctx and input = input,
          OF contract assms(8) held assms(7) actual assms(11) _ commit run])
      (rule reserver_contract.quota_finish_neutral [OF contract])
  moreover have "valid s3" using reserver_contract.commit_ok [OF contract assms(8) held commit assms(11)] by blast
  ultimately show ?thesis using used commit by auto
qed

section \<open>Example requests\<close>

context prompt_reserver
begin

text \<open>A reservation that fits is granted; the state is what the properties ask for.\<close>

lemma reserve_exact:
  assumes "inv s" and "0 < sint e" and "sint e \<le> sint MaxEstimate"
    and "used s + sint e \<le> cap" and "0 \<le> limit s" and "used s + sint e \<le> limit s"
  obtains h s1 where "Reserve R background e s = (Inr h, s1)" and "inv s1" and "held s1 h = Some (sint e)"
    and "used s1 = used s + sint e" and "limit s1 = limit s"
  using reserve_prompt [OF assms] reserve_ok [OF assms(1), of background e] limit_fixed(1) [OF assms(1), of background e] by metis

end

definition forty :: estimate_spec where
  "forty = \<lparr>es_literal = 40, es_path = []\<rparr>"

definition sample_store :: postgres_store where
  "sample_store = \<lparr>ps_budget = 100, ps_currency = USD, ps_schema_mode = ''external'', ps_accounting_mode = ''monthly'',
     ps_scope_prefix = ''support-quota'', ps_tenant_field = ''customer_id'', ps_user_field = ''user_id'',
     ps_wallet_field = ''wallet_id'', ps_ttl = 600000000000\<rparr>"

definition sample_month :: utc_month where
  "sample_month = \<lparr>um_year = 2026, um_month = 3\<rparr>"

definition sample_input :: flow_value where
  "sample_input = FMap [(''customer_id'', GString ''acme''), (''user_id'', GString ''alex''), (''wallet_id'', GString ''w1'')]"

definition month_scope :: string where
  "month_scope = ''support-quota'' @ '':'' @ sha256_hex ''acme'' @ '':'' @ format_month sample_month"

definition month_ledger :: pg_ledger where
  "month_ledger = \<lparr>pl_db = True, pl_scope = month_scope, pl_limit = 100, pl_currency = USD, pl_ttl = 600000000000\<rparr>"

text \<open>The database after the row of the month was created.\<close>

definition month_start :: "pg_db \<Rightarrow> pg_db backend" where
  "month_start db = empty_server (db\<lparr>pg_budgets := (pg_budgets db)(month_scope \<mapsto>
     \<lparr>br_limit = 100, br_used = 0, br_currency = currency_string USD, br_updated = 0\<rparr>)\<rparr>) []"

lemma trim_names: "trim_space ''acme'' = ''acme''" "trim_space ''alex'' = ''alex''" "trim_space ''w1'' = ''w1''"
  by (intro trim_space_graphic; simp add: graphic_def less_char_def)+

lemma resolve_forty [simp]: "resolve forty v = Inr 40"
  by (simp add: resolve_def dynamic_def forty_def)

lemma sample_tenant: "tenant_value sample_input (ps_tenant_field sample_store) = Inr ''acme''"
  by (simp add: tenant_value_def string_field_def sample_input_def sample_store_def trim_names Let_def)

lemma sample_scope: "monthly_scope (ps_scope_prefix sample_store) ''acme'' sample_month = Inr month_scope"
  by (simp add: monthly_scope_def month_scope_def sample_store_def trim_names Let_def)

lemma month_starts:
  assumes "pg_budgets db month_scope = None"
  shows "monthly_ledger_for sample_store sample_month background sample_input (empty_server db [])
    = (Inr (pg_reserver month_ledger, ''monthly_quota_exceeded''), month_start db)"
proof -
  have "ledger_for_tenant sample_store background ''acme'' sample_month (empty_server db []) = (Inr month_ledger, month_start db)"
    unfolding ledger_for_tenant_def sample_scope
    using assms
    by (simp add: sample_store_def ensure_budget_row_def sql_upsert_matching_def only_error_def try_do_def exec_call_def
        month_ledger_def month_start_def pg_new_def i64_simps Let_def empty_server_def)
  then show ?thesis by (simp add: monthly_ledger_for_def sample_tenant)
qed

lemma month_quiet: "pg_quiet month_ledger (month_start pg_empty)"
proof -
  have "inj counting" by (auto simp: inj_def counting_def dest: arg_cong [where f = length])
  then show ?thesis
    by (simp add: pg_quiet_def pg_inv_def pg_valid_def good_leases_def pg_limit_def pg_used_def no_lost_def objs_owned_def
        month_start_def month_ledger_def empty_server_def pg_empty_def fresh_ids_def counting_def inj_def)
qed

lemma month_used: "pg_used month_scope (be_data (month_start db)) = 0" "pg_limit month_scope (be_data (month_start db)) = 100"
  by (simp_all add: month_start_def empty_server_def pg_used_def pg_limit_def)

lemma month_reserved:
  obtains h s1 where "Reserve (pg_reserver month_ledger) background 40 (month_start pg_empty) = (Inr h, s1)"
    and "pg_quiet month_ledger s1" and "pg_held s1 h = Some 40" and "pg_used month_scope (be_data s1) = 40"
    and "pg_limit month_scope (be_data s1) = 100"
proof -
  have scope: "pl_scope month_ledger = month_scope" by (simp add: month_ledger_def)
  show ?thesis
    by (rule pg_prompt.reserve_exact [OF month_quiet, of 40])
      (use that month_used scope in \<open>simp_all add: sint_MaxEstimate\<close>)
qed

end
