(* ===== verification/DurableSpec.thy ===== *)
theory DurableSpec
  imports DurableLemmas
begin

text \<open>
  What the durable quota middleware promises (\<open>nexssflow/postgres.go\<close>): an action that
  fails costs nothing, one that succeeds is charged once, a request over the budget does
  not run its action, tenants and months are kept apart; and what happens to a result that
  reports its own cost.
\<close>

section \<open>Properties\<close>

text \<open>
  C22.  A protected action that fails or panics costs nothing.  On every ledger that keeps
  the contract, whatever other requests did meanwhile: when the middleware ends the way
  the action did and logs nothing, the reservation is finished and the estimate is free
  again; else the failed cleanup is in the error or in the log, and no more is in use than
  when the action ended.
\<close>

theorem quota_failure_costs_nothing:
  assumes "reserver_contract R valid used limit held finished cap" and "valid s0"
    and "resolve spec (flow_gval input) = Inr est" and "ledger_for ctx input s = (Inr (R, denied), s0)"
    and "Reserve R ctx est s0 = (Inr h, s1)"
    and "act ctx input s1 = (x, s2)" and "action_failed x" and "valid s2" and "held s2 h = held s1 h"
    and "quota_middleware mode cur ledger_for spec name act ctx input s = ((res, log), t)"
  shows "valid t \<and> (if res = x \<and> log = [] then finished t h \<and> used t \<le> used s2 - sint est else used t \<le> used s2)"
proof -
  have "held s2 h = Some (sint est)"
    using reserver_contract.reserve_ok [OF assms(1,2,5)] assms(9) by simp
  from quota_granted [OF assms(3-5,10)] reserver_contract.quota_failure [where act = act and ctx = ctx and input = input, OF assms(1,8) this assms(6,7)]
  show ?thesis by metis
qed

text \<open>The action panics; the month is as it was.\<close>

theorem quota_failure_costs_nothing_witness:
  "\<exists>t. monthly_middleware sample_store sample_month forty ''support.draft'' (\<lambda>c i s. (Panics, s)) background sample_input
      (empty_server pg_empty []) = ((Panics, []), t) \<and> pg_used month_scope (be_data t) \<le> 0"
proof -
  let ?act = "\<lambda>c i s. (Panics, s)" and ?R = "pg_reserver month_ledger"
  have scope: "pl_scope month_ledger = month_scope" by (simp add: month_ledger_def)
  obtain h s1 where r: "Reserve ?R background 40 (month_start pg_empty) = (Inr h, s1)"
    and s1: "pg_quiet month_ledger s1" "pg_held s1 h = Some 40" "pg_used month_scope (be_data s1) = 40"
    by (rule month_reserved)
  obtain t where t: "Release ?R h background s1 = (None, t)"
    using pg_prompt.release_prompt [OF s1(1,2)] by auto
  have start: "monthly_ledger_for sample_store sample_month background sample_input (empty_server pg_empty [])
      = (Inr (?R, ''monthly_quota_exceeded''), month_start pg_empty)"
    by (rule month_starts) (simp add: pg_empty_def)
  have run: "quota_middleware ''monthly'' USD (monthly_ledger_for sample_store sample_month) forty ''support.draft'' ?act
      background sample_input (empty_server pg_empty []) = ((Panics, []), t)"
    using r t start
    by (simp add: quota_middleware_def quota_body_def quota_deferred_def finish_reservation_def accounting_ctx_def)
  have inv: "pg_inv month_ledger (month_start pg_empty)" "pg_inv month_ledger s1"
    using month_quiet s1(1) by (simp_all add: pg_quiet_def)
  note cheap = quota_failure_costs_nothing
      [where ctx = background and input = sample_input and act = ?act and ?s1.0 = s1 and est = 40
        and ledger_for = "monthly_ledger_for sample_store sample_month" and held = pg_held,
       OF pg.reserver_contract_axioms inv(1) resolve_forty start r refl _ inv(2) refl run]
  have "pg_used month_scope (be_data t) \<le> 0" using cheap s1(3) scope by simp
  then show ?thesis using run by (auto simp: monthly_middleware_def sample_store_def)
qed

text \<open>
  C23.  A protected action that succeeds is charged once and its result is marked.  On a
  ledger that keeps the prompt contract, and for a cost within the limit, what the result
  reports, or else the estimate, is in use in place of the reservation, and the reservation
  is finished.  In wallet mode, or for a cost of 0, the request returns the object of the
  action with \<open>quota_reserved\<close> and the state \<open>wallet_charged\<close> or \<open>reserved\<close>.  In monthly mode
  the event of the action is recorded on the ledger; if that succeeds the object is marked as
  \<open>reserved\<close>, and if it fails the request returns its error.
\<close>

theorem quota_success_charges:
  assumes "prompt_reserver R valid used limit held finished cap" and "valid s0"
    and "resolve spec (flow_gval input) = Inr est" and "0 < sint est"
    and "ledger_for ctx input s = (Inr (R, denied), s0)" and "Reserve R ctx est s0 = (Inr h, s1)"
    and "act ctx input s1 = (Returns out None, s2)" and "valid s2" and "held s2 h = held s1 h"
    and "actual = (case reported_cost out of Some c \<Rightarrow> clamp0 c | None \<Rightarrow> est)"
    and "used s2 - sint est + max 0 (sint actual) \<le> cap"
    and "0 \<le> limit s2 \<longrightarrow> used s2 - sint est + max 0 (sint actual) \<le> limit s2"
    and "quota_middleware mode cur ledger_for spec name act ctx input s = ((res, log), t)"
  shows "valid t \<and> finished t h \<and> used t = used s2 - sint est + max 0 (sint actual) \<and> log = []
    \<and> (\<exists>s3. valid s3 \<and> Commit R h background actual s2 = (None, s3) \<and> res =
        (if 0 < sint actual \<and> mode \<noteq> ''wallet''
         then case fst (RecordEvent R (accounting_ctx ctx) ((action_event (fst (action_domain_operation name))
             (snd (action_domain_operation name)) actual)\<lparr>ev_currency := cur\<rparr>) s3) of
             Some e \<Rightarrow> Returns flow_nil (Some (wrapf ''cost: record durable usage: %w'' e))
           | None \<Rightarrow> return_result (set_quota_state out True ''reserved'')
         else return_result (set_quota_state out True (if 0 < sint actual then ''wallet_charged'' else ''reserved''))))"
  using quota_settled [OF assms] quota_finish_exact [of mode name cur R ctx out actual _ res t] by blast

text \<open>In a month with a budget of 100 an action is charged its estimate of 40; the result is marked.\<close>

theorem quota_success_charges_witness:
  "\<exists>t. monthly_middleware sample_store sample_month forty ''support.draft''
        (\<lambda>c i s. (Returns (FMap [(''draft'', GString ''Hello'')]) None, s)) background sample_input (empty_server pg_empty [])
      = ((Returns (FMap [(''draft'', GString ''Hello''), (''quota_reserved'', GBool True),
            (''quota_state'', GString ''reserved'')]) None, []), t)
    \<and> pg_used month_scope (be_data t) = 40"
proof -
  let ?out = "FMap [(''draft'', GString ''Hello'')]"
  let ?act = "\<lambda>c i s. (Returns ?out None, s)" and ?R = "pg_reserver month_ledger" and ?s = "empty_server pg_empty []"
  have scope: "pl_scope month_ledger = month_scope" by (simp add: month_ledger_def)
  have start: "monthly_ledger_for sample_store sample_month background sample_input ?s
      = (Inr (?R, ''monthly_quota_exceeded''), month_start pg_empty)"
    by (rule month_starts) (simp add: pg_empty_def)
  obtain h s1 where r: "Reserve ?R background 40 (month_start pg_empty) = (Inr h, s1)"
    and s1: "pg_quiet month_ledger s1" "pg_used month_scope (be_data s1) = 40" "pg_limit month_scope (be_data s1) = 100"
    by (rule month_reserved)
  obtain res log t where run: "quota_middleware ''monthly'' USD (monthly_ledger_for sample_store sample_month) forty
      ''support.draft'' ?act background sample_input ?s = ((res, log), t)"
    by (metis prod.collapse)
  have recorded: "fst (pg_record month_ledger background ((action_event d op 40)\<lparr>ev_currency := USD\<rparr>) u) = None"
    if "pg_quiet month_ledger u" for d op u
    using that by (simp add: pg_record_def pg_quiet_def month_ledger_def action_event_def fill_currency_def only_error_def
        i64_simps Let_def)
  note charged = quota_success_charges
      [where ctx = background and input = sample_input and act = ?act and ?s1.0 = s1 and est = 40 and out = ?out
        and actual = 40 and ledger_for = "monthly_ledger_for sample_store sample_month" and held = pg_held,
       OF pg_prompt.prompt_reserver_axioms month_quiet resolve_forty _ start r refl s1(1) refl _ _ _ run]
  have "res = return_result (set_quota_state ?out True ''reserved'')" "log = []" "pg_used month_scope (be_data t) = 40"
    using charged s1(2,3) scope recorded by (auto simp: accounting_ctx_def)
  then show ?thesis
    using run by (simp add: monthly_middleware_def sample_store_def set_quota_state_def)
qed

text \<open>
  A request over the budget never runs its action.  On a ledger that keeps the prompt
  contract, when the estimate does not fit, the result is the input object marked with
  the denial, whatever the action is, and nothing more is in use.
\<close>

theorem quota_denied_skips:
  assumes "prompt_reserver R valid used limit held finished cap" and "valid s0"
    and "resolve spec (flow_gval input) = Inr est" and "0 < sint est" and "sint est \<le> sint MaxEstimate"
    and "ledger_for background input s = (Inr (R, denied), s0)"
    and "used s0 + sint est \<le> cap" and "0 \<le> limit s0" and "limit s0 < used s0 + sint est" and "is_object input"
  shows "\<exists>v t. (\<forall>act. quota_middleware mode cur ledger_for spec name act background input s = ((Returns v None, []), t))
    \<and> set_quota_state input False denied = Inr v \<and> used t = used s0"
proof -
  obtain x t where "Reserve R background est s0 = (Inl x, t)" "errors_is x ErrBudgetExceeded" "used t = used s0"
    using prompt_reserver.reserve_denied [OF assms(1,2,4,5,7-9)] by blast
  moreover obtain v where "set_quota_state input False denied = Inr v"
    using assms(10) by (cases input) (simp_all add: set_quota_state_def)
  ultimately show ?thesis using assms(3,6) by (simp add: quota_middleware_def)
qed

text \<open>An estimate of 140 in a month with a budget of 100.\<close>

theorem quota_denied_skips_witness:
  "\<exists>v t. (\<forall>act. monthly_middleware sample_store sample_month \<lparr>es_literal = 140, es_path = []\<rparr> ''support.draft'' act background
      sample_input (empty_server pg_empty []) = ((Returns v None, []), t))
    \<and> v = FMap [(''customer_id'', GString ''acme''), (''user_id'', GString ''alex''), (''wallet_id'', GString ''w1''),
        (''quota_reserved'', GBool False), (''quota_state'', GString ''monthly_quota_exceeded'')]"
proof -
  let ?spec = "\<lparr>es_literal = 140, es_path = []\<rparr>"
  have scope: "pl_scope month_ledger = month_scope" by (simp add: month_ledger_def)
  have start: "monthly_ledger_for sample_store sample_month background sample_input (empty_server pg_empty [])
      = (Inr (pg_reserver month_ledger, ''monthly_quota_exceeded''), month_start pg_empty)"
    by (rule month_starts) (simp add: pg_empty_def)
  have est: "resolve ?spec (flow_gval sample_input) = Inr 140" by (simp add: resolve_def dynamic_def)
  have "is_object sample_input" by (simp add: sample_input_def)
  from quota_denied_skips [where ledger_for = "monthly_ledger_for sample_store sample_month" and held = pg_held,
      OF pg_prompt.prompt_reserver_axioms month_quiet est _ _ start _ _ _ this, of "''monthly''" USD "''support.draft''"]
  show ?thesis
    using month_used [of pg_empty] scope
    by (auto simp: monthly_middleware_def sample_store_def sint_MaxEstimate sample_input_def set_quota_state_def)
qed

text \<open>
  C24.  A result that reports its cost is charged and then refused.  \<open>setQuotaState\<close> takes
  values of the two unnamed map types only, which cannot have a method \<open>CostMicros\<close>: on a
  ledger that keeps the prompt contract, when the action succeeds with a result that
  implements \<open>cost.Reporter\<close>, its cost stays in use, and the flow gets an error in place
  of the result.
\<close>

theorem quota_reporter_refused:
  assumes "prompt_reserver R valid used limit held finished cap" and "valid s0"
    and "resolve spec (flow_gval input) = Inr est" and "0 < sint est"
    and "ledger_for ctx input s = (Inr (R, denied), s0)" and "Reserve R ctx est s0 = (Inr h, s1)"
    and "act ctx input s1 = (Returns out None, s2)" and "valid s2" and "held s2 h = held s1 h"
    and "reported_cost out = Some c"
    and "used s2 - sint est + max 0 (sint c) \<le> cap"
    and "0 \<le> limit s2 \<longrightarrow> used s2 - sint est + max 0 (sint c) \<le> limit s2"
    and "quota_middleware mode cur ledger_for spec name act ctx input s = ((res, log), t)"
  shows "used t = used s2 - sint est + max 0 (sint c) \<and> (\<exists>e. res = Returns flow_nil (Some e))"
proof -
  have actual: "clamp0 c = (case reported_cost out of Some c \<Rightarrow> clamp0 c | None \<Rightarrow> est)"
    "max 0 (sint (clamp0 c)) = max 0 (sint c)"
    using assms(10) by (simp_all add: sint_clamp0)
  have room: "used s2 - sint est + max 0 (sint (clamp0 c)) \<le> cap"
    "0 \<le> limit s2 \<longrightarrow> used s2 - sint est + max 0 (sint (clamp0 c)) \<le> limit s2"
    using assms(11,12) actual(2) by simp_all
  have "set_quota_state out True st \<noteq> Inr v" for st v
    using assms(10) by (cases out) (simp_all add: set_quota_state_def)
  moreover obtain s3 where "quota_finish mode name cur R ctx out (clamp0 c) s3 = (res, t)"
    and "used t = used s2 - sint est + max 0 (sint c)"
    using quota_settled [OF assms(1-9) actual(1) room assms(13)] actual(2) by auto
  ultimately show ?thesis
    using quota_finish_result [of mode name cur R ctx out "clamp0 c" s3 res t]
    by (cases res) (auto split: option.splits)
qed

text \<open>The month is charged 30 for a result that the flow never sees.\<close>

theorem quota_reporter_refused_witness:
  "\<exists>e log t. monthly_middleware sample_store sample_month forty ''support.draft''
        (\<lambda>c i s. (Returns (FOther (GPtr GOther) (Some 30)) None, s)) background sample_input (empty_server pg_empty [])
      = ((Returns flow_nil (Some e), log), t)
    \<and> pg_used month_scope (be_data t) = 30"
proof -
  let ?out = "FOther (GPtr GOther) (Some 30)" and ?s = "empty_server pg_empty []"
  let ?act = "\<lambda>c i s. (Returns ?out None, s)" and ?R = "pg_reserver month_ledger"
  have scope: "pl_scope month_ledger = month_scope" by (simp add: month_ledger_def)
  obtain h s1 where r: "Reserve ?R background 40 (month_start pg_empty) = (Inr h, s1)"
    and s1: "pg_quiet month_ledger s1" "pg_used month_scope (be_data s1) = 40" "pg_limit month_scope (be_data s1) = 100"
    by (rule month_reserved)
  have start: "monthly_ledger_for sample_store sample_month background sample_input ?s
      = (Inr (?R, ''monthly_quota_exceeded''), month_start pg_empty)"
    by (rule month_starts) (simp add: pg_empty_def)
  obtain res log t where run: "quota_middleware ''monthly'' USD (monthly_ledger_for sample_store sample_month) forty
      ''support.draft'' ?act background sample_input ?s = ((res, log), t)"
    by (metis prod.collapse)
  note charged = quota_reporter_refused
      [where ctx = background and input = sample_input and act = ?act and ?s1.0 = s1 and est = 40 and out = ?out
        and ledger_for = "monthly_ledger_for sample_store sample_month" and held = pg_held,
       OF pg_prompt.prompt_reserver_axioms month_quiet resolve_forty _ start r refl s1(1) refl _ _ _ run, of 30]
  show ?thesis
    using charged s1(2,3) scope run by (auto simp: monthly_middleware_def sample_store_def)
qed

section \<open>Tenants and months\<close>

lemma hex_digit_props: "n < 16 \<Longrightarrow> hex_digit n \<noteq> CHR '':'' \<and> hex_digit n \<noteq> CHR ''-''"
proof -
  have "list_all (\<lambda>n. hex_digit n \<noteq> CHR '':'' \<and> hex_digit n \<noteq> CHR ''-'') [0..<16]" by code_simp
  then show "n < 16 \<Longrightarrow> ?thesis" by (simp add: list_all_iff)
qed

lemma length_hex_encode [simp]: "length (hex_encode bs) = 2 * length bs"
  by (induction bs) simp_all

lemma length_be_bytes [simp]: "length (be_bytes k n) = k"
  by (induction k arbitrary: n) simp_all

lemma length_sha_round [simp]: "length (sha_round kw s) = length s"
  by (cases "(kw, s)" rule: sha_round.cases) (simp_all add: Let_def)

lemma length_sha_rounds: "length (fold sha_round xs s) = length s"
  by (induction xs arbitrary: s) simp_all

lemma length_sha_blocks: "length (fold sha_block bs s) = length s"
  by (induction bs arbitrary: s) (simp_all add: sha_block_def length_sha_rounds)

lemma length_sha_start: "length sha_start = 8"
  unfolding sha_start_def length_map by code_simp

lemma length_sha256_hex [simp]: "length (sha256_hex s) = 64"
proof -
  have "length (sha256 m) = 4 * length sha_start" for m
    by (simp add: sha256_def length_concat sum_list_triv o_def length_sha_blocks)
  then show ?thesis by (simp add: sha256_hex_def length_sha_start)
qed

lemma digits_no_dash: "list_all is_digit ds \<Longrightarrow> CHR ''-'' \<notin> set ds"
  by (auto simp: list_all_iff is_digit_def less_eq_char_def)

lemma pad_left_digits: "list_all is_digit (pad_left k (nat_digits n))" "digits_val (pad_left k (nat_digits n)) = n"
proof -
  have "digits_val (replicate m (CHR ''0'') @ ds) = digits_val ds" for m ds
    by (induction m) (simp_all add: digits_val_def digit_val_def)
  then show "digits_val (pad_left k (nat_digits n)) = n" by (simp add: pad_left_def)
  have "list_all is_digit (replicate m (CHR ''0''))" for m
    by (induction m) (simp_all add: is_digit_def)
  then show "list_all is_digit (pad_left k (nat_digits n))"
    using nat_digits_all [of n] by (simp add: pad_left_def)
qed

lemma format_month_inj: "format_month m = format_month m' \<longleftrightarrow> m = (m' :: utc_month)"
proof
  assume eq: "format_month m = format_month m'"
  let ?y = "\<lambda>m :: utc_month. pad_left 4 (nat_digits (um_year m))" and ?n = "\<lambda>m. pad_left 2 (nat_digits (um_month m))"
  have "takeWhile (\<lambda>c. c \<noteq> CHR ''-'') (format_month x) = ?y x" "tl (dropWhile (\<lambda>c. c \<noteq> CHR ''-'') (format_month x)) = ?n x" for x :: utc_month
    using digits_no_dash [OF pad_left_digits(1), of 4 "um_year x"]
    by (auto simp: format_month_def takeWhile_append dropWhile_append)
  then have "?y m = ?y m'" "?n m = ?n m'" using eq by metis+
  then have "um_year m = um_year m'" "um_month m = um_month m'" by (metis pad_left_digits(2))+
  then show "m = m'" by simp
qed simp

text \<open>
  Scopes tell tenants and months apart: with one prefix, two scopes are the same only
  for the same month and for tenants with the same SHA-256 hash.  So every month starts
  with a budget of its own.
\<close>

theorem monthly_scopes_apart:
  assumes "monthly_scope prefix t m = Inr scope" and "monthly_scope prefix t' m' = Inr scope'"
  shows "scope = scope' \<longleftrightarrow> m = m' \<and> sha256_hex (trim_space t) = sha256_hex (trim_space t')"
  using assms by (auto simp: monthly_scope_def Let_def format_month_inj split: if_splits)

theorem monthly_scopes_apart_witness:
  "\<exists>a b. monthly_scope ''support-quota'' ''acme'' \<lparr>um_year = 2025, um_month = 12\<rparr> = Inr a
     \<and> monthly_scope ''support-quota'' ''acme'' \<lparr>um_year = 2026, um_month = 1\<rparr> = Inr b \<and> a \<noteq> b"
proof -
  have t: "trim_space ''acme'' = ''acme''" by (intro trim_space_graphic) (simp add: graphic_def less_char_def)
  obtain a b where "monthly_scope ''support-quota'' ''acme'' \<lparr>um_year = 2025, um_month = 12\<rparr> = Inr a"
    and "monthly_scope ''support-quota'' ''acme'' \<lparr>um_year = 2026, um_month = 1\<rparr> = Inr b"
    by (simp add: monthly_scope_def t Let_def)
  with monthly_scopes_apart [OF this] show ?thesis by auto
qed

text \<open>Every step of a request leaves the rows of other scopes alone.\<close>

definition same_row :: "string \<Rightarrow> pg_db backend \<Rightarrow> pg_db backend \<Rightarrow> bool" where
  "same_row scope s t \<longleftrightarrow> pg_budgets (be_data t) scope = pg_budgets (be_data s) scope"

lemma same_row_trans: "same_row scope s t \<Longrightarrow> same_row scope t u \<Longrightarrow> same_row scope s u"
  by (simp add: same_row_def)

lemma same_row_frame: "pg_frame scope (be_data s) (be_data t) \<Longrightarrow> x \<noteq> scope \<Longrightarrow> same_row x s t"
  by (simp add: same_row_def pg_frame_def)

lemma pg_same_row:
  assumes "x \<noteq> pl_scope l"
  shows "pg_reserve l c e s = (res, t) \<Longrightarrow> same_row x s t"
    and "finish_reservation (pg_reserver l) c h commit a s = (err, t) \<Longrightarrow> same_row x s t"
    and "pg_record l c ev s = (err, t) \<Longrightarrow> same_row x s t"
proof -
  show "pg_reserve l c e s = (res, t) \<Longrightarrow> same_row x s t"
    using pg_reserve_frame same_row_frame assms by blast
  show "finish_reservation (pg_reserver l) c h commit a s = (err, t) \<Longrightarrow> same_row x s t"
    using pg_terminal_careful [of l h background a s err t] same_row_frame assms
    by (auto simp: finish_reservation_def accounting_ctx_def split: if_splits)
  show "pg_record l c ev s = (err, t) \<Longrightarrow> same_row x s t"
    using pg_record_state [of l c ev s err t] by (auto simp: same_row_def)
qed

text \<open>The row of the month, in both schema modes.\<close>

abbreviation upserted :: "postgres_store \<Rightarrow> string \<Rightarrow> pg_db backend \<Rightarrow> nat \<times> pg_db" where
  "upserted st scope s \<equiv> sql_upsert_matching scope (ps_budget st) (currency_string (ps_currency st)) (be_now s) (be_data s)"

lemma ensure_budget_row_state:
  assumes "ensure_budget_row st c scope s = (err, t)"
  shows "same_client s t \<and> be_data t \<in> {be_data s, snd (upserted st scope s)}
    \<and> (err = None \<longrightarrow> be_data t = snd (upserted st scope s) \<and> fst (upserted st scope s) \<noteq> 0)"
proof (cases "c = NilCtx")
  case True
  then show ?thesis using assms by (auto simp: ensure_budget_row_def Let_def split: prod.splits)
next
  case False
  obtain rows db where up: "upserted st scope s = (rows, db)" by fastforce
  let ?q = "try_do (\<lambda>s. tx_call (Inr (map_option br_currency (pg_budgets (be_data s) scope))) s) (\<lambda>e. e) (\<lambda>answer.
          case answer of
            None \<Rightarrow> fail err_no_rows
          | Some existing \<Rightarrow> fail (Errorf ''currency mismatch for scope %s: database has %s, config has %s''
              [FStr scope, FStr existing, FStr (currency_string (ps_currency st))]))"
  obtain r where r: "try_do (exec_call (Inr db)) (\<lambda>e. e) (\<lambda>_. if rows \<noteq> 0 then (\<lambda>s. (Inr (), s)) else ?q) s = (r, t)"
    and err: "(\<exists>e. r = Inl e \<and> err = Some e) \<or> (r = Inr () \<and> err = None)"
    using assms False up by (auto simp: ensure_budget_row_def only_error_eq Let_def)
  have query: "same_client u v \<and> be_data v = be_data u \<and> (\<exists>e. res = Inl e)" if "?q u = (res, v)" for u v res
    using that
  proof (cases rule: try_doE)
    case (error e)
    then show ?thesis using tx_call_state [OF error(1)] by simp
  next
    case (ok answer w)
    then show ?thesis using tx_call_state [OF ok(1)] by (auto split: option.splits)
  qed
  from r show ?thesis
  proof (cases rule: try_doE)
    case (error e)
    then show ?thesis using exec_call_state [OF error(1)] err up by auto
  next
    case (ok _ u)
    note ex = exec_call_state [OF ok(1)]
    show ?thesis
    proof (cases "rows = 0")
      case True
      then show ?thesis using query [of u r t] ok(2) ex err up by (auto intro: same_client_trans)
    next
      case False
      then show ?thesis using ok(2) ex err up by auto
    qed
  qed
qed

lemma ledger_for_tenant_state:
  assumes "ledger_for_tenant st c tenant now s = (res, t)" and "monthly_scope (ps_scope_prefix st) tenant now = Inr scope"
  shows "(\<forall>l. res = Inr l \<longrightarrow> pl_scope l = scope) \<and> (x \<noteq> scope \<longrightarrow> same_row x s t)"
proof -
  let ?l = "pg_new \<lparr>pl_db = True, pl_scope = scope, pl_limit = ps_budget st, pl_currency = ps_currency st, pl_ttl = ps_ttl st\<rparr>"
  have l: "pl_scope ?l = scope" by (simp add: pg_new_def Let_def)
  obtain err u where u: "(if ps_schema_mode st = ''auto'' then ensure_schema ?l c s else ensure_budget_row st c scope s) = (err, u)"
    by fastforce
  then have "t = u" "\<forall>l. res = Inr l \<longrightarrow> l = ?l"
    using assms by (auto simp: ledger_for_tenant_def Let_def split: option.splits)
  moreover have "same_row x s u" if "x \<noteq> scope"
  proof (cases "ps_schema_mode st = ''auto''")
    case True
    then show ?thesis using u ensure_schema_effect [of ?l c s err u] that l by (simp add: same_row_def)
  next
    case False
    then show ?thesis
      using u ensure_budget_row_state [of st c scope s err u] that
      by (auto simp: same_row_def sql_upsert_matching_def split: option.splits if_splits)
  qed
  ultimately show ?thesis using l by auto
qed

text \<open>The parts of the middleware on a ledger of another scope.\<close>

lemma quota_finish_same_row:
  assumes "other \<noteq> pl_scope l" and "quota_finish mode name cur (pg_reserver l) ctx out actual s = (y, t)"
  shows "same_row other s t"
  using assms(2) pg_same_row(3) [OF assms(1)]
  by (auto simp: quota_finish_def same_row_def split: if_splits prod.splits option.splits)

lemma quota_body_same_row:
  assumes "other \<noteq> pl_scope l"
    and "\<And>u r v. act ctx input u = (r, v) \<Longrightarrow> pg_budgets (be_data v) other = pg_budgets (be_data u) other"
    and "quota_body wrap (quota_finish mode name cur (pg_reserver l) ctx) (pg_reserver l) h est act ctx input s = (y, t)"
  shows "same_row other s t"
  using assms pg_same_row(2) [OF assms(1)] quota_finish_same_row [OF assms(1)]
  by (auto simp: quota_body_def Let_def same_row_def split: flow_end.splits option.splits prod.splits)

lemma quota_deferred_same_row:
  assumes "other \<noteq> pl_scope l" and "quota_deferred (pg_reserver l) ctx h wrap logged y settled s = (z, t)"
  shows "same_row other s t"
  using assms(2) pg_same_row(2) [OF assms(1)]
  by (auto simp: quota_deferred_def same_row_def split: if_splits flow_end.splits option.splits prod.splits)

text \<open>
  C25.  A request of one tenant leaves the budget rows of all other tenants, and of all other
  months, as the action leaves them: whatever calls fail on the way, neither the limit nor
  what is in use of another scope changes.
\<close>

theorem monthly_request_frame:
  assumes "tenant_value input (ps_tenant_field st) = Inr tenant"
    and "monthly_scope (ps_scope_prefix st) tenant now = Inr scope" and "other \<noteq> scope"
    and "\<And>u r v. act ctx input u = (r, v) \<Longrightarrow> pg_budgets (be_data v) other = pg_budgets (be_data u) other"
    and "monthly_middleware st now spec name act ctx input s = (res, t)"
  shows "pg_budgets (be_data t) other = pg_budgets (be_data s) other"
proof -
  have "same_row other s t"
  proof (cases "resolve spec (flow_gval input)")
    case (Inl e)
    then show ?thesis using assms(5) by (simp add: monthly_middleware_def quota_middleware_def same_row_def)
  next
    case est: (Inr est)
    obtain led s0 where led: "ledger_for_tenant st ctx tenant now s = (led, s0)" by fastforce
    note led_state = ledger_for_tenant_state [OF led assms(2)]
    show ?thesis
    proof (cases led)
      case (Inl e)
      then show ?thesis
        using assms(1,3,5) est led led_state
        by (simp add: monthly_middleware_def quota_middleware_def monthly_ledger_for_def)
    next
      case (Inr l)
      then have scope: "other \<noteq> pl_scope l" and start: "same_row other s s0" using led_state assms(3) by auto
      have granted: "monthly_ledger_for st now ctx input s = (Inr (pg_reserver l, ''monthly_quota_exceeded''), s0)"
        using assms(1) led Inr by (simp add: monthly_ledger_for_def)
      obtain r s1 where r: "pg_reserve l ctx est s0 = (r, s1)" by fastforce
      have s1: "same_row other s s1" using same_row_trans [OF start pg_same_row(1) [OF scope r]] .
      show ?thesis
      proof (cases r)
        case (Inl e)
        then show ?thesis
          using assms(5) est granted r s1 by (auto simp: monthly_middleware_def quota_middleware_def split: if_splits)
      next
        case (Inr h)
        have body: "same_row other s v"
          if "quota_body wrap (quota_finish mode name cur (pg_reserver l) ctx) (pg_reserver l) h est act ctx input s1 = (y, v)"
          for wrap mode cur y v
          using same_row_trans [OF s1 quota_body_same_row [OF scope assms(4) that]] .
        note deferred = quota_deferred_same_row [OF scope]
        show ?thesis
          using assms(5) est granted r Inr body deferred
          by (auto simp: monthly_middleware_def quota_middleware_def same_row_def split: prod.splits)
      qed
    qed
  qed
  then show ?thesis by (simp add: same_row_def)
qed

text \<open>The checkout scope keeps its row while a request of \<open>acme\<close> panics.\<close>

theorem monthly_request_frame_witness:
  "pg_budgets (be_data (snd (monthly_middleware sample_store sample_month forty ''support.draft'' (\<lambda>c i s. (Panics, s))
     background sample_input (empty_server sample_db [])))) ''checkout'' = pg_budgets sample_db ''checkout''"
proof -
  have "64 \<le> length month_scope" by (simp add: month_scope_def)
  then have "length month_scope \<noteq> length ''checkout''" by simp
  then have "''checkout'' \<noteq> month_scope" by metis
  from monthly_request_frame [OF sample_tenant sample_scope this _ prod.collapse [symmetric], of "\<lambda>c i s. (Panics, s)" background]
  show ?thesis by (simp add: empty_server_def)
qed

end
