(* ===== verification/Json.thy ===== *)
theory Json
  imports GoStd
begin

text \<open>
  JSON as \<open>encoding/json\<close> reads and writes it: a datatype of values, the comparison of
  object keys with field names, and what becomes of a Go string that is not UTF-8.
\<close>

section \<open>Values\<close>

text \<open>A number is its literal; the members of an object are in the order of the text.\<close>

datatype json =
    JNull
  | JBool bool
  | JNum string
  | JStr string
  | JArr "json list"
  | JObj "(string \<times> json) list"

text \<open>
  How \<open>encoding/json\<close> compares a key with the name of a field: without case, where the
  long s and the Kelvin sign are letters s and k.
\<close>

definition ascii_lower :: "char \<Rightarrow> char" where
  "ascii_lower c = (if CHR ''A'' \<le> c \<and> c \<le> CHR ''Z'' then char_of (of_char c + 32 :: nat) else c)"

fun fold_name :: "string \<Rightarrow> string" where
  "fold_name (a # b # c # cs) =
     (if [a, b, c] = [CHR 0xE2, CHR 0x84, CHR 0xAA] then CHR ''k'' # fold_name cs
      else if [a, b] = [CHR 0xC5, CHR 0xBF] then CHR ''s'' # fold_name (c # cs)
      else ascii_lower a # fold_name (b # c # cs))"
| "fold_name [a, b] = (if [a, b] = [CHR 0xC5, CHR 0xBF] then ''s'' else [ascii_lower a, ascii_lower b])"
| "fold_name cs = map ascii_lower cs"

section \<open>Strings\<close>

text \<open>The length of the UTF-8 encoded character a string starts with, or 0 if there is none.\<close>

definition continuation :: "nat \<Rightarrow> bool" where
  "continuation b \<longleftrightarrow> 0x80 \<le> b \<and> b \<le> 0xBF"

fun utf8_width :: "nat list \<Rightarrow> nat" where
  "utf8_width [] = 0"
| "utf8_width (a # bs) =
     (if a < 0x80 then 1
      else case bs of
        [] \<Rightarrow> 0
      | b # cs \<Rightarrow>
          if 0xC2 \<le> a \<and> a \<le> 0xDF then (if continuation b then 2 else 0)
          else if \<not> (continuation b \<and> (a = 0xE0 \<longrightarrow> 0xA0 \<le> b) \<and> (a = 0xED \<longrightarrow> b \<le> 0x9F)
              \<and> (a = 0xF0 \<longrightarrow> 0x90 \<le> b) \<and> (a = 0xF4 \<longrightarrow> b \<le> 0x8F)) then 0
          else (case cs of
                  [] \<Rightarrow> 0
                | c # ds \<Rightarrow>
                    if \<not> continuation c then 0
                    else if 0xE0 \<le> a \<and> a \<le> 0xEF then 3
                    else if 0xF0 \<le> a \<and> a \<le> 0xF4 then (if ds \<noteq> [] \<and> continuation (hd ds) then 4 else 0)
                    else 0))"

text \<open>Marshalling replaces every byte that is not part of a character by U+FFFD.\<close>

function utf8_coerce :: "string \<Rightarrow> string" where
  "utf8_coerce s =
     (case s of
        [] \<Rightarrow> []
      | c # cs \<Rightarrow>
          let n = utf8_width (map of_char s) in
          if n = 0 then [CHR 0xEF, CHR 0xBF, CHR 0xBD] @ utf8_coerce cs
          else take n s @ utf8_coerce (drop n s))"
  by pat_completeness auto
termination by (relation "measure length") auto

declare utf8_coerce.simps [simp del]

lemma utf8_coerce_Nil [simp]: "utf8_coerce [] = []"
  by (simp add: utf8_coerce.simps)

lemma utf8_coerce_ascii: "of_char c < (0x80 :: nat) \<Longrightarrow> utf8_coerce (c # cs) = c # utf8_coerce cs"
  by (subst utf8_coerce.simps) simp

text \<open>A byte outside ASCII stays outside ASCII.\<close>

lemma utf8_coerce_other:
  assumes "\<not> of_char c < (0x80 :: nat)"
  shows "\<exists>d ds. utf8_coerce (c # cs) = d # ds \<and> \<not> of_char d < (0x80 :: nat)"
proof (cases "utf8_width (map of_char (c # cs))")
  case 0
  then show ?thesis by (subst utf8_coerce.simps) simp
next
  case (Suc n)
  then show ?thesis using assms by (subst utf8_coerce.simps) (auto simp del: utf8_width.simps)
qed

end
