(* ===== verification/Float64.thy ===== *)
theory Float64
  imports Complex_Main GoStd
begin

text \<open>
  Go's \<open>float64\<close> as far as the code computes with it: a finite double is the rational it
  stands for, and an operation rounds the exact result to the nearest rational with 53
  significant bits, ties to even.  Exponents are not bounded: no result of the code that
  matters is near the largest or the smallest double.
\<close>

section \<open>Rounding\<close>

text \<open>The number of binary digits.\<close>

fun bits :: "nat \<Rightarrow> nat" where
  "bits n = (if n = 0 then 0 else Suc (bits (n div 2)))"

declare bits.simps [simp del]

lemma bits_bounds: "0 < n \<Longrightarrow> 2 ^ (bits n - 1) \<le> n \<and> n < 2 ^ bits n"
proof (induction n rule: bits.induct)
  case (1 n)
  show ?case
  proof (cases "n div 2 = 0")
    case True
    then show ?thesis using 1(2) by (simp add: bits.simps [of n] bits.simps [of 0])
  next
    case False
    then have "2 ^ (bits (n div 2) - 1) \<le> n div 2" "n div 2 < 2 ^ bits (n div 2)" using 1 by auto
    moreover have "bits (n div 2) = Suc (bits (n div 2) - 1)" using False by (simp add: bits.simps [of "n div 2"])
    moreover have "bits n = Suc (bits (n div 2))" using 1(2) by (simp add: bits.simps [of n])
    ultimately show ?thesis by (metis diff_Suc_1 div_less_iff_less_mult less_eq_div_iff_mult_less_eq mult.commute pos2 power_Suc)
  qed
qed

lemma powi2_add: "(2 :: rat) powi (m + n) = 2 powi m * 2 powi n"
  by (simp add: power_int_add)

text \<open>The exponent of the largest power of two up to a positive rational.\<close>

definition ilog2 :: "rat \<Rightarrow> int" where
  "ilog2 x =
     (let (p, q) = quotient_of x; b = int (bits (nat p)) - int (bits (nat q)) in
      if 2 powi b \<le> x then b else b - 1)"

lemma ilog2_bounds:
  assumes "0 < x"
  shows "2 powi ilog2 x \<le> x" and "x < 2 powi (ilog2 x + 1)"
proof -
  obtain p q where pq: "quotient_of x = (p, q)" by fastforce
  have q: "0 < q" using pq quotient_of_denom_pos by blast
  have x: "x = of_int p / of_int q" using pq quotient_of_div by blast
  then have p: "0 < p" using assms q by (simp add: zero_less_divide_iff)
  define bp bq where "bp = bits (nat p)" and "bq = bits (nat q)"
  define b where "b = int bp - int bq"
  have pos: "0 < bp" "0 < bq" using p q by (simp_all add: bp_def bq_def bits.simps)
  have nat_le: "(2 :: rat) powi (int m - 1) \<le> of_int n" "of_int n < (2 :: rat) powi int m" if "0 < n" "m = bits (nat n)" for m n
  proof -
    have "2 ^ (m - 1) \<le> nat n" "nat n < 2 ^ m" using bits_bounds [of "nat n"] that by simp_all
    then have "(2 :: int) ^ (m - 1) \<le> n" "n < 2 ^ m" using that(1) by (auto simp: le_nat_iff nat_less_iff)
    moreover have "int m - 1 = int (m - 1)" using that by (simp add: bits.simps)
    ultimately show "(2 :: rat) powi (int m - 1) \<le> of_int n" "of_int n < (2 :: rat) powi int m"
      by (simp_all only: power_int_of_nat) (metis of_int_le_iff of_int_numeral of_int_power, metis of_int_less_iff of_int_numeral of_int_power)
  qed
  have "(2 :: rat) powi (b - 1) * of_int q < of_int p"
  proof -
    have "(2 :: rat) powi (b - 1) * of_int q < 2 powi (b - 1) * 2 powi int bq"
      using nat_le(2) [OF q bq_def] by (intro mult_strict_left_mono) simp_all
    also have "\<dots> = 2 powi (b - 1 + int bq)" by (simp only: powi2_add)
    also have "\<dots> = 2 powi (int bp - 1)" by (simp add: b_def del: power_int_of_nat)
    also have "\<dots> \<le> of_int p" using nat_le(1) [OF p bp_def] .
    finally show ?thesis .
  qed
  then have low: "2 powi (b - 1) < x" using q by (simp add: x pos_less_divide_eq)
  have "of_int p < (2 :: rat) powi (b + 1) * of_int q"
  proof -
    have "of_int p < (2 :: rat) powi int bp" using nat_le(2) [OF p bp_def] .
    also have "\<dots> = 2 powi (b + 1 + (int bq - 1))" by (simp add: b_def del: power_int_of_nat)
    also have "\<dots> = 2 powi (b + 1) * 2 powi (int bq - 1)" by (rule powi2_add)
    also have "\<dots> \<le> 2 powi (b + 1) * of_int q"
      using nat_le(1) [OF q bq_def] by (intro mult_left_mono) simp_all
    finally show ?thesis .
  qed
  then have high: "x < 2 powi (b + 1)" using q by (simp add: x pos_divide_less_eq)
  have "ilog2 x = (if 2 powi b \<le> x then b else b - 1)"
    by (simp add: ilog2_def pq b_def bp_def bq_def Let_def)
  then show "2 powi ilog2 x \<le> x" "x < 2 powi (ilog2 x + 1)"
    using low high by (auto split: if_splits)
qed

definition round_even :: "rat \<Rightarrow> int" where
  "round_even x =
     (let n = \<lfloor>x\<rfloor>; d = x - of_int n in
      if d < 1 / 2 then n else if 1 / 2 < d then n + 1 else if even n then n else n + 1)"

lemma round_even_error: "\<bar>of_int (round_even x) - x\<bar> \<le> 1 / 2"
  using floor_correct [of x] by (auto simp: round_even_def Let_def abs_le_iff)

lemma round_even_int [simp]: "round_even (of_int n) = n"
  by (simp add: round_even_def)

definition fl :: "rat \<Rightarrow> rat" where
  "fl x = (if x = 0 then 0 else let e = ilog2 \<bar>x\<bar> - 52 in of_int (round_even (x / 2 powi e)) * 2 powi e)"

lemma fl_0 [simp]: "fl 0 = 0"
  by (simp add: fl_def)

text \<open>The relative error is at most 2^-53.\<close>

lemma fl_error: "\<bar>fl x - x\<bar> \<le> \<bar>x\<bar> / 2 ^ 53"
proof (cases "x = 0")
  case False
  define e where "e = ilog2 \<bar>x\<bar> - 52"
  have "fl x - x = (of_int (round_even (x / 2 powi e)) - x / 2 powi e) * 2 powi e"
    using False by (simp add: fl_def e_def [symmetric] Let_def left_diff_distrib)
  then have "\<bar>fl x - x\<bar> = \<bar>of_int (round_even (x / 2 powi e)) - x / 2 powi e\<bar> * 2 powi e"
    by (simp add: abs_mult)
  also have "\<dots> \<le> 1 / 2 * 2 powi e" using round_even_error by (intro mult_right_mono) simp_all
  also have "\<dots> = 2 powi (ilog2 \<bar>x\<bar>) / 2 ^ 53"
  proof -
    have "(2 :: rat) powi (e + 52) = 2 powi e * 2 powi 52" by (rule powi2_add)
    then have "(2 :: rat) powi (ilog2 \<bar>x\<bar>) = 2 powi e * 2 powi 52" by (simp add: e_def)
    then show ?thesis by simp
  qed
  also have "\<dots> \<le> \<bar>x\<bar> / 2 ^ 53" using ilog2_bounds(1) [of "\<bar>x\<bar>"] False by (intro divide_right_mono) simp_all
  finally show ?thesis .
qed simp

text \<open>Integers up to 2^53 are doubles.\<close>

lemma fl_int [simp]:
  assumes "\<bar>n\<bar> < 2 ^ 53"
  shows "fl (of_int n) = of_int n"
proof (cases "n = 0")
  case False
  define x :: rat where "x = of_int n"
  have x: "x \<noteq> 0" "\<bar>x\<bar> < 2 ^ 53" using False assms by (simp_all add: x_def flip: of_int_abs of_int_power)
  have "(2 :: rat) powi ilog2 \<bar>x\<bar> < 2 powi 53" using ilog2_bounds(1) [of "\<bar>x\<bar>"] x by simp
  then have "ilog2 \<bar>x\<bar> < 53" using power_int_increasing [of 53 "ilog2 \<bar>x\<bar>" "2 :: rat"] by linarith
  then obtain k where "52 - ilog2 \<bar>x\<bar> = int k" using zero_le_imp_eq_int [of "52 - ilog2 \<bar>x\<bar>"] by auto
  then have k: "ilog2 \<bar>x\<bar> - 52 = - int k" by simp
  have "x / 2 powi (- int k) = of_int (n * 2 ^ k)" by (simp add: x_def power_int_minus divide_inverse)
  then have "fl x = of_int (n * 2 ^ k) * 2 powi (- int k)" using x(1) by (simp add: fl_def k Let_def del: of_int_mult)
  then show ?thesis by (simp add: x_def power_int_minus)
qed simp

end
