(* ===== verification/Money.thy ===== *)
theory Money
  imports Currency Json Float64
begin

text \<open>
  The rest of \<open>currency.go\<close>: the JSON form of a currency, and \<open>Micro\<close>, an amount of money
  in millionths of a unit, with its conversions from and to \<open>float64\<close>.
\<close>

section \<open>The JSON form of a currency\<close>

definition marshal_json :: "currency \<Rightarrow> json" where
  "marshal_json c = JStr (utf8_coerce (currency_string c))"

text \<open>The argument is \<open>None\<close> for bytes that are not JSON; \<open>null\<close> leaves the string empty.\<close>

definition unmarshal_json :: "currency option \<Rightarrow> json option \<Rightarrow> gerr option \<times> currency option" where
  "unmarshal_json c b =
     (if c = None then (Some (ErrorsNew ''cost: nil Currency pointer''), None)
      else case b of
        Some (JStr s) \<Rightarrow> unmarshal_text c s
      | Some JNull \<Rightarrow> unmarshal_text c []
      | _ \<Rightarrow> (Some (External ''json''), c))"

section \<open>Micro\<close>

text \<open>A \<open>float64\<close>: \<open>Inf True\<close> is the positive infinity.\<close>

datatype float64 = NaN | Inf bool | Fin rat

type_synonym micro = i64

text \<open>\<open>math.Round\<close>: to the nearest integer, halves away from zero.\<close>

definition round_away :: "rat \<Rightarrow> int" where
  "round_away x = (if x < 0 then - \<lfloor>1 / 2 - x\<rfloor> else \<lfloor>x + 1 / 2\<rfloor>)"

text \<open>\<open>float64(math.MaxInt64)\<close> is 2^63; a constant is computed exactly and rounded once.\<close>

definition max_float :: rat where
  "max_float = fl (2 ^ 63 / 1000000)"

definition min_float :: rat where
  "min_float = fl (- (2 ^ 63) / 1000000)"

definition to_micro :: "float64 \<Rightarrow> micro" where
  "to_micro amount =
     (case amount of
        NaN \<Rightarrow> 0
      | Inf _ \<Rightarrow> 0
      | Fin a \<Rightarrow>
          if max_float \<le> a then MaxInt64
          else if a \<le> min_float then word_of_int min_int64
          else word_of_int (round_away (fl (a * 1000000))))"

definition micro_float64 :: "micro \<Rightarrow> float64" where
  "micro_float64 m = Fin (fl (fl (of_int (sint m)) / 1000000))"

section \<open>Lemmas\<close>

lemma round_away_error: "\<bar>of_int (round_away x) - x\<bar> \<le> 1 / 2"
proof (cases "x < 0")
  case True
  then show ?thesis
    using floor_correct [of "1 / 2 - x"] unfolding round_away_def abs_le_iff of_int_minus if_P [OF True]
    by linarith
next
  case False
  then show ?thesis
    using floor_correct [of "x + 1 / 2"] unfolding round_away_def abs_le_iff if_not_P [OF False] by linarith
qed

lemma round_away_near:
  assumes "\<bar>x - of_int n\<bar> < 1 / 2"
  shows "round_away x = n"
proof -
  have "of_int n - 1 / 2 < x" "x < of_int n + 1 / 2" using assms unfolding abs_less_iff by linarith+
  then have "\<lfloor>1 / 2 - x\<rfloor> = - n" "\<lfloor>x + 1 / 2\<rfloor> = n"
    unfolding floor_eq_iff of_int_minus by linarith+
  then show ?thesis by (simp add: round_away_def)
qed

lemma round_even_near:
  assumes "\<bar>x - of_int n\<bar> < 1 / 2"
  shows "round_even x = n"
proof -
  have "\<bar>of_int (round_even x - n)\<bar> < (1 :: rat)"
    using round_even_error [of x] assms unfolding abs_less_iff abs_le_iff of_int_diff by linarith
  then show ?thesis by linarith
qed

lemma fl_bounds:
  "fl x \<le> x + \<bar>x\<bar> / 9007199254740992" "x - \<bar>x\<bar> / 9007199254740992 \<le> fl x"
proof -
  have "(2 :: rat) ^ 53 = 9007199254740992" by simp
  then have "\<bar>fl x - x\<bar> \<le> \<bar>x\<bar> / 9007199254740992" using fl_error [of x] by (simp only:)
  then show "fl x \<le> x + \<bar>x\<bar> / 9007199254740992" "x - \<bar>x\<bar> / 9007199254740992 \<le> fl x" by linarith+
qed

lemma ilog2_eq:
  assumes "2 powi k \<le> x" and "x < 2 powi (k + 1)"
  shows "ilog2 x = k"
proof -
  have "0 < x" using assms(1) zero_less_power_int [of "2 :: rat" k] by linarith
  note b = ilog2_bounds [OF this]
  have "\<not> k + 1 \<le> ilog2 x" using power_int_increasing [of "k + 1" "ilog2 x" "2 :: rat"] b assms by linarith
  moreover have "\<not> ilog2 x + 1 \<le> k" using power_int_increasing [of "ilog2 x + 1" k "2 :: rat"] b assms by linarith
  ultimately show ?thesis by linarith
qed

text \<open>The limits are 9223372036854.775390625 of either sign.\<close>

lemma max_float_value: "max_float = 4722366482869645 / 512" "min_float = - 4722366482869645 / 512"
proof -
  have "ilog2 (2 ^ 63 / 1000000) = 43" by (rule ilog2_eq) simp_all
  moreover have "round_even (2 ^ 63 / 1000000 * 512) = 4722366482869645"
    "round_even (- (2 ^ 63) / 1000000 * 512) = - 4722366482869645"
    by (rule round_even_near; simp)+
  ultimately show "max_float = 4722366482869645 / 512" "min_float = - 4722366482869645 / 512"
    by (simp_all add: max_float_def min_float_def fl_def power_int_minus)
qed

text \<open>The doubles from 2^43 on are multiples of 1/512.\<close>

lemma double_grid:
  assumes "fl a = a" and "2 ^ 43 \<le> \<bar>a\<bar>"
  shows "\<exists>j. a = of_int j / 512"
proof -
  have "a \<noteq> 0" using assms(2) by auto
  then have "\<bar>a\<bar> < 2 powi (ilog2 \<bar>a\<bar> + 1)" by (intro ilog2_bounds) simp
  then have "(2 :: rat) powi 43 < 2 powi (ilog2 \<bar>a\<bar> + 1)" using assms(2) by simp
  then have "43 < ilog2 \<bar>a\<bar> + 1"
    using power_int_increasing [of "ilog2 \<bar>a\<bar> + 1" 43 "2 :: rat"] by linarith
  then obtain n where "ilog2 \<bar>a\<bar> - 43 = int n" using zero_le_imp_eq_int [of "ilog2 \<bar>a\<bar> - 43"] by auto
  then have e: "ilog2 \<bar>a\<bar> - 52 = int n - 9" by simp
  define k where "k = round_even (a / 2 powi (int n - 9))"
  have "a = of_int k * 2 powi (int n - 9)"
    using assms(1) \<open>a \<noteq> 0\<close> by (simp add: fl_def e k_def Let_def)
  also have "\<dots> = of_int (k * 2 ^ n) / 512" by (simp add: power_int_diff)
  finally show ?thesis by blast
qed

text \<open>An amount between the limits is at most 2^63 - 2370.5 micros, rounded by at most 1024.\<close>

lemma amount_bound:
  assumes "fl a = a" and "min_float < a" and "a < max_float"
  shows "\<bar>a * 1000000\<bar> \<le> 9223372036854773437.5"
proof (cases "2 ^ 43 \<le> \<bar>a\<bar>")
  case True
  then obtain j where j: "a = of_int j / 512" using double_grid [OF assms(1)] by blast
  have "of_int (-4722366482869645) < (of_int j :: rat)" "of_int j < (of_int 4722366482869645 :: rat)"
    using assms(2,3) unfolding j max_float_value by simp_all
  then have "- 4722366482869644 \<le> j" "j \<le> 4722366482869644" unfolding of_int_less_iff by simp_all
  then have "of_int (- 4722366482869644) \<le> (of_int j :: rat)" "of_int j \<le> (of_int 4722366482869644 :: rat)"
    unfolding of_int_le_iff .
  then show ?thesis unfolding j abs_le_iff by simp
qed simp

section \<open>Properties\<close>

text \<open>
  A currency read back from its JSON form is the currency itself exactly when its code
  is three upper-case letters; for every other code, the zero value included, \<open>MarshalJSON\<close>
  still succeeds, but \<open>UnmarshalJSON\<close> refuses the result and leaves its receiver alone.
\<close>

theorem currency_json_roundtrip:
  "if list_all upper_letter (currency_string c)
   then unmarshal_json (Some old) (Some (marshal_json c)) = (None, Some c)
   else \<exists>e. unmarshal_json (Some old) (Some (marshal_json c)) = (Some e, Some old)"
proof -
  have ascii: "upper_letter x \<Longrightarrow> of_char x < (0x80 :: nat)" for x
    by (auto simp: upper_letter_def less_eq_char_def)
  have same: "list_all upper_letter s \<Longrightarrow> utf8_coerce s = s" for s
    by (induction s) (simp_all add: utf8_coerce_ascii ascii)
  have letters: "list_all upper_letter (utf8_coerce s) \<Longrightarrow> list_all upper_letter s" for s
  proof (induction s)
    case (Cons x s)
    then show ?case
      using utf8_coerce_other [of x s] ascii by (cases "of_char x < (0x80 :: nat)") (auto simp: utf8_coerce_ascii)
  qed simp
  show ?thesis
  proof (cases "list_all upper_letter (currency_string c)")
    case True
    then show ?thesis
      using check_letters_None [of "currency_string c"] by (simp add: unmarshal_json_def marshal_json_def same unmarshal_text_def)
  next
    case False
    then have "check_letters (utf8_coerce (currency_string c)) \<noteq> None"
      using letters check_letters_None by blast
    then show ?thesis using False by (auto simp: unmarshal_json_def marshal_json_def unmarshal_text_def)
  qed
qed

text \<open>A finite value of the type is a double.\<close>

definition is_double :: "float64 \<Rightarrow> bool" where
  "is_double x \<longleftrightarrow> (case x of Fin a \<Rightarrow> fl a = a | _ \<Rightarrow> True)"

text \<open>
  C34.  \<open>ToMicro\<close> never converts a number that does not fit: NaN and the two infinities are
  0, a finite double at or beyond one of the two limits becomes the largest or the smallest
  \<open>int64\<close>, and every other one the rounded number of micros, which has not wrapped around.
\<close>

theorem to_micro_in_range:
  assumes "is_double x"
  shows "sint (to_micro x) = (case x of
      NaN \<Rightarrow> 0
    | Inf neg \<Rightarrow> 0
    | Fin a \<Rightarrow> if max_float \<le> a then max_int64 else if a \<le> min_float then min_int64
        else round_away (fl (a * 1000000)))"
proof (cases x)
  case (Fin a)
  then have double: "fl a = a" using assms by (simp add: is_double_def)
  have "min_int64 \<le> round_away (fl (a * 1000000)) \<and> round_away (fl (a * 1000000)) \<le> max_int64"
    if "min_float < a" "a < max_float"
  proof -
    have "\<bar>a * 1000000\<bar> \<le> 9223372036854773437.5" by (rule amount_bound [OF double that])
    then have "\<bar>fl (a * 1000000)\<bar> \<le> 9223372036854773437.5 + 9223372036854773437.5 / 9007199254740992"
      using fl_bounds [of "a * 1000000"] by linarith
    then have "\<bar>of_int (round_away (fl (a * 1000000)))\<bar> \<le> (9223372036854775000 :: rat)"
      using round_away_error [of "fl (a * 1000000)"] by linarith
    then have "of_int (- 9223372036854775000) \<le> (of_int (round_away (fl (a * 1000000))) :: rat)"
      "of_int (round_away (fl (a * 1000000))) \<le> (of_int 9223372036854775000 :: rat)"
      unfolding abs_le_iff by simp_all
    then show ?thesis unfolding of_int_le_iff by simp
  qed
  then show ?thesis
    by (auto simp: Fin to_micro_def sint_MaxInt64 sint_word_of_int_i64 not_le)
qed (simp_all add: to_micro_def)

text \<open>19.99 units, as the double next to it, are 19990000 micros.\<close>

theorem to_micro_in_range_witness:
  "sint (to_micro (Fin (5626684784446013 / 2 ^ 48))) = 19990000"
proof -
  let ?a = "5626684784446013 / 2 ^ 48 :: rat"
  have i: "ilog2 ?a = 4" by (rule ilog2_eq) simp_all
  have a: "fl ?a = ?a"
    using round_even_int [of 5626684784446013] by (simp add: fl_def i [simplified] power_int_minus)
  have "ilog2 (?a * 1000000) = 24" by (rule ilog2_eq) simp_all
  moreover have "round_even (?a * 1000000 * 2 ^ 28) = 5366024765440000"
    by (rule round_even_near) simp
  ultimately have "fl (?a * 1000000) = 19990000" by (simp add: fl_def power_int_minus)
  moreover have "round_away 19990000 = 19990000" by (rule round_away_near) simp
  ultimately show ?thesis using to_micro_in_range [of "Fin ?a"] a by (simp add: is_double_def max_float_value)
qed

text \<open>
  An amount survives the conversion to a double and back while it is below 2^51 micros,
  more than two billion units, although neither a division by a million nor the product
  is exact.
\<close>

theorem micro_roundtrip:
  assumes "\<bar>sint m\<bar> < 2 ^ 51"
  shows "to_micro (micro_float64 m) = m"
proof -
  define n where "n = sint m"
  define x :: rat where "x = of_int n"
  define y where "y = fl (x / 1000000)"
  have n: "\<bar>n\<bar> \<le> 2 ^ 51 - 1" using assms by (simp add: n_def)
  then have "of_int \<bar>n\<bar> \<le> (of_int (2 ^ 51 - 1) :: rat)" unfolding of_int_le_iff .
  then have x: "\<bar>x\<bar> \<le> 2251799813685247" by (simp add: x_def)
  have fl_n: "fl x = x" unfolding x_def by (rule fl_int) (use n in simp)
  have "\<bar>x / 1000000\<bar> = \<bar>x\<bar> / 1000000" by simp
  then have y: "y \<le> x / 1000000 + \<bar>x\<bar> / 1000000 / 9007199254740992" "x / 1000000 - \<bar>x\<bar> / 1000000 / 9007199254740992 \<le> y"
    using fl_bounds [of "x / 1000000"] by (simp_all only: y_def)
  have y_small: "\<bar>y\<bar> < 4722366482869645 / 512" using x y by linarith
  have prod: "\<bar>y * 1000000 - x\<bar> \<le> 1 / 4" using x y by linarith
  moreover note fl_bounds [of "y * 1000000"]
  moreover have "\<bar>y * 1000000\<bar> / 9007199254740992 < 1 / 4" using prod x by linarith
  ultimately have "\<bar>fl (y * 1000000) - of_int n\<bar> < 1 / 2"
    unfolding x_def by linarith
  then have "round_away (fl (y * 1000000)) = n" by (rule round_away_near)
  moreover have "\<not> max_float \<le> y" "\<not> y \<le> min_float" using y_small unfolding max_float_value by linarith+
  ultimately show ?thesis
    by (simp add: to_micro_def micro_float64_def fl_n y_def [symmetric] n_def [symmetric] x_def [symmetric]) (simp add: n_def)
qed

text \<open>An amount of 0.1 units.\<close>

theorem micro_roundtrip_witness: "to_micro (micro_float64 100000) = 100000"
  by (rule micro_roundtrip) simp

end
