(* ===== verification/GoConf.thy ===== *)
theory GoConf
  imports Json Float64
begin

text \<open>
  The functions of Go's standard library that the configuration goes through:
  \<open>strings.ToLower\<close>, \<open>strings.ToUpper\<close>, \<open>strings.EqualFold\<close> and \<open>strings.ContainsAny\<close>,
  \<open>os.ExpandEnv\<close> and \<open>time.ParseDuration\<close>.
\<close>

section \<open>Letters\<close>

text \<open>
  \<open>ToLower\<close> and \<open>ToUpper\<close>.  Outside ASCII only four letters have an ASCII letter as their
  other case: U+0130 and U+212A become i and k, U+0131 and U+017F become I and S.  All
  other characters outside ASCII are left as they are here; the code compares the results
  with ASCII words only, where this makes no difference.
\<close>

fun go_lower :: "string \<Rightarrow> string" where
  "go_lower (a # b # c # cs) =
     (if [a, b, c] = [CHR 0xE2, CHR 0x84, CHR 0xAA] then CHR ''k'' # go_lower cs
      else if [a, b] = [CHR 0xC4, CHR 0xB0] then CHR ''i'' # go_lower (c # cs)
      else ascii_lower a # go_lower (b # c # cs))"
| "go_lower [a, b] = (if [a, b] = [CHR 0xC4, CHR 0xB0] then ''i'' else [ascii_lower a, ascii_lower b])"
| "go_lower cs = map ascii_lower cs"

definition ascii_upper :: "char \<Rightarrow> char" where
  "ascii_upper c = (if CHR ''a'' \<le> c \<and> c \<le> CHR ''z'' then char_of (of_char c - 32 :: nat) else c)"

fun go_upper :: "string \<Rightarrow> string" where
  "go_upper (a # b # cs) =
     (if [a, b] = [CHR 0xC4, CHR 0xB1] then CHR ''I'' # go_upper cs
      else if [a, b] = [CHR 0xC5, CHR 0xBF] then CHR ''S'' # go_upper cs
      else ascii_upper a # go_upper (b # cs))"
| "go_upper cs = map ascii_upper cs"

text \<open>\<open>EqualFold(s, t)\<close> for a word \<open>t\<close> of lower-case ASCII letters.\<close>

definition equal_fold :: "string \<Rightarrow> string \<Rightarrow> bool" where
  "equal_fold s t \<longleftrightarrow> fold_name s = t"

definition contains_any :: "string \<Rightarrow> string \<Rightarrow> bool" where
  "contains_any s chars \<longleftrightarrow> list_ex (\<lambda>c. c \<in> set chars) s"

section \<open>Environment variables\<close>

definition special_var :: "char \<Rightarrow> bool" where
  "special_var c \<longleftrightarrow> c \<in> set ''*#$@!?-'' \<or> is_digit c"

definition alpha_num :: "char \<Rightarrow> bool" where
  "alpha_num c \<longleftrightarrow> c = CHR ''_'' \<or> is_digit c \<or> (CHR ''a'' \<le> c \<and> c \<le> CHR ''z'') \<or> (CHR ''A'' \<le> c \<and> c \<le> CHR ''Z'')"

text \<open>The name after a dollar sign and the number of bytes it takes up.\<close>

definition shell_name :: "string \<Rightarrow> string \<times> nat" where
  "shell_name s =
     (if hd s = CHR ''{'' then
        (if 2 < length s \<and> special_var (s ! 1) \<and> s ! 2 = CHR ''}'' then ([s ! 1], 3)
         else let body = takeWhile (\<lambda>c. c \<noteq> CHR ''}'') (tl s) in
           if length body = length (tl s) then ([], 1)
           else if body = [] then ([], 2)
           else (body, length body + 2))
      else if special_var (hd s) then ([hd s], 1)
      else let name = takeWhile alpha_num s in (name, length name))"

text \<open>\<open>env\<close> is the environment, with the empty string for a variable that is not set.\<close>

function expand_env :: "(string \<Rightarrow> string) \<Rightarrow> string \<Rightarrow> string" where
  "expand_env env [] = []"
| "expand_env env (c # cs) =
     (if c = CHR ''$'' \<and> cs \<noteq> [] then
        (let (name, w) = shell_name cs in
         (if name = [] \<and> 0 < w then [] else if name = [] then [c] else env name) @ expand_env env (drop w cs))
      else c # expand_env env cs)"
  by pat_completeness auto
termination by (relation "measure (\<lambda>(env, s). length s)") auto

lemma expand_env_plain: "CHR ''$'' \<notin> set s \<Longrightarrow> expand_env env s = s"
  by (induction s) auto

section \<open>Durations\<close>

text \<open>
  \<open>ParseDuration\<close>, in nanoseconds; every error is \<open>None\<close>, as the code does not look at it.
  The unsigned 64-bit sum is written out with its wrap-around.
\<close>

fun leading_int :: "nat \<Rightarrow> string \<Rightarrow> (nat \<times> string) option" where
  "leading_int x [] = Some (x, [])"
| "leading_int x (c # cs) =
     (if \<not> is_digit c then Some (x, c # cs)
      else if 2 ^ 63 div 10 < x then None
      else let y = 10 * x + digit_val c in
        if 2 ^ 63 < y then None else leading_int y cs)"

text \<open>The digits after a point, as far as they fit, and the power of ten they are divided by.\<close>

fun leading_fraction :: "nat \<Rightarrow> nat \<Rightarrow> bool \<Rightarrow> string \<Rightarrow> nat \<times> nat \<times> string" where
  "leading_fraction x scale overflow [] = (x, scale, [])"
| "leading_fraction x scale overflow (c # cs) =
     (if \<not> is_digit c then (x, scale, c # cs)
      else if overflow then leading_fraction x scale True cs
      else if (2 ^ 63 - 1) div 10 < x then leading_fraction x scale True cs
      else let y = 10 * x + digit_val c in
        if 2 ^ 63 < y then leading_fraction x scale True cs
        else leading_fraction y (10 * scale) False cs)"

definition unit_map :: "(string \<times> nat) list" where
  "unit_map = [(''ns'', 1), (''us'', 1000), ([CHR 0xC2, CHR 0xB5, CHR ''s''], 1000),
     ([CHR 0xCE, CHR 0xBC, CHR ''s''], 1000), (''ms'', 1000000), (''s'', 1000000000),
     (''m'', 60000000000), (''h'', 3600000000000)]"

lemma leading_int_length: "leading_int x s = Some (v, r) \<Longrightarrow> length r \<le> length s"
  by (induction x s rule: leading_int.induct) (auto simp: Let_def split: if_splits)

lemma leading_fraction_length: "leading_fraction x scale over s = (f, sc, r) \<Longrightarrow> length r \<le> length s"
  by (induction x scale over s rule: leading_fraction.induct) (auto simp: Let_def split: if_splits)

text \<open>What a number with a fraction and its unit add, or \<open>None\<close> on overflow.\<close>

definition duration_part :: "nat \<Rightarrow> nat \<Rightarrow> nat \<Rightarrow> nat \<Rightarrow> nat option" where
  "duration_part v f scale unit =
     (if 2 ^ 63 div unit < v then None
      else
        let v = v * unit;
            v = (if 0 < f then v + nat \<lfloor>fl (fl (of_nat f) * fl (of_nat unit / of_nat scale))\<rfloor> else v) in
        if 0 < f \<and> 2 ^ 63 < v then None else Some v)"

definition unit_char :: "char \<Rightarrow> bool" where
  "unit_char c \<longleftrightarrow> c \<noteq> CHR ''.'' \<and> \<not> is_digit c"

text \<open>One round of the loop: what it adds and what is left.\<close>

definition duration_step :: "string \<Rightarrow> (nat \<times> string) option" where
  "duration_step s =
     (if \<not> (hd s = CHR ''.'' \<or> is_digit (hd s)) then None
      else case leading_int 0 s of
        None \<Rightarrow> None
      | Some (v, r) \<Rightarrow>
          let pre = (length r \<noteq> length s);
              (f, scale, post, r) =
                (if r \<noteq> [] \<and> hd r = CHR ''.'' then
                   (let (f, scale, r') = leading_fraction 0 1 False (tl r) in (f, scale, length r' \<noteq> length (tl r), r'))
                 else (0, 1, False, r)) in
          if \<not> pre \<and> \<not> post then None
          else
            let u = takeWhile unit_char r in
            (if u = [] then None
             else case map_of unit_map u of
               None \<Rightarrow> None
             | Some unit \<Rightarrow>
                 map_option (\<lambda>v. (v, drop (length u) r)) (duration_part v f scale unit)))"

lemma duration_step_shorter: "duration_step s = Some (v, r) \<Longrightarrow> length r < length s"
proof -
  assume step: "duration_step s = Some (v, r)"
  obtain v0 r0 where r0: "leading_int 0 s = Some (v0, r0)"
    using step by (auto simp: duration_step_def split: if_splits option.splits)
  obtain f sc r1 where r1: "leading_fraction 0 1 False (tl r0) = (f, sc, r1)" by (metis prod.collapse)
  have "length r0 \<le> length s" "length r1 \<le> length (tl r0)"
    using leading_int_length [OF r0] leading_fraction_length [OF r1] by simp_all
  moreover have "takeWhile unit_char x \<noteq> [] \<Longrightarrow> length x - length (takeWhile unit_char x) < length x" for x
    by (cases x) auto
  ultimately show ?thesis
    using step r0 r1 by (fastforce simp: duration_step_def Let_def split: if_splits option.splits)
qed

function duration_loop :: "nat \<Rightarrow> string \<Rightarrow> nat option" where
  "duration_loop d s =
     (if s = [] then Some d
      else case duration_step s of
        None \<Rightarrow> None
      | Some (v, r) \<Rightarrow>
          let d = (d + v) mod 2 ^ 64 in
          if 2 ^ 63 < d then None else duration_loop d r)"
  by pat_completeness auto
termination by (relation "measure (\<lambda>(d, s). length s)") (auto dest: duration_step_shorter)

declare duration_loop.simps [simp del]

definition parse_duration :: "string \<Rightarrow> i64 option" where
  "parse_duration s =
     (let (neg, s) = strip_sign s in
      if s = ''0'' then Some 0
      else if s = [] then None
      else case duration_loop 0 s of
        None \<Rightarrow> None
      | Some d \<Rightarrow>
          if neg then Some (- word_of_nat d)
          else if 2 ^ 63 - 1 < d then None
          else Some (word_of_nat d))"

end
