(* ===== verification/Runtime.thy ===== *)
theory Runtime
  imports Durable Json
begin

text \<open>
  \<open>nexssflow/storage_backend.go\<close>: the budget of a tenant in one record of a key-value
  store, which can change at run time.  The store (\<open>storage.AtomicKV\<close>) is not part of the
  repository: it is the argument \<open>update\<close> of the operations, with its laws in
  \<open>RuntimeLemmas\<close>.  A value in the store is what \<open>json.Marshal\<close> makes of it, or \<open>None\<close> if
  it cannot be marshalled.
\<close>

section \<open>The record\<close>

text \<open>\<open>runtimeQuotaRecord\<close>; the map of reservations is \<open>None\<close> when it is nil.\<close>

record runtime_record =
  rq_version :: i64
  rq_budget :: string
  rq_spent :: string
  rq_reservations :: "(string \<times> string) list option"

definition zero_record :: runtime_record where
  "zero_record = \<lparr>rq_version = 0, rq_budget = [], rq_spent = [], rq_reservations = None\<rparr>"

definition new_runtime_quota_record :: runtime_record where
  "new_runtime_quota_record = \<lparr>rq_version = 1, rq_budget = [], rq_spent = ''0'', rq_reservations = Some []\<rparr>"

text \<open>\<open>json.Unmarshal\<close> into the record: \<open>None\<close> for a value of the wrong type.\<close>

fun unmarshal_entries :: "(string \<times> json) list \<Rightarrow> (string \<times> string) list \<Rightarrow> (string \<times> string) list option" where
  "unmarshal_entries [] m = Some m"
| "unmarshal_entries ((k, JStr s) # kvs) m = unmarshal_entries kvs (map_put k s m)"
| "unmarshal_entries ((k, JNull) # kvs) m = unmarshal_entries kvs (map_put k [] m)"
| "unmarshal_entries ((k, _) # kvs) m = None"

definition unmarshal_field :: "string \<Rightarrow> json \<Rightarrow> runtime_record \<Rightarrow> runtime_record option" where
  "unmarshal_field key value r =
     (let name = fold_name key in
      if name = ''version'' then
        (case value of JNull \<Rightarrow> Some r | JNum n \<Rightarrow> map_option (\<lambda>v. r\<lparr>rq_version := v\<rparr>) (parse_int n) | _ \<Rightarrow> None)
      else if name = ''budget_micros'' then
        (case value of JNull \<Rightarrow> Some r | JStr s \<Rightarrow> Some (r\<lparr>rq_budget := s\<rparr>) | _ \<Rightarrow> None)
      else if name = ''spent_micros'' then
        (case value of JNull \<Rightarrow> Some r | JStr s \<Rightarrow> Some (r\<lparr>rq_spent := s\<rparr>) | _ \<Rightarrow> None)
      else if name = ''reservations'' then
        (case value of
           JNull \<Rightarrow> Some (r\<lparr>rq_reservations := None\<rparr>)
         | JObj kvs \<Rightarrow>
             map_option (\<lambda>m. r\<lparr>rq_reservations := Some m\<rparr>)
               (unmarshal_entries kvs (case rq_reservations r of None \<Rightarrow> [] | Some m \<Rightarrow> m))
         | _ \<Rightarrow> None)
      else Some r)"

fun unmarshal_fields :: "(string \<times> json) list \<Rightarrow> runtime_record \<Rightarrow> runtime_record option" where
  "unmarshal_fields [] r = Some r"
| "unmarshal_fields ((k, v) # kvs) r =
     (case unmarshal_field k v r of None \<Rightarrow> None | Some r \<Rightarrow> unmarshal_fields kvs r)"

fun unmarshal_record :: "json \<Rightarrow> runtime_record option" where
  "unmarshal_record JNull = Some zero_record"
| "unmarshal_record (JObj kvs) = unmarshal_fields kvs zero_record"
| "unmarshal_record _ = None"

text \<open>\<open>json.Marshal\<close> of the record, with \<open>omitempty\<close> on the reservations.\<close>

definition marshal_record :: "runtime_record \<Rightarrow> json" where
  "marshal_record r = JObj ([(''version'', JNum (format_int (rq_version r))),
     (''budget_micros'', JStr (rq_budget r)), (''spent_micros'', JStr (rq_spent r))]
     @ (case rq_reservations r of
          Some (x # xs) \<Rightarrow> [(''reservations'', JObj (map (\<lambda>(k, v). (k, JStr v)) (x # xs)))]
        | _ \<Rightarrow> []))"

definition parse_non_negative_micros :: "string \<Rightarrow> string \<Rightarrow> gerr + i64" where
  "parse_non_negative_micros raw field =
     (let err = Errorf ''%w: %s must be a non-negative decimal integer in micros''
            [FErr (Sentinel ErrRuntimePolicyInvalid), FStr field] in
      case parse_int raw of
        None \<Rightarrow> Inl err
      | Some value \<Rightarrow> if value <s 0 then Inl err else Inr value)"

fun check_reservations :: "(string \<times> string) list \<Rightarrow> gerr option" where
  "check_reservations [] = None"
| "check_reservations ((i, amount) # rs) =
     (if i = [] then Some (Errorf ''%w: empty reservation ID'' [FErr (Sentinel ErrRuntimePolicyInvalid)])
      else case parse_non_negative_micros amount ''reservation amount'' of
        Inl e \<Rightarrow> Some e
      | Inr _ \<Rightarrow> check_reservations rs)"

text \<open>
  \<open>decodeRuntimeQuotaRecord\<close>.  Go visits the reservations in any order; the model goes by the
  list, which only decides which of two errors is returned when both apply.
\<close>

definition decode_runtime_quota_record :: "json option \<Rightarrow> gerr + runtime_record" where
  "decode_runtime_quota_record value =
     (case value of
        None \<Rightarrow> Inl (Errorf ''%w: encode stored record: %w'' [FErr (Sentinel ErrRuntimePolicyInvalid), FErr (External ''json'')])
      | Some encoded \<Rightarrow>
     (case unmarshal_record encoded of
        None \<Rightarrow> Inl (Errorf ''%w: decode stored record: %w'' [FErr (Sentinel ErrRuntimePolicyInvalid), FErr (External ''json'')])
      | Some r \<Rightarrow>
          if rq_version r \<noteq> 0 \<and> rq_version r \<noteq> 1
          then Inl (Errorf ''%w: unsupported record version %d''
                 [FErr (Sentinel ErrRuntimePolicyInvalid), FInt (rq_version r)])
          else
            let r = (if rq_version r = 0 then r\<lparr>rq_version := 1\<rparr> else r);
                r = (if rq_spent r = [] then r\<lparr>rq_spent := ''0''\<rparr> else r) in
            (case parse_non_negative_micros (rq_spent r) ''spent_micros'' of
               Inl e \<Rightarrow> Inl e
             | Inr _ \<Rightarrow>
                 let m = (case rq_reservations r of None \<Rightarrow> [] | Some m \<Rightarrow> m) in
                 (case check_reservations m of
                    Some e \<Rightarrow> Inl e
                  | None \<Rightarrow> Inr (r\<lparr>rq_reservations := Some m\<rparr>)))))"

definition reservations_of :: "runtime_record \<Rightarrow> (string \<times> string) list" where
  "reservations_of r = (case rq_reservations r of None \<Rightarrow> [] | Some m \<Rightarrow> m)"

definition map_delete :: "string \<Rightarrow> (string \<times> 'a) list \<Rightarrow> (string \<times> 'a) list" where
  "map_delete k m = filter (\<lambda>x. fst x \<noteq> k) m"

section \<open>The store\<close>

text \<open>
  \<open>AtomicKV.Update\<close>: the callback gets the current value, if there is one, and returns the
  value to store or an error.  A value is never given a time to live.  A call acts on the
  state \<open>'k\<close> of the store.
\<close>

type_synonym stored = "json option"

type_synonym kv_callback = "stored option \<Rightarrow> gerr + stored"

type_synonym 'k kv_update = "gctx \<Rightarrow> string \<Rightarrow> kv_callback \<Rightarrow> 'k \<Rightarrow> gerr option \<times> 'k"

definition runtime_quota_key :: "string \<Rightarrow> gerr + string" where
  "runtime_quota_key tenant =
     (let tenant = trim_space tenant in
      if tenant = [] then Inl (ErrorsNew ''cost: trusted tenant identity is required'')
      else Inr (''cost/runtime-budget/v1/'' @ sha256_hex tenant))"

definition budget_callback :: "i64 \<Rightarrow> kv_callback" where
  "budget_callback limit current =
     (case (case current of None \<Rightarrow> Inr new_runtime_quota_record | Some v \<Rightarrow> decode_runtime_quota_record v) of
        Inl e \<Rightarrow> Inl e
      | Inr r \<Rightarrow> Inr (Some (marshal_record (r\<lparr>rq_budget := format_int limit\<rparr>))))"

definition set_runtime_budget ::
  "'k kv_update option \<Rightarrow> gctx \<Rightarrow> string \<Rightarrow> i64 \<Rightarrow> 'k \<Rightarrow> gerr option \<times> 'k" where
  "set_runtime_budget kv c tenant limit k =
     (if c = NilCtx then (Some (Sentinel ErrNilContext), k)
      else case kv of
        None \<Rightarrow> (Some (ErrorsNew ''cost: runtime budget requires an atomic Storage KV''), k)
      | Some update \<Rightarrow>
          if limit <s 0 then (Some (Errorf ''cost: runtime budget must be non-negative, got %d'' [FInt limit]), k)
          else case runtime_quota_key tenant of
            Inl e \<Rightarrow> (Some e, k)
          | Inr key \<Rightarrow>
              (case update c key (budget_callback limit) k of
                 (Some e, k) \<Rightarrow> (Some (wrapf ''cost: update runtime budget for trusted tenant: %w'' e), k)
               | (None, k) \<Rightarrow> (None, k)))"

section \<open>The ledger\<close>

record 'k runtime_ledger =
  rt_kv :: "'k kv_update option"
  rt_tenant :: string

abbreviation policy_invalid :: "string \<Rightarrow> gerr" where
  "policy_invalid msg \<equiv> Errorf msg [FErr (Sentinel ErrRuntimePolicyInvalid)]"

text \<open>The loop over the reservations; the order only decides which error comes first.\<close>

fun sum_reservations :: "(string \<times> string) list \<Rightarrow> i64 \<Rightarrow> gerr + i64" where
  "sum_reservations [] reserved = Inr reserved"
| "sum_reservations ((i, raw) # rs) reserved =
     (case parse_non_negative_micros raw ''reservation amount'' of
        Inl e \<Rightarrow> Inl e
      | Inr amount \<Rightarrow>
          if MaxInt64 - reserved <s amount then Inl (policy_invalid ''%w: reserved amount overflows int64'')
          else sum_reservations rs (reserved + amount))"

definition reserve_callback :: "string \<Rightarrow> i64 \<Rightarrow> kv_callback" where
  "reserve_callback i estimate current =
     (case current of
        None \<Rightarrow> Inl (Sentinel ErrRuntimePolicyMissing)
      | Some v \<Rightarrow>
     (case decode_runtime_quota_record v of
        Inl e \<Rightarrow> Inl e
      | Inr r \<Rightarrow>
     (case parse_non_negative_micros (rq_budget r) ''budget_micros'' of
        Inl e \<Rightarrow> Inl e
      | Inr limit \<Rightarrow>
     (case parse_non_negative_micros (rq_spent r) ''spent_micros'' of
        Inl e \<Rightarrow> Inl e
      | Inr spent \<Rightarrow>
     (case sum_reservations (reservations_of r) 0 of
        Inl e \<Rightarrow> Inl e
      | Inr reserved \<Rightarrow>
          if MaxInt64 - reserved <s spent \<or> MaxInt64 - (spent + reserved) <s estimate
          then Inl (policy_invalid ''%w: usage amount overflows int64'')
          else
            let used = spent + reserved in
            if limit - used <s estimate
            then Inl (Errorf ''%w: spent=%d reserved=%d estimate=%d limit=%d''
                   [FErr (Sentinel ErrBudgetExceeded), FInt spent, FInt reserved, FInt estimate, FInt limit])
            else Inr (Some (marshal_record
                   (r\<lparr>rq_reservations := Some (map_put i (format_int estimate) (reservations_of r))\<rparr>))))))))"

definition record_for_settlement :: "stored option \<Rightarrow> gerr + runtime_record" where
  "record_for_settlement current =
     (case current of
        None \<Rightarrow> Inl (Errorf ''%w: record disappeared while a reservation was in flight'' [FErr (Sentinel ErrReservationNotFound)])
      | Some v \<Rightarrow> decode_runtime_quota_record v)"

definition commit_callback :: "string \<Rightarrow> i64 \<Rightarrow> kv_callback" where
  "commit_callback i actual current =
     (case record_for_settlement current of
        Inl e \<Rightarrow> Inl e
      | Inr r \<Rightarrow>
     (case map_of (reservations_of r) i of
        None \<Rightarrow> Inl (Errorf ''%w: %s'' [FErr (Sentinel ErrReservationNotFound), FStr i])
      | Some reserved \<Rightarrow>
          let r = r\<lparr>rq_reservations := Some (map_delete i (reservations_of r))\<rparr> in
     (case parse_non_negative_micros (rq_spent r) ''spent_micros'' of
        Inl e \<Rightarrow> Inl e
      | Inr spent \<Rightarrow>
          if MaxInt64 - spent <s actual then Inl (policy_invalid ''%w: committed usage overflows int64'')
          else case parse_non_negative_micros reserved ''reservation amount'' of
            Inl e \<Rightarrow> Inl e
          | Inr _ \<Rightarrow> Inr (Some (marshal_record (r\<lparr>rq_spent := format_int (spent + actual)\<rparr>))))))"

definition release_callback :: "string \<Rightarrow> kv_callback" where
  "release_callback i current =
     (case record_for_settlement current of
        Inl e \<Rightarrow> Inl e
      | Inr r \<Rightarrow>
     (case map_of (reservations_of r) i of
        None \<Rightarrow> Inl (Errorf ''%w: %s'' [FErr (Sentinel ErrReservationNotFound), FStr i])
      | Some _ \<Rightarrow> Inr (Some (marshal_record
            (r\<lparr>rq_reservations := Some (map_delete i (reservations_of r))\<rparr>)))))"

text \<open>
  A call on the store for the key of the tenant.  A reservation keeps the store and the key
  that \<open>Reserve\<close> has checked, so the first two cases do not arise in a terminal call.
\<close>

definition runtime_update :: "'k runtime_ledger \<Rightarrow> gctx \<Rightarrow> kv_callback \<Rightarrow> 'k backend \<Rightarrow> (gerr + unit) \<times> 'k backend" where
  "runtime_update l c f s =
     (case rt_kv l of
        None \<Rightarrow> (Inl (ErrorsNew ''cost: runtime budget requires an atomic Storage KV''), s)
      | Some update \<Rightarrow>
     (case runtime_quota_key (rt_tenant l) of
        Inl e \<Rightarrow> (Inl e, s)
      | Inr key \<Rightarrow>
          (case update c key f (be_data s) of
             (Some e, k) \<Rightarrow> (Inl e, s\<lparr>be_data := k\<rparr>)
           | (None, k) \<Rightarrow> (Inr (), s\<lparr>be_data := k\<rparr>))))"

definition runtime_reserve :: "'k runtime_ledger \<Rightarrow> gctx \<Rightarrow> i64 \<Rightarrow> 'k backend \<Rightarrow> (gerr + nat) \<times> 'k backend" where
  "runtime_reserve l c estimate s =
     (case ctx_check c of
        Some e \<Rightarrow> (Inl e, s)
      | None \<Rightarrow>
          if estimate <s 0 \<or> MaxEstimate <s estimate then (Inl (invalid_estimate estimate), s)
          else if rt_kv l = None then (Inl (ErrorsNew ''cost: runtime budget requires an atomic Storage KV''), s)
          else case runtime_quota_key (rt_tenant l) of
            Inl e \<Rightarrow> (Inl e, s)
          | Inr key \<Rightarrow>
              try_do new_id (wrapf ''cost: generate runtime reservation ID: %w'') (\<lambda>i.
              try_do (runtime_update l c (reserve_callback i estimate)) (\<lambda>e. e) (\<lambda>_. add_obj i)) s)"

text \<open>\<open>Record\<close> only checks the context: the commit is the durable record.\<close>

definition runtime_record_event :: "'k runtime_ledger \<Rightarrow> gctx \<Rightarrow> event \<Rightarrow> 'k backend \<Rightarrow> gerr option \<times> 'k backend" where
  "runtime_record_event l c ev s = (ctx_check c, s)"

definition runtime_commit :: "'k runtime_ledger \<Rightarrow> nat \<Rightarrow> gctx \<Rightarrow> i64 \<Rightarrow> 'k backend \<Rightarrow> gerr option \<times> 'k backend" where
  "runtime_commit l h c actual s =
     (case ctx_check c of
        Some e \<Rightarrow> (Some e, s)
      | None \<Rightarrow> once h (\<lambda>i. runtime_update l c (commit_callback i (clamp0 actual))) s)"

definition runtime_release :: "'k runtime_ledger \<Rightarrow> nat \<Rightarrow> gctx \<Rightarrow> 'k backend \<Rightarrow> gerr option \<times> 'k backend" where
  "runtime_release l h c s =
     (case ctx_check c of
        Some e \<Rightarrow> (Some e, s)
      | None \<Rightarrow> once h (\<lambda>i. runtime_update l c (release_callback i)) s)"

definition runtime_reserver :: "'k runtime_ledger \<Rightarrow> ('k backend, nat) reserver" where
  "runtime_reserver l = \<lparr>Reserve = runtime_reserve l, RecordEvent = runtime_record_event l,
     Commit = runtime_commit l, Release = runtime_release l\<rparr>"

lemma runtime_reserver_simps [simp]:
  "Reserve (runtime_reserver l) = runtime_reserve l"
  "RecordEvent (runtime_reserver l) = runtime_record_event l"
  "Commit (runtime_reserver l) = runtime_commit l"
  "Release (runtime_reserver l) = runtime_release l"
  by (simp_all add: runtime_reserver_def)

section \<open>The middleware\<close>

text \<open>After the commit: the event is recorded, and the object is marked.\<close>

definition runtime_finish ::
  "string \<Rightarrow> ('s, 'h) reserver \<Rightarrow> gctx \<Rightarrow> flow_value \<Rightarrow> i64 \<Rightarrow> 's \<Rightarrow> flow_end \<times> 's" where
  "runtime_finish action_name R ctx output actual s =
     (if 0 <s actual then
        let (d, op) = action_domain_operation action_name in
        (case RecordEvent R (accounting_ctx ctx) (action_event d op actual) s of
           (Some e, s) \<Rightarrow> (Returns flow_nil (Some (wrapf ''cost: record runtime tenant usage: %w'' e)), s)
         | (None, s) \<Rightarrow> (return_result (set_quota_state output True ''runtime_reserved''), s))
      else (return_result (set_quota_state output True ''runtime_reserved''), s))"

text \<open>\<open>tenant\<close> is what \<open>xctx.TenantIDFrom\<close> finds in the context.\<close>

definition runtime_middleware ::
  "'k kv_update \<Rightarrow> estimate_spec \<Rightarrow> string \<Rightarrow> 'k backend protected_action \<Rightarrow> string \<Rightarrow> gctx \<Rightarrow> flow_value
    \<Rightarrow> 'k backend \<Rightarrow> (flow_end \<times> log) \<times> 'k backend" where
  "runtime_middleware kv spec action_name next tenant ctx input s =
     (case resolve spec (flow_gval input) of
        Inl e \<Rightarrow> ((Returns flow_nil (Some e), []), s)
      | Inr estimate \<Rightarrow>
          if trim_space tenant = []
          then ((Returns flow_nil (Some (ErrorsNew
            ''cost: trusted tenant identity is required in context (set by the authenticated host, not the Flow input)'')), []), s)
          else
            let R = runtime_reserver \<lparr>rt_kv = Some kv, rt_tenant = trim_space tenant\<rparr> in
            (case Reserve R ctx estimate s of
               (Inl e, s) \<Rightarrow>
                 if errors_is e ErrBudgetExceeded
                 then ((return_result (set_quota_state input False ''runtime_budget_exceeded''), []), s)
                 else ((Returns flow_nil (Some (wrapf ''cost: load or reserve runtime tenant budget: %w'' e)), []), s)
             | (Inr reservation, s) \<Rightarrow>
                 (case quota_body (wrapf ''cost: settle runtime tenant reservation: %w'') (runtime_finish action_name R ctx)
                     R reservation estimate next ctx input s of
                    ((result, settled), s) \<Rightarrow>
                      quota_deferred R ctx reservation (wrapf ''cost: release runtime tenant reservation: %w'')
                        ''release runtime tenant reservation after panic'' result settled s)))"

end
