(* ===== verification/Report.thy ===== *)
theory Report
  imports LocalSpec
begin

text \<open>
  The actions that Flow gets on a local ledger: \<open>cost.report\<close> of \<open>nexssflow/report.go\<close>,
  \<open>cost.snapshot\<close> and \<open>cost.record\<close> of \<open>nexssflow/library.go\<close>.
\<close>

section \<open>Report\<close>

record report_bucket =
  rb_domain :: string
  rb_operation :: string
  rb_count :: i64
  rb_spent :: i64

record report =
  rp_limit :: i64
  rp_used :: i64
  rp_spent :: i64
  rp_currency :: string
  rp_buckets :: "report_bucket list"

type_synonym bucket_key = "string \<times> string"

definition event_key :: "event \<Rightarrow> bucket_key" where
  "event_key e = (ev_domain e, ev_operation e)"

definition new_bucket :: "event \<Rightarrow> report_bucket" where
  "new_bucket e = \<lparr>rb_domain = ev_domain e, rb_operation = ev_operation e, rb_count = 0, rb_spent = 0\<rparr>"

definition bump :: "event \<Rightarrow> report_bucket \<Rightarrow> report_bucket" where
  "bump e b = b\<lparr>rb_count := rb_count b + 1, rb_spent := rb_spent b + ev_cost e\<rparr>"

text \<open>The loop over the entries, with the map of buckets and the order of their keys.\<close>

fun report_loop ::
  "event list \<Rightarrow> (bucket_key \<Rightarrow> report_bucket option) \<Rightarrow> bucket_key list
   \<Rightarrow> (bucket_key \<Rightarrow> report_bucket option) \<times> bucket_key list" where
  "report_loop [] by_key order = (by_key, order)"
| "report_loop (e # es) by_key order =
     (let k = event_key e in
      case by_key k of
        None \<Rightarrow> report_loop es (by_key(k \<mapsto> bump e (new_bucket e))) (order @ [k])
      | Some bucket \<Rightarrow> report_loop es (by_key(k \<mapsto> bump e bucket)) order)"

definition report_buckets :: "event list \<Rightarrow> report_bucket list" where
  "report_buckets entries =
     (let (by_key, order) = report_loop entries (\<lambda>_. None) [] in
      map (\<lambda>k. the (by_key k)) order)"

definition report_action :: "ledger \<Rightarrow> report" where
  "report_action l = \<lparr>rp_limit = lg_limit l, rp_used = lg_used l, rp_spent = lg_spent l,
     rp_currency = currency_string (lg_currency l), rp_buckets = report_buckets (ledger_entries l)\<rparr>"

section \<open>Snapshot and record\<close>

record snapshot =
  sn_limit :: i64
  sn_remaining :: i64
  sn_used :: i64
  sn_spent :: i64
  sn_currency :: string

definition snapshot_action :: "ledger \<Rightarrow> snapshot" where
  "snapshot_action l =
     (let limit = lg_limit l;
          remaining = (if 0 \<le>s limit then limit - lg_used l else -1) in
      \<lparr>sn_limit = limit, sn_remaining = remaining, sn_used = lg_used l, sn_spent = lg_spent l,
       sn_currency = currency_string (lg_currency l)\<rparr>)"

text \<open>The result is the flag \<open>Recorded\<close>.\<close>

definition record_action :: "gctx \<Rightarrow> event \<Rightarrow> local_state \<Rightarrow> (gerr + bool) \<times> local_state" where
  "record_action ctx ev s =
     (case ledger_record ctx ev s of
        (Some e, s) \<Rightarrow> (Inl e, s)
      | (None, s) \<Rightarrow> (Inr True, s))"

section \<open>What the report means\<close>

text \<open>The keys in the order they are first seen, and the bucket of one key.\<close>

definition seen_keys :: "event list \<Rightarrow> bucket_key list" where
  "seen_keys es = rev (remdups (rev (map event_key es)))"

definition key_events :: "bucket_key \<Rightarrow> event list \<Rightarrow> event list" where
  "key_events k es = filter (\<lambda>e. event_key e = k) es"

definition bucket_of :: "bucket_key \<Rightarrow> event list \<Rightarrow> report_bucket" where
  "bucket_of k es = \<lparr>rb_domain = fst k, rb_operation = snd k,
     rb_count = of_nat (length (key_events k es)),
     rb_spent = sum_list (map ev_cost (key_events k es))\<rparr>"

lemma seen_keys_snoc:
  "seen_keys (es @ [e]) =
     (if event_key e \<in> event_key ` set es then seen_keys es else seen_keys es @ [event_key e])"
  by (auto simp: seen_keys_def)

lemma set_seen_keys: "set (seen_keys es) = event_key ` set es"
  by (simp add: seen_keys_def)

lemma report_loop_append:
  "report_loop (es @ fs) m order =
     (let (m', order') = report_loop es m order in report_loop fs m' order')"
  by (induction es arbitrary: m order) (auto simp: Let_def split: option.splits)

lemma bump_bucket_of:
  "bump e (bucket_of (event_key e) es) = bucket_of (event_key e) (es @ [e])"
  by (simp add: bump_def bucket_of_def key_events_def algebra_simps)

lemma bucket_of_other: "event_key e \<noteq> k \<Longrightarrow> bucket_of k (es @ [e]) = bucket_of k es"
  by (simp add: bucket_of_def key_events_def)

lemma new_bucket_of:
  assumes "event_key e \<notin> event_key ` set es"
  shows "new_bucket e = bucket_of (event_key e) es"
proof -
  have "key_events (event_key e) es = []"
    using assms by (auto simp: key_events_def filter_empty_conv image_iff)
  then show ?thesis
    by (simp add: new_bucket_def bucket_of_def event_key_def sum_list_0)
qed

lemma report_loop_spec:
  "report_loop es (\<lambda>_. None) [] =
     ((\<lambda>k. if k \<in> event_key ` set es then Some (bucket_of k es) else None), seen_keys es)"
proof (induction es rule: rev_induct)
  case Nil
  then show ?case by (simp add: seen_keys_def)
next
  case (snoc e es)
  show ?case
  proof (cases "event_key e \<in> event_key ` set es")
    case True
    then show ?thesis
      by (auto simp: report_loop_append snoc.IH Let_def seen_keys_snoc bump_bucket_of
          bucket_of_other fun_eq_iff)
  next
    case False
    then show ?thesis
      by (auto simp: report_loop_append snoc.IH Let_def seen_keys_snoc new_bucket_of bump_bucket_of
          bucket_of_other fun_eq_iff)
  qed
qed

lemma sum_by_key:
  assumes "distinct ks" and "event_key ` set es \<subseteq> set ks"
  shows "(\<Sum>k\<leftarrow>ks. sum_list (map ev_cost (key_events k es))) = sum_list (map ev_cost es)"
  using assms
proof (induction es)
  case Nil
  then show ?case by (simp add: key_events_def sum_list_0)
next
  case (Cons e es)
  have one: "(\<Sum>k\<leftarrow>ks. if event_key e = k then ev_cost e else 0) = ev_cost e"
    using Cons.prems by (simp add: sum_list_distinct_conv_sum_set)
  have "(\<Sum>k\<leftarrow>ks. sum_list (map ev_cost (key_events k (e # es))))
      = (\<Sum>k\<leftarrow>ks. (if event_key e = k then ev_cost e else 0) + sum_list (map ev_cost (key_events k es)))"
    by (intro arg_cong [where f = sum_list] map_cong) (auto simp: key_events_def)
  also have "\<dots> = ev_cost e + sum_list (map ev_cost es)"
    using Cons one by (simp add: sum_list_addf)
  finally show ?case by simp
qed

section \<open>Properties\<close>

text \<open>
  C38.  The report has one bucket for each pair of domain and operation in the audit ring,
  in the order the pairs first occur; each bucket counts its events and sums their costs,
  and the sums of the buckets add up to the sum over the whole ring (64-bit arithmetic).
\<close>

theorem report_aggregates:
  "rp_buckets (report_action l) = map (\<lambda>k. bucket_of k (ledger_entries l)) (seen_keys (ledger_entries l))
   \<and> distinct (seen_keys (ledger_entries l))
   \<and> sum_list (map rb_spent (rp_buckets (report_action l))) = sum_list (map ev_cost (ledger_entries l))"
proof -
  let ?es = "ledger_entries l"
  have b: "rp_buckets (report_action l) = map (\<lambda>k. bucket_of k ?es) (seen_keys ?es)"
    using set_seen_keys [of ?es]
    by (auto simp: report_action_def report_buckets_def report_loop_spec)
  have d: "distinct (seen_keys ?es)"
    by (simp add: seen_keys_def)
  have "map rb_spent (rp_buckets (report_action l))
      = map (\<lambda>k. sum_list (map ev_cost (key_events k ?es))) (seen_keys ?es)"
    by (simp add: b bucket_of_def o_def)
  then have "sum_list (map rb_spent (rp_buckets (report_action l))) = sum_list (map ev_cost ?es)"
    using sum_by_key [OF d, of ?es] by (simp add: set_seen_keys)
  then show ?thesis using b d by blast
qed

text \<open>
  The snapshot tells what can still be reserved.  On a ledger with a limit, a request
  of any valid size is admitted exactly when it is at most the remaining amount that the
  snapshot reports, and without a limit the snapshot reports -1.
\<close>

theorem snapshot_remaining_admits:
  assumes "local_inv s" and "0 \<le> sint e" and "sint e \<le> sint MaxEstimate"
  shows "if 0 \<le> local_limit s
     then (\<exists>h s'. ledger_reserve [] background e s = (Inr h, s'))
       \<longleftrightarrow> sint e \<le> sint (sn_remaining (snapshot_action (ls_ledger s)))
     else sn_remaining (snapshot_action (ls_ledger s)) = -1"
proof (cases "0 \<le> local_limit s")
  case False
  then show ?thesis
    by (simp add: snapshot_action_def local_limit_def i64_simps Let_def)
next
  case True
  let ?l = "ls_ledger s"
  have u: "0 \<le> local_used s"
    using assms(1) by (rule local_used_nonneg)
  have "sint (lg_limit ?l - lg_used ?l) = local_limit s - local_used s"
    using u True sint_upper [of "lg_limit ?l"] sint_upper [of "lg_used ?l"]
    unfolding local_limit_def local_used_def by (intro sint_diff_i64) simp_all
  then have "sint (sn_remaining (snapshot_action ?l)) = local_limit s - local_used s"
    using True by (simp add: snapshot_action_def local_limit_def i64_simps Let_def)
  moreover have "local_fits s e \<longleftrightarrow> local_used s + sint e \<le> local_limit s"
    using True sint_upper [of "lg_limit ?l"] by (auto simp: local_fits_def local_limit_def)
  moreover have "(\<exists>h s'. ledger_reserve [] background e s = (Inr h, s')) \<longleftrightarrow> local_fits s e"
    using ledger_reserve_alone [OF assms] by (auto split: if_splits)
  ultimately show ?thesis
    using True by auto
qed

theorem snapshot_remaining_admits_witness:
  "sn_remaining (snapshot_action (NewLedger 100 USD)) = 100
   \<and> (\<exists>h s'. ledger_reserve [] background 100 (new_local 100 USD 0) = (Inr h, s'))"
proof -
  have r: "sn_remaining (snapshot_action (NewLedger 100 USD)) = 100"
    by (simp add: snapshot_action_def NewLedger_def i64_simps)
  then show ?thesis
    using snapshot_remaining_admits [OF new_local_abs(1), of 100 100 USD 0]
    by (simp add: sint_MaxEstimate) (simp add: new_local_def)
qed

end
