(* ===== verification/Settings.thy ===== *)
theory Settings
  imports Money GoConf Durable Runtime Report
begin

text \<open>
  The configuration: the \<open>@require\<close> block and what becomes of it (\<open>nexssflow/library.go\<close>,
  \<open>newPostgresStore\<close> and \<open>parsePostgresSettings\<close> in \<open>nexssflow/postgres.go\<close>, and
  \<open>newStorageQuotaStore\<close> in \<open>nexssflow/storage_backend.go\<close>).  The decoder of the block
  (\<open>compiler.Decode\<close>), the environment, and opening a database or a store are not part of
  the repository: they are arguments.
\<close>

section \<open>The options\<close>

record config =
  cf_backend :: string
  cf_budget :: i64
  cf_currency :: string
  cf_dsn :: string
  cf_schema_mode :: string
  cf_accounting_mode :: string
  cf_scope_prefix :: string
  cf_tenant_field :: string
  cf_user_field :: string
  cf_wallet_field :: string
  cf_reservation_ttl :: string
  cf_max_open_conns :: i64
  cf_max_idle_conns :: i64
  cf_storage_path :: string
  cf_storage_namespace :: string

text \<open>The defaults in the tags of the fields.\<close>

definition default_config :: config where
  "default_config = \<lparr>cf_backend = ''memory'', cf_budget = -1, cf_currency = ''USD'', cf_dsn = [],
     cf_schema_mode = ''external'', cf_accounting_mode = ''monthly'', cf_scope_prefix = ''support-quota'',
     cf_tenant_field = ''customer_id'', cf_user_field = ''user_id'', cf_wallet_field = ''wallet_id'',
     cf_reservation_ttl = ''5m'', cf_max_open_conns = 10, cf_max_idle_conns = 5,
     cf_storage_path = [], cf_storage_namespace = ''cost-runtime-v1''\<rparr>"

definition accepted_options :: "string list" where
  "accepted_options = [''backend'', ''budget'', ''currency'', ''dsn'', ''schema_mode'', ''accounting_mode'',
     ''scope_prefix'', ''tenant_field'', ''user_field'', ''wallet_field'',
     ''reservation_ttl'', ''max_open_conns'', ''max_idle_conns'', ''storage_path'', ''storage_namespace'']"

definition postgres_only_options :: "string list" where
  "postgres_only_options = [''dsn'', ''schema_mode'', ''accounting_mode'', ''scope_prefix'',
     ''tenant_field'', ''user_field'', ''wallet_field'', ''reservation_ttl'',
     ''max_open_conns'', ''max_idle_conns'']"

definition storage_only_options :: "string list" where
  "storage_only_options = [''storage_path'', ''storage_namespace'']"

type_synonym opts = "string \<Rightarrow> string option"

section \<open>The PostgreSQL settings\<close>

record postgres_settings =
  st_dsn :: string
  st_budget :: i64
  st_currency :: currency
  st_schema_mode :: string
  st_accounting_mode :: string
  st_scope_prefix :: string
  st_tenant_field :: string
  st_user_field :: string
  st_wallet_field :: string
  st_ttl :: i64
  st_max_open :: i64
  st_max_idle :: i64

definition control_chars :: string where
  "control_chars = [CHR 0x00, CHR 0x0D, CHR 0x0A]"

definition validate_accounting :: "config \<Rightarrow> postgres_settings \<Rightarrow> gerr option" where
  "validate_accounting cfg st =
     (if \<not> is_identifier (st_tenant_field st)
      then Some (Errorf ''tenant_field %q must be a top-level identifier'' [FStr (st_tenant_field st)])
      else if st_accounting_mode st = ''monthly'' then
        (if st_scope_prefix st = [] \<or> 128 < length (st_scope_prefix st) \<or> contains_any (st_scope_prefix st) control_chars
         then Some (ErrorsNew ''scope_prefix must be a non-empty string of at most 128 characters'')
         else if st_budget st <s 0
         then Some (Errorf ''a PostgreSQL monthly budget must be non-negative; unlimited budgets are unsupported for durable quota (accounting_mode=%q)''
                [FStr (cf_accounting_mode cfg)])
         else None)
      else if st_schema_mode st \<noteq> ''external''
      then Some (ErrorsNew ''accounting_mode=wallet requires schema_mode=external; provision wallet tables through migrations'')
      else if \<not> is_identifier (st_user_field st)
      then Some (Errorf ''user_field %q must be a top-level identifier'' [FStr (st_user_field st)])
      else if \<not> is_identifier (st_wallet_field st)
      then Some (Errorf ''wallet_field %q must be a top-level identifier'' [FStr (st_wallet_field st)])
      else None)"

definition min_ttl :: i64 where
  "min_ttl = 1000000000"

definition parse_postgres_settings :: "(string \<Rightarrow> string) \<Rightarrow> config \<Rightarrow> currency \<Rightarrow> gerr + postgres_settings" where
  "parse_postgres_settings env cfg cur =
     (let st = \<lparr>st_dsn = trim_space (expand_env env (cf_dsn cfg)), st_budget = cf_budget cfg, st_currency = cur,
            st_schema_mode = go_lower (trim_space (cf_schema_mode cfg)),
            st_accounting_mode = go_lower (trim_space (cf_accounting_mode cfg)),
            st_scope_prefix = trim_space (cf_scope_prefix cfg), st_tenant_field = cf_tenant_field cfg,
            st_user_field = cf_user_field cfg, st_wallet_field = cf_wallet_field cfg, st_ttl = 0,
            st_max_open = cf_max_open_conns cfg, st_max_idle = cf_max_idle_conns cfg\<rparr> in
      if st_dsn st = []
      then Inl (ErrorsNew ''backend=postgres requires dsn; use an environment reference such as $COST_POSTGRES_DSN'')
      else if st_schema_mode st \<noteq> ''external'' \<and> st_schema_mode st \<noteq> ''auto''
      then Inl (Errorf ''schema_mode %q must be external or auto'' [FStr (cf_schema_mode cfg)])
      else
        let st = (if st_accounting_mode st = [] then st\<lparr>st_accounting_mode := ''monthly''\<rparr> else st) in
        if st_accounting_mode st \<noteq> ''monthly'' \<and> st_accounting_mode st \<noteq> ''wallet''
        then Inl (Errorf ''accounting_mode %q must be monthly or wallet'' [FStr (cf_accounting_mode cfg)])
        else case validate_accounting cfg st of
          Some e \<Rightarrow> Inl e
        | None \<Rightarrow>
            (let short = Inl (Errorf ''reservation_ttl must be at least 1s: %q'' [FStr (cf_reservation_ttl cfg)]) in
             case parse_duration (trim_space (cf_reservation_ttl cfg)) of
               None \<Rightarrow> short
             | Some ttl \<Rightarrow>
                 if ttl <s min_ttl then short
                 else
                   let st = st\<lparr>st_ttl := ttl\<rparr> in
                   if st_max_open st <s 1 then Inl (ErrorsNew ''max_open_conns must be at least 1'')
                   else if st_max_idle st <s 0 then Inl (ErrorsNew ''max_idle_conns must not be negative'')
                   else Inr (st\<lparr>st_max_idle := (if st_max_open st <s st_max_idle st then st_max_open st else st_max_idle st)\<rparr>)))"

text \<open>
  \<open>open_db\<close> is the error of \<open>sql.Open\<close> for a data source name, \<open>ping\<close> that of the first
  contact.  The limits of the connection pool are not part of the model of a store.
\<close>

definition new_postgres_store ::
  "(string \<Rightarrow> string) \<Rightarrow> (string \<Rightarrow> gerr option) \<Rightarrow> (string \<Rightarrow> gerr option) \<Rightarrow> config \<Rightarrow> currency
    \<Rightarrow> gerr + postgres_store" where
  "new_postgres_store env open_db ping cfg cur =
     (case parse_postgres_settings env cfg cur of
        Inl e \<Rightarrow> Inl e
      | Inr st \<Rightarrow>
     (case open_db (st_dsn st) of
        Some e \<Rightarrow> Inl (wrapf ''open PostgreSQL connection: %w'' e)
      | None \<Rightarrow>
     (case ping (st_dsn st) of
        Some e \<Rightarrow> Inl (wrapf ''connect to PostgreSQL: %w'' e)
      | None \<Rightarrow> Inr \<lparr>ps_budget = st_budget st, ps_currency = st_currency st, ps_schema_mode = st_schema_mode st,
          ps_accounting_mode = st_accounting_mode st, ps_scope_prefix = st_scope_prefix st,
          ps_tenant_field = st_tenant_field st, ps_user_field = st_user_field st,
          ps_wallet_field = st_wallet_field st, ps_ttl = st_ttl st\<rparr>)))"

section \<open>The storage backend\<close>

text \<open>
  \<open>register\<close> is the error of registering the SQLite backend, \<open>open_store\<close> opens a path and
  a namespace, and \<open>assert_atomic\<close> is \<open>storage.AssertAtomicKV\<close>.
\<close>

definition new_storage_quota_store ::
  "(string \<Rightarrow> string) \<Rightarrow> gerr option \<Rightarrow> (string \<Rightarrow> string \<Rightarrow> gerr + 'i) \<Rightarrow> ('i \<Rightarrow> gerr + 'k kv_update) \<Rightarrow> config
    \<Rightarrow> gerr + 'k kv_update" where
  "new_storage_quota_store env register open_store assert_atomic cfg =
     (let path = trim_space (expand_env env (cf_storage_path cfg)) in
      if path = [] then Inl (ErrorsNew ''backend=storage requires storage_path'')
      else
        let namespace = trim_space (cf_storage_namespace cfg) in
        if namespace = [] \<or> 128 < length namespace \<or> contains_any namespace control_chars
        then Inl (ErrorsNew ''storage_namespace must be a non-empty string of at most 128 characters'')
        else case register of
          Some e \<Rightarrow> Inl (wrapf ''register SQLite storage backend: %w'' e)
        | None \<Rightarrow>
            (case open_store path namespace of
               Inl e \<Rightarrow> Inl (wrapf ''open runtime budget storage: %w'' e)
             | Inr inst \<Rightarrow>
                 (case assert_atomic inst of
                    Inl e \<Rightarrow> Inl (wrapf ''runtime budget storage needs atomic KV support: %w'' e)
                  | Inr kv \<Rightarrow> Inr kv)))"

section \<open>The bundle\<close>

text \<open>A panic with \<open>"cost: " + err.Error()\<close>, or with a text of its own.\<close>

datatype bundle_panic =
    PanicError gerr
  | PanicText string "fmt_arg list"

text \<open>
  What a bundle is made of: the ledger behind the actions and the guard, or the store
  behind the middleware.
\<close>

datatype 'k flow_bundle =
    MemoryBundle ledger
  | PostgresBundle postgres_store
  | StorageBundle "'k kv_update"

text \<open>\<open>unmarshal_text\<close> returns the receiver that the pointer leads to.\<close>

definition parse_currency :: "string \<Rightarrow> bundle_panic + currency" where
  "parse_currency code =
     (case unmarshal_text (Some empty_currency) (go_upper (trim_space code)) of
        (Some e, _) \<Rightarrow> Inl (PanicError e)
      | (None, None) \<Rightarrow> Inr empty_currency
      | (None, Some c) \<Rightarrow> Inr c)"

fun reject_options_for_backend :: "opts \<Rightarrow> string list \<Rightarrow> string \<Rightarrow> bundle_panic option" where
  "reject_options_for_backend opts [] backend = None"
| "reject_options_for_backend opts (key # keys) backend =
     (if opts key \<noteq> None then Some (PanicText ''cost: option %q requires backend=%s'' [FStr key, FStr backend])
      else reject_options_for_backend opts keys backend)"

definition new_bundle :: "ledger option \<Rightarrow> bundle_panic + 'k flow_bundle" where
  "new_bundle ledger =
     (case ledger of None \<Rightarrow> Inl (PanicText ''cost: nil ledger'' []) | Some l \<Rightarrow> Inr (MemoryBundle l))"

definition memory_bundle :: "opts \<Rightarrow> config \<Rightarrow> currency \<Rightarrow> bundle_panic + 'k flow_bundle" where
  "memory_bundle opts cfg cur =
     (case reject_options_for_backend opts postgres_only_options ''postgres'' of
        Some p \<Rightarrow> Inl p
      | None \<Rightarrow>
     (case reject_options_for_backend opts storage_only_options ''storage'' of
        Some p \<Rightarrow> Inl p
      | None \<Rightarrow> new_bundle (Some (NewLedger (cf_budget cfg) cur))))"

definition configured_postgres_bundle ::
  "(config \<Rightarrow> currency \<Rightarrow> gerr + postgres_store) \<Rightarrow> opts \<Rightarrow> config \<Rightarrow> currency \<Rightarrow> bundle_panic + 'k flow_bundle" where
  "configured_postgres_bundle new_store opts cfg cur =
     (case reject_options_for_backend opts storage_only_options ''storage'' of
        Some p \<Rightarrow> Inl p
      | None \<Rightarrow>
          if equal_fold (trim_space (cf_accounting_mode cfg)) ''wallet'' \<and> opts ''budget'' \<noteq> None
          then Inl (PanicText ''cost: budget is not accepted with accounting_mode=wallet; provision wallet balances in PostgreSQL'' [])
          else case new_store cfg cur of
            Inl e \<Rightarrow> Inl (PanicError e)
          | Inr store \<Rightarrow> Inr (PostgresBundle store))"

definition configured_storage_bundle ::
  "(config \<Rightarrow> gerr + 'k kv_update) \<Rightarrow> opts \<Rightarrow> config \<Rightarrow> bundle_panic + 'k flow_bundle" where
  "configured_storage_bundle new_store opts cfg =
     (if opts ''budget'' \<noteq> None
      then Inl (PanicText ''cost: budget is stored per tenant in Storage; do not set budget in @require'' [])
      else case reject_options_for_backend opts postgres_only_options ''postgres'' of
        Some p \<Rightarrow> Inl p
      | None \<Rightarrow>
          (case new_store cfg of
             Inl e \<Rightarrow> Inl (PanicError e)
           | Inr kv \<Rightarrow> Inr (StorageBundle kv)))"

text \<open>\<open>Bundle\<close>, with the decoder and the constructors of the two stores as arguments.\<close>

definition make_bundle ::
  "(opts \<Rightarrow> gerr + config) \<Rightarrow> (config \<Rightarrow> currency \<Rightarrow> gerr + postgres_store) \<Rightarrow> (config \<Rightarrow> gerr + 'k kv_update)
    \<Rightarrow> opts \<Rightarrow> bundle_panic + 'k flow_bundle" where
  "make_bundle decode new_postgres new_storage opts =
     (case decode opts of
        Inl e \<Rightarrow> Inl (PanicError e)
      | Inr cfg \<Rightarrow>
     (case parse_currency (cf_currency cfg) of
        Inl p \<Rightarrow> Inl p
      | Inr cur \<Rightarrow>
          let backend = go_lower (trim_space (cf_backend cfg)) in
          if backend = ''memory'' then memory_bundle opts cfg cur
          else if backend = ''postgres'' then configured_postgres_bundle new_postgres opts cfg cur
          else if backend = ''storage'' then configured_storage_bundle new_storage opts cfg
          else Inl (PanicText ''cost: unsupported backend %q (want memory, postgres, or storage)'' [FStr (cf_backend cfg)])))"

section \<open>The modifier\<close>

text \<open>What \<open>:cost_estimate\<close> puts around an action.\<close>

datatype hook =
    DynamicGuard estimate_spec
  | LiteralGuard i64
  | QuotaMiddleware estimate_spec string

definition cost_estimate_apply :: "(estimate_spec \<Rightarrow> hook) \<Rightarrow> string \<Rightarrow> gerr + hook" where
  "cost_estimate_apply apply_estimate raw =
     (case parse_estimate_spec raw of Inl e \<Rightarrow> Inl e | Inr estimate \<Rightarrow> Inr (apply_estimate estimate))"

definition cost_estimate_modifier :: "string \<Rightarrow> gerr + hook" where
  "cost_estimate_modifier =
     cost_estimate_apply (\<lambda>estimate. if dynamic estimate then DynamicGuard estimate else LiteralGuard (es_literal estimate))"

text \<open>\<open>meta\<close> is the name in the description of the action, if it has one.\<close>

definition store_modifier :: "string option \<Rightarrow> string \<Rightarrow> gerr + hook" where
  "store_modifier meta =
     cost_estimate_apply (\<lambda>estimate. QuotaMiddleware estimate (case meta of None \<Rightarrow> [] | Some name \<Rightarrow> name))"

end
