(* ===== verification/SettingsSpec.thy ===== *)
theory SettingsSpec
  imports Settings DurableSpec
begin

text \<open>
  What the configuration guarantees: the settings that pass the checks are sound, options of
  another backend are refused, durations are read exactly, and the budget that a request
  of a configured store meets in the database is the configured one.
\<close>

section \<open>Durations\<close>

lemma fold_digits_mono: "x \<le> fold (\<lambda>c n. 10 * n + digit_val c) ds x"
proof (induction ds arbitrary: x)
  case (Cons c ds)
  have "x \<le> 10 * x + digit_val c" by simp
  also have "\<dots> \<le> fold (\<lambda>c n. 10 * n + digit_val c) ds (10 * x + digit_val c)" by (rule Cons.IH)
  finally show ?case by simp
qed simp

lemma leading_int_digits:
  assumes "list_all is_digit ds" and "r = [] \<or> \<not> is_digit (hd r)" and "x \<le> 2 ^ 63"
  shows "leading_int x (ds @ r) =
    (let v = fold (\<lambda>c n. 10 * n + digit_val c) ds x in if v \<le> 2 ^ 63 then Some (v, r) else None)"
  using assms
proof (induction ds arbitrary: x)
  case Nil
  then show ?case by (cases r) auto
next
  case (Cons c ds)
  let ?y = "10 * x + digit_val c"
  have "?y \<le> fold (\<lambda>c n. 10 * n + digit_val c) ds ?y" by (rule fold_digits_mono)
  then show ?case using Cons by (auto simp: Let_def)
qed

lemma parse_duration_unit:
  assumes "(u, unit) \<in> set unit_map"
  shows "parse_duration (nat_digits n @ u) =
    (if int n * int unit \<le> max_int64 then Some (word_of_int (int n * int unit)) else None)"
proof -
  have u: "u \<noteq> []" "\<not> is_digit (hd u)" "takeWhile unit_char u = u" "hd u \<noteq> CHR ''.''" "map_of unit_map u = Some unit"
    and unit: "0 < unit" "2 ^ 63 div unit * unit \<le> (2 ^ 63 :: nat)"
    using assms by (auto simp: unit_map_def unit_char_def is_digit_def less_eq_char_def)
  obtain c cs where c: "nat_digits n = c # cs" "c \<noteq> CHR ''-''" "c \<noteq> CHR ''+''" "is_digit c"
    using nat_digits_hd [of n] nat_digits_all [of n] by auto
  have sign: "strip_sign (nat_digits n @ u) = (False, nat_digits n @ u)" using c by (simp add: strip_sign_def)
  have zero: "nat_digits n @ u \<noteq> ''0''" using c u(1) by (cases u) auto
  have "fold (\<lambda>c n. 10 * n + digit_val c) (nat_digits n) 0 = n"
    using digits_val_nat_digits [of n] by (simp add: digits_val_def)
  then have int: "leading_int 0 (nat_digits n @ u) = (if n \<le> 2 ^ 63 then Some (n, u) else None)"
    using leading_int_digits [OF nat_digits_all, of u 0 n] u(2) by (simp add: Let_def)
  have le: "n * unit \<le> 2 ^ 63 \<longleftrightarrow> n \<le> 2 ^ 63 div unit" using unit(1) by (simp add: less_eq_div_iff_mult_less_eq)
  have small: "n \<le> n * unit" using unit(1) by simp
  have hd: "is_digit (hd (nat_digits n @ u))" and len: "length u \<noteq> length (nat_digits n @ u)" using c by simp_all
  have step: "duration_step (nat_digits n @ u) = (if n * unit \<le> 2 ^ 63 then Some (n * unit, []) else None)"
  proof (cases "n \<le> 2 ^ 63")
    case True
    then have "leading_int 0 (nat_digits n @ u) = Some (n, u)" using int by simp
    then have "duration_step (nat_digits n @ u) = map_option (\<lambda>v. (v, [])) (duration_part n 0 1 unit)"
      unfolding duration_step_def using hd len u(1,4) by (simp add: u(3,5) Let_def)
    then show ?thesis using le by (simp add: duration_part_def)
  next
    case False
    then have "\<not> n * unit \<le> 2 ^ 63" using small by linarith
    then show ?thesis using int False hd by (simp add: duration_step_def)
  qed
  have loop: "duration_loop 0 (nat_digits n @ u) = (if n * unit \<le> 2 ^ 63 then Some (n * unit) else None)"
    using step u(1) by (subst duration_loop.simps) (auto simp: duration_loop.simps [of _ "[]"] Let_def)
  have "int n * int unit \<le> max_int64 \<longleftrightarrow> n * unit < 2 ^ 63"
    by (simp flip: of_nat_mult) linarith
  then show ?thesis
    using sign zero u(1) loop by (auto simp: parse_duration_def word_of_nat_eq_iff simp flip: of_nat_mult)
qed

text \<open>
  A number with a unit is read exactly: for every unit that Go knows, the number times
  the unit in nanoseconds if that fits a \<open>time.Duration\<close>, and an error otherwise.
\<close>

theorem parse_duration_exact:
  assumes "(u, unit) \<in> set unit_map"
  shows "parse_duration (nat_digits n @ u) =
    (if int n * int unit \<le> max_int64 then Some (word_of_int (int n * int unit)) else None)"
  by (rule parse_duration_unit [OF assms])

text \<open>The default of five minutes.\<close>

theorem parse_duration_exact_witness: "parse_duration ''5m'' = Some 300000000000"
proof -
  have "(''m'', 60000000000) \<in> set unit_map" by (simp add: unit_map_def)
  moreover have "digit_char 5 = CHR ''5''" by code_simp
  ultimately show ?thesis
    using parse_duration_exact [of "''m''" 60000000000 5] by (simp add: nat_digits.simps)
qed

section \<open>The settings\<close>

text \<open>What the rest of the code relies on.\<close>

definition sound_settings :: "postgres_settings \<Rightarrow> bool" where
  "sound_settings st \<longleftrightarrow> st_dsn st \<noteq> [] \<and> st_schema_mode st \<in> {''external'', ''auto''}
     \<and> st_accounting_mode st \<in> {''monthly'', ''wallet''} \<and> is_identifier (st_tenant_field st)
     \<and> (st_accounting_mode st = ''monthly'' \<longrightarrow> st_scope_prefix st \<noteq> [] \<and> length (st_scope_prefix st) \<le> 128
          \<and> set (st_scope_prefix st) \<inter> set control_chars = {} \<and> 0 \<le> sint (st_budget st))
     \<and> (st_accounting_mode st = ''wallet'' \<longrightarrow> st_schema_mode st = ''external''
          \<and> is_identifier (st_user_field st) \<and> is_identifier (st_wallet_field st))
     \<and> sint min_ttl \<le> sint (st_ttl st) \<and> 1 \<le> sint (st_max_open st)
     \<and> 0 \<le> sint (st_max_idle st) \<and> sint (st_max_idle st) \<le> sint (st_max_open st)"

lemma settings_checked:
  assumes "parse_postgres_settings env cfg cur = Inr st"
  shows "sound_settings st \<and> st_currency st = cur"
proof -
  have valid: "validate_accounting cfg x = None \<longleftrightarrow> is_identifier (st_tenant_field x)
      \<and> (if st_accounting_mode x = ''monthly'' then st_scope_prefix x \<noteq> [] \<and> length (st_scope_prefix x) \<le> 128
            \<and> \<not> contains_any (st_scope_prefix x) control_chars \<and> 0 \<le> sint (st_budget x)
         else st_schema_mode x = ''external'' \<and> is_identifier (st_user_field x) \<and> is_identifier (st_wallet_field x))" for x
    by (simp add: validate_accounting_def i64_simps not_less)
  have any: "contains_any s cs \<longleftrightarrow> set s \<inter> set cs \<noteq> {}" for s cs
    by (auto simp: contains_any_def list_ex_iff)
  show ?thesis
    using assms
    by (auto simp: parse_postgres_settings_def sound_settings_def valid any i64_simps not_less Let_def
        split: if_splits option.splits)
qed

text \<open>
  C32.  Settings that pass the checks are sound: a data source, a known schema and accounting
  mode, in monthly mode a finite budget and a scope prefix of at most 128 bytes on one
  line, in wallet mode tables that are not made by the code and field names that are
  identifiers, a lease of at least a second, and no more idle connections than open ones.
\<close>

theorem settings_sound:
  assumes "parse_postgres_settings env cfg cur = Inr st"
  shows "sound_settings st \<and> st_currency st = cur"
  by (rule settings_checked [OF assms])

definition sample_config :: config where
  "sample_config = default_config\<lparr>cf_dsn := ''$COST_POSTGRES_DSN'', cf_budget := 1000\<rparr>"

definition sample_env :: "string \<Rightarrow> string" where
  "sample_env name = (if name = ''COST_POSTGRES_DSN'' then ''postgres://db'' else [])"

definition sample_settings :: postgres_settings where
  "sample_settings = \<lparr>st_dsn = ''postgres://db'', st_budget = 1000, st_currency = USD, st_schema_mode = ''external'',
     st_accounting_mode = ''monthly'', st_scope_prefix = ''support-quota'', st_tenant_field = ''customer_id'',
     st_user_field = ''user_id'', st_wallet_field = ''wallet_id'', st_ttl = 300000000000, st_max_open = 10, st_max_idle = 5\<rparr>"

lemma five_minutes: "parse_duration ''5m'' = Some 300000000000"
proof -
  have "digit_char 5 = CHR ''5''" by code_simp
  then have "nat_digits 5 @ ''m'' = ''5m''" by (simp add: nat_digits.simps)
  moreover have "(''m'', 60000000000) \<in> set unit_map" by (simp add: unit_map_def)
  ultimately show ?thesis using parse_duration_unit [of "''m''" 60000000000 5] by simp
qed

lemma sample_settings: "parse_postgres_settings sample_env sample_config USD = Inr sample_settings"
proof -
  have trim: "trim_space s = s" if "list_all graphic s" for s using that by (rule trim_space_graphic)
  have names: "is_identifier ''customer_id''" by code_simp
  have "expand_env sample_env ''$COST_POSTGRES_DSN'' = ''postgres://db''"
    by (simp add: shell_name_def special_var_def alpha_num_def is_digit_def less_eq_char_def sample_env_def)
  moreover have "trim_space ''postgres://db'' = ''postgres://db''" "trim_space ''external'' = ''external''"
    "trim_space ''monthly'' = ''monthly''" "trim_space ''support-quota'' = ''support-quota''" "trim_space ''5m'' = ''5m''"
    by (rule trim; simp add: graphic_def less_char_def)+
  moreover have "go_lower ''external'' = ''external''" "go_lower ''monthly'' = ''monthly''"
    by (simp_all add: ascii_lower_def less_eq_char_def)
  ultimately show ?thesis
    by (simp add: parse_postgres_settings_def sample_config_def default_config_def sample_settings_def validate_accounting_def
        names contains_any_def control_chars_def five_minutes min_ttl_def i64_simps)
qed

text \<open>The default options with a budget and a data source from the environment.\<close>

theorem settings_sound_witness: "sound_settings sample_settings"
  using settings_sound [OF sample_settings] by blast

section \<open>The options\<close>


text \<open>
  A mode that \<open>ToLower\<close> makes the word wallet is the word wallet for \<open>EqualFold\<close>, so the two
  tests of the code agree.
\<close>

lemma lower_is_fold: "go_lower s = t \<Longrightarrow> set t \<inter> {CHR ''i'', CHR ''k'', CHR 0xC5} = {} \<Longrightarrow> fold_name s = t"
proof (induction s arbitrary: t rule: go_lower.induct)
  case (1 a b c cs)
  have "CHR 0xC5 \<noteq> CHR 0xE2" "ascii_lower (CHR 0xC5) = CHR 0xC5" by (simp_all add: ascii_lower_def less_eq_char_def)
  then show ?case using 1 by (auto simp: fold_name.simps split: if_splits)
next
  case (2 a b)
  have "ascii_lower (CHR 0xC5) = CHR 0xC5" by (simp add: ascii_lower_def less_eq_char_def)
  then show ?case using 2 by (auto simp: fold_name.simps split: if_splits)
qed (simp_all add: fold_name.simps)

lemma wallet_fold: "go_lower s = ''wallet'' \<Longrightarrow> equal_fold s ''wallet''"
  using lower_is_fold [of s "''wallet''"] by (simp add: equal_fold_def)


lemma postgres_store_mode:
  assumes "new_postgres_store env open_db ping cfg cur = Inr st"
  shows "\<exists>x. parse_postgres_settings env cfg cur = Inr x \<and> ps_accounting_mode st = st_accounting_mode x
      \<and> ps_budget st = st_budget x \<and> ps_ttl st = st_ttl x \<and> ps_currency st = st_currency x
      \<and> st_budget x = cf_budget cfg"
    and "ps_accounting_mode st = ''wallet'' \<Longrightarrow> equal_fold (trim_space (cf_accounting_mode cfg)) ''wallet''"
proof -
  obtain x where x: "parse_postgres_settings env cfg cur = Inr x" and st: "ps_accounting_mode st = st_accounting_mode x"
    "ps_budget st = st_budget x" "ps_ttl st = st_ttl x" "ps_currency st = st_currency x"
    using assms by (auto simp: new_postgres_store_def split: sum.splits option.splits)
  have "(st_accounting_mode x = ''monthly'' \<or> st_accounting_mode x = go_lower (trim_space (cf_accounting_mode cfg)))
      \<and> st_budget x = cf_budget cfg"
    using x by (auto simp: parse_postgres_settings_def Let_def split: if_splits option.splits)
  then show "\<exists>x. parse_postgres_settings env cfg cur = Inr x \<and> ps_accounting_mode st = st_accounting_mode x
      \<and> ps_budget st = st_budget x \<and> ps_ttl st = st_ttl x \<and> ps_currency st = st_currency x
      \<and> st_budget x = cf_budget cfg"
    and "ps_accounting_mode st = ''wallet'' \<Longrightarrow> equal_fold (trim_space (cf_accounting_mode cfg)) ''wallet''"
    using x st wallet_fold by auto
qed



section \<open>The configured budget\<close>

text \<open>
  C31.  The budget of the configuration is the budget in the database.  When a request of a
  store that was configured for monthly accounting gets its ledger, in either schema mode,
  the row of its scope has the configured limit, which is not negative, so never unlimited;
  what is in use there is as before; and the leases of the ledger last as configured, at
  least a second.
\<close>

theorem configured_budget:
  assumes "new_postgres_store env open_db ping cfg cur = Inr st" and "ps_accounting_mode st = ''monthly''"
    and "ledger_for_tenant st c tenant now s = (Inr l, t)"
  shows "0 \<le> sint (cf_budget cfg) \<and> pg_limit (pl_scope l) (be_data t) = sint (cf_budget cfg)
    \<and> pg_used (pl_scope l) (be_data t) = pg_used (pl_scope l) (be_data s)
    \<and> pl_ttl l = ps_ttl st \<and> 1000000000 \<le> sint (pl_ttl l)"
proof -
  obtain x where x: "parse_postgres_settings env cfg cur = Inr x" "ps_accounting_mode st = st_accounting_mode x"
    "ps_budget st = cf_budget cfg" "ps_ttl st = st_ttl x" "st_budget x = cf_budget cfg"
    using postgres_store_mode(1) [OF assms(1)] by auto
  have sound: "0 \<le> sint (cf_budget cfg)" "1000000000 \<le> sint (ps_ttl st)"
    using settings_checked [OF x(1)] x assms(2) by (simp_all add: sound_settings_def min_ttl_def)
  obtain scope where scope: "monthly_scope (ps_scope_prefix st) tenant now = Inr scope"
    using assms(3) by (auto simp: ledger_for_tenant_def split: sum.splits)
  let ?l = "pg_new \<lparr>pl_db = True, pl_scope = scope, pl_limit = ps_budget st, pl_currency = ps_currency st, pl_ttl = ps_ttl st\<rparr>"
  have l: "pl_scope ?l = scope" "pl_limit ?l = cf_budget cfg" "pl_ttl ?l = ps_ttl st"
    using x(3) sound(2) by (simp_all add: pg_new_def i64_simps Let_def)
  have run: "(if ps_schema_mode st = ''auto'' then ensure_schema ?l c s else ensure_budget_row st c scope s) = (None, t)" "l = ?l"
    using assms(3) scope by (auto simp: ledger_for_tenant_def Let_def split: option.splits prod.splits)
  have "pg_limit scope (be_data t) = sint (cf_budget cfg) \<and> pg_used scope (be_data t) = pg_used scope (be_data s)"
  proof (cases "ps_schema_mode st = ''auto''")
    case True
    then show ?thesis using run(1) ensure_schema_effect [of ?l c s None t] l by simp
  next
    case False
    then show ?thesis
      using run(1) ensure_budget_row_state [of st c scope s None t] x(3)
      by (auto simp: sql_upsert_matching_def pg_limit_def pg_used_def split: option.splits if_splits)
  qed
  then show ?thesis using run(2) l sound by simp
qed

text \<open>The first request of a tenant with the default options and a budget of 1000.\<close>

theorem configured_budget_witness:
  "\<exists>st l t. new_postgres_store sample_env (\<lambda>_. None) (\<lambda>_. None) sample_config USD = Inr st
     \<and> ledger_for_tenant st background ''acme'' sample_month (empty_server pg_empty []) = (Inr l, t)
     \<and> pg_limit (pl_scope l) (be_data t) = 1000 \<and> pl_ttl l = 300000000000"
proof -
  obtain st where st: "new_postgres_store sample_env (\<lambda>_. None) (\<lambda>_. None) sample_config USD = Inr st"
    "ps_accounting_mode st = ''monthly''" "ps_schema_mode st = ''external''" "ps_ttl st = 300000000000"
    by (simp add: new_postgres_store_def sample_settings) (simp add: sample_settings_def)
  obtain l t where l: "ledger_for_tenant st background ''acme'' sample_month (empty_server pg_empty []) = (Inr l, t)"
    using st(3) trim_names
    by (simp add: ledger_for_tenant_def monthly_scope_def ensure_budget_row_def sql_upsert_matching_def only_error_def
        try_do_def exec_call_def empty_server_def pg_empty_def Let_def)
  show ?thesis
    using configured_budget [OF st(1,2) l] st l by (simp add: sample_config_def)
qed

end
