(* ===== verification/Agreement.thy ===== *)
theory Agreement
  imports LocalSpec
begin

text \<open>
  What a client of \<open>reserver.go\<close> sees: a program that makes calls on a ledger and keeps the
  reservations it was given in a list, the answers it gets, and a third contract, under
  which these answers are those of the abstract budget of \<open>LocalSpec\<close>.  The interpretation
  for the local ledger is here, those for the durable ledgers are in \<open>BackendsAgree\<close>.
\<close>

section \<open>Clients\<close>

text \<open>
  The answer to a call is whether it succeeded.  \<open>CallCommit n\<close> and \<open>CallRelease n\<close> act on the
  reservation that the \<open>n\<close>-th successful \<open>Reserve\<close> has returned, finished or not; a client
  that has no such reservation makes no call.
\<close>

fun client_call :: "('s, 'h) reserver \<Rightarrow> call \<Rightarrow> 'h list \<times> 's \<Rightarrow> bool \<times> 'h list \<times> 's" where
  "client_call R (CallReserve e) (hs, s) =
     (case Reserve R background e s of
        (Inl _, s) \<Rightarrow> (False, hs, s)
      | (Inr h, s) \<Rightarrow> (True, hs @ [h], s))"
| "client_call R (CallCommit n a) (hs, s) =
     (if n < length hs
      then case Commit R (hs ! n) background a s of (err, s) \<Rightarrow> (err = None, hs, s)
      else (False, hs, s))"
| "client_call R (CallRelease n) (hs, s) =
     (if n < length hs
      then case Release R (hs ! n) background s of (err, s) \<Rightarrow> (err = None, hs, s)
      else (False, hs, s))"

fun client_run :: "('s, 'h) reserver \<Rightarrow> call list \<Rightarrow> 'h list \<times> 's \<Rightarrow> bool list \<times> 'h list \<times> 's" where
  "client_run R [] x = ([], x)"
| "client_run R (c # cs) x =
     (case client_call R c x of (ok, x) \<Rightarrow>
      case client_run R cs x of (oks, x) \<Rightarrow> (ok # oks, x))"

definition client_answers :: "('s, 'h) reserver \<Rightarrow> call list \<Rightarrow> 's \<Rightarrow> bool list" where
  "client_answers R cs s = fst (client_run R cs ([], s))"

definition client_state :: "('s, 'h) reserver \<Rightarrow> call list \<Rightarrow> 's \<Rightarrow> 's" where
  "client_state R cs s = snd (snd (client_run R cs ([], s)))"

text \<open>The answers of the abstract budget, and the budget before any call.\<close>

fun spec_answer :: "call \<Rightarrow> budget \<Rightarrow> bool" where
  "spec_answer (CallReserve e) b \<longleftrightarrow> spec_fits b (sint e)"
| "spec_answer (CallCommit n a) b \<longleftrightarrow> n < bg_next b"
| "spec_answer (CallRelease n) b \<longleftrightarrow> n < bg_next b"

fun spec_answers :: "call list \<Rightarrow> budget \<Rightarrow> bool list" where
  "spec_answers [] b = []"
| "spec_answers (c # cs) b = spec_answer c b # spec_answers cs (spec_call c b)"

definition new_budget :: "int \<Rightarrow> budget" where
  "new_budget k = \<lparr>bg_limit = k, bg_used = 0, bg_spent = 0, bg_open = (\<lambda>_. None), bg_next = 0\<rparr>"

text \<open>
  A call that all ledgers answer alike: an estimate above zero, totals of at most \<open>cap\<close>, and
  a commit that stays within the limit, as the ledgers accept more and a wallet does not.
\<close>

fun modest :: "int \<Rightarrow> call \<Rightarrow> budget \<Rightarrow> bool" where
  "modest cap (CallReserve e) b \<longleftrightarrow>
     0 < sint e \<and> sint e \<le> sint MaxEstimate \<and> bg_used b + sint e \<le> cap"
| "modest cap (CallCommit n a) b \<longleftrightarrow> bg_used (spec_call (CallCommit n a) b) \<le> min cap (bg_limit b)"
| "modest cap (CallRelease n) b \<longleftrightarrow> True"

fun modest_run :: "int \<Rightarrow> call list \<Rightarrow> budget \<Rightarrow> bool" where
  "modest_run cap [] b \<longleftrightarrow> True"
| "modest_run cap (c # cs) b \<longleftrightarrow> modest cap c b \<and> modest_run cap cs (spec_call c b)"

section \<open>The contract\<close>

text \<open>
  \<open>apart s\<close> says that the reservations are told apart, now and in the future.  A call then
  touches no reservation but its own, and a reservation that \<open>Reserve\<close> returns is new.
\<close>

locale isolated_reserver = prompt_reserver +
  fixes apart :: "'a \<Rightarrow> bool"
  assumes reserve_frame:
      "inv s \<Longrightarrow> apart s \<Longrightarrow> Reserve R background e s = (res, s') \<Longrightarrow>
         apart s' \<and> (\<forall>h. res = Inr h \<longrightarrow> held s h = None \<and> \<not> finished s h)"
    and reserve_others:
      "inv s \<Longrightarrow> apart s \<Longrightarrow> Reserve R background e s = (res, s') \<Longrightarrow>
         (held s h = Some r \<longrightarrow> 0 < r \<longrightarrow> held s' h = Some r) \<and> (finished s h \<longrightarrow> finished s' h)"
    and commit_frame:
      "inv s \<Longrightarrow> apart s \<Longrightarrow> held s k = Some q \<Longrightarrow> 0 < q \<Longrightarrow> Commit R k background a s = (None, s') \<Longrightarrow>
         apart s' \<and> (h \<noteq> k \<longrightarrow> (held s h = Some r \<longrightarrow> 0 < r \<longrightarrow> held s' h = Some r)
           \<and> (finished s h \<longrightarrow> finished s' h))"
    and release_frame:
      "inv s \<Longrightarrow> apart s \<Longrightarrow> held s k = Some q \<Longrightarrow> 0 < q \<Longrightarrow> Release R k background s = (None, s') \<Longrightarrow>
         apart s' \<and> (h \<noteq> k \<longrightarrow> (held s h = Some r \<longrightarrow> 0 < r \<longrightarrow> held s' h = Some r)
           \<and> (finished s h \<longrightarrow> finished s' h))"
begin

text \<open>The client's list and the ledger match the budget.\<close>

definition matches :: "budget \<Rightarrow> 'b list \<times> 'a \<Rightarrow> bool" where
  "matches b x \<longleftrightarrow> (case x of (hs, s) \<Rightarrow>
     inv s \<and> apart s \<and> used s = bg_used b \<and> limit s = bg_limit b \<and> 0 \<le> bg_limit b
     \<and> distinct hs \<and> length hs = bg_next b
     \<and> (\<forall>n<length hs. case bg_open b n of
          Some r \<Rightarrow> 0 < r \<and> held s (hs ! n) = Some r
        | None \<Rightarrow> finished s (hs ! n))
     \<and> (\<forall>n. length hs \<le> n \<longrightarrow> bg_open b n = None))"

lemma matches_reserve:
  assumes "matches b (hs, s)" and "modest cap (CallReserve e) b" and "cap \<le> max_int64"
  shows "case client_call R (CallReserve e) (hs, s) of
    (ok, x) \<Rightarrow> ok = spec_answer (CallReserve e) b \<and> matches (spec_call (CallReserve e) b) x"
proof -
  note m = assms(1) [unfolded matches_def, simplified]
  have e: "0 < sint e" "sint e \<le> sint MaxEstimate" "used s + sint e \<le> cap" using assms(2) m by auto
  have fits: "spec_fits b (sint e) \<longleftrightarrow> used s + sint e \<le> limit s"
    using e m assms(3) by (auto simp: spec_fits_def)
  show ?thesis
  proof (cases "used s + sint e \<le> limit s")
    case True
    then obtain h s' where r: "Reserve R background e s = (Inr h, s')" "used s' = used s + sint e"
      using reserve_prompt [of s e] e m by auto
    note ok = reserve_ok [OF _ r(1)] and fr = reserve_frame [OF _ _ r(1)] and ot = reserve_others [OF _ _ r(1)]
    have new: "h \<notin> set hs"
    proof
      assume "h \<in> set hs"
      then obtain n where "n < length hs" "hs ! n = h" by (auto simp: in_set_conv_nth)
      then show False using m fr by (auto split: option.splits)
    qed
    have "case ((bg_open b)(bg_next b \<mapsto> sint e)) n of
          Some r \<Rightarrow> 0 < r \<and> held s' ((hs @ [h]) ! n) = Some r
        | None \<Rightarrow> finished s' ((hs @ [h]) ! n)" if "n < Suc (length hs)" for n
      using that m ok ot e by (auto simp: nth_append less_Suc_eq split: option.splits)
    then show ?thesis
      using r fits True m ok fr new limit_fixed(1) [OF _ r(1)] by (simp add: matches_def)
  next
    case False
    then obtain x s' where r: "Reserve R background e s = (Inl x, s')" "used s' = used s"
      using reserve_denied [of s e] e m by auto
    show ?thesis
      using r fits False m reserve_err [OF _ r(1)] reserve_frame [OF _ _ r(1)] reserve_others [OF _ _ r(1)]
        limit_fixed(1) [OF _ r(1)] by (auto simp: matches_def split: option.splits)
  qed
qed

lemma matches_settle:
  assumes m: "matches b (hs, s)" and n: "n < length hs" and r: "bg_open b n = Some r"
    and ok: "inv s'" "apart s'" "finished s' (hs ! n)" "used s' = bg_used b'" "limit s' = limit s"
    and others: "\<And>h r. h \<noteq> hs ! n \<Longrightarrow>
      (held s h = Some r \<longrightarrow> 0 < r \<longrightarrow> held s' h = Some r) \<and> (finished s h \<longrightarrow> finished s' h)"
    and b': "bg_open b' = (bg_open b)(n := None)" "bg_limit b' = bg_limit b" "bg_next b' = bg_next b"
  shows "matches b' (hs, s')"
proof -
  have "case bg_open b' i of Some r \<Rightarrow> 0 < r \<and> held s' (hs ! i) = Some r | None \<Rightarrow> finished s' (hs ! i)"
    if i: "i < length hs" for i
  proof (cases "i = n")
    case True
    then show ?thesis using b'(1) ok(3) by simp
  next
    case False
    then have "hs ! i \<noteq> hs ! n"
      using m n i by (auto simp: matches_def nth_eq_iff_index_eq)
    from others [OF this] show ?thesis
      using m i b'(1) False by (auto simp: matches_def split: option.splits)
  qed
  then show ?thesis
    using m ok b' by (simp add: matches_def)
qed

lemma matches_closed:
  assumes "matches b (hs, s)" and "bg_open b n = None"
  shows "length hs = bg_next b" and "n < length hs \<Longrightarrow> finished s (hs ! n)"
  using assms by (auto simp: matches_def split: option.splits)

lemma matches_open:
  assumes m: "matches b (hs, s)" and r: "bg_open b n = Some r"
  shows "n < length hs" and "0 < r" and "held s (hs ! n) = Some r"
proof -
  have "\<not> length hs \<le> n" using m r by (auto simp: matches_def)
  then show n: "n < length hs" by simp
  have "case bg_open b n of Some r \<Rightarrow> 0 < r \<and> held s (hs ! n) = Some r | None \<Rightarrow> finished s (hs ! n)"
    using m n by (simp add: matches_def)
  then show "0 < r" and "held s (hs ! n) = Some r" using r by simp_all
qed

lemma matches_commit:
  assumes m: "matches b (hs, s)" and modest: "modest cap (CallCommit n a) b"
  shows "case client_call R (CallCommit n a) (hs, s) of
    (ok, x) \<Rightarrow> ok = spec_answer (CallCommit n a) b \<and> matches (spec_call (CallCommit n a) b) x"
proof (cases "bg_open b n")
  case None
  then show ?thesis
    using m matches_closed [OF m] finished_commit [of s "hs ! n" a] by simp
next
  case (Some r)
  note n = matches_open(1) [OF m Some] and h = matches_open(2,3) [OF m Some]
  have inv: "inv s" "apart s" using m by (simp_all add: matches_def)
  have room: "used s - r + max 0 (sint a) \<le> cap" "used s - r + max 0 (sint a) \<le> limit s"
    using modest m Some by (auto simp: matches_def)
  then obtain s' where c: "Commit R (hs ! n) background a s = (None, s')" "used s' = used s - r + max 0 (sint a)"
    using commit_prompt [OF inv(1) h(2,1), of a] by auto
  note ok = commit_ok [OF inv(1) h(2) c(1) room(1)]
  have "matches (spec_call (CallCommit n a) b) (hs, s')"
    by (rule matches_settle [OF m n Some])
      (use ok c m Some commit_frame [OF inv h(2,1) c(1)] limit_fixed(2) [OF inv(1) c(1)] in \<open>auto simp: matches_def\<close>)
  then show ?thesis
    using c n m by (simp add: matches_def)
qed

lemma matches_release:
  assumes m: "matches b (hs, s)"
  shows "case client_call R (CallRelease n) (hs, s) of
    (ok, x) \<Rightarrow> ok = spec_answer (CallRelease n) b \<and> matches (spec_call (CallRelease n) b) x"
proof (cases "bg_open b n")
  case None
  then show ?thesis
    using m matches_closed [OF m] finished_release [of s "hs ! n"] by simp
next
  case (Some r)
  note n = matches_open(1) [OF m Some] and h = matches_open(2,3) [OF m Some]
  have inv: "inv s" "apart s" using m by (simp_all add: matches_def)
  obtain s' where c: "Release R (hs ! n) background s = (None, s')" "used s' = used s - r"
    using release_prompt [OF inv(1) h(2,1)] by auto
  note ok = release_ok [OF inv(1) h(2) c(1)]
  have "matches (spec_call (CallRelease n) b) (hs, s')"
    by (rule matches_settle [OF m n Some])
      (use ok c m Some release_frame [OF inv h(2,1) c(1)] limit_fixed(3) [OF inv(1) c(1)] in \<open>auto simp: matches_def\<close>)
  then show ?thesis
    using c n m by (simp add: matches_def)
qed

lemma matches_call:
  assumes "matches b x" and "modest cap c b" and "cap \<le> max_int64"
  shows "case client_call R c x of (ok, y) \<Rightarrow> ok = spec_answer c b \<and> matches (spec_call c b) y"
proof -
  obtain hs s where x: "x = (hs, s)" by fastforce
  show ?thesis
  proof (cases c)
    case (CallReserve e)
    show ?thesis using assms unfolding x CallReserve by (rule matches_reserve)
  next
    case (CallCommit n a)
    show ?thesis using assms(1,2) unfolding x CallCommit by (rule matches_commit)
  next
    case (CallRelease n)
    show ?thesis using assms(1) unfolding x CallRelease by (rule matches_release)
  qed
qed

lemma matches_run:
  assumes "matches b x" and "modest_run cap cs b" and "cap \<le> max_int64"
  shows "case client_run R cs x of (oks, y) \<Rightarrow> oks = spec_answers cs b \<and> matches (spec_run cs b) y"
  using assms(1,2)
proof (induction cs arbitrary: b x)
  case (Cons c cs)
  obtain ok y where c: "client_call R c x = (ok, y)" by (cases "client_call R c x")
  then have "ok = spec_answer c b" "matches (spec_call c b) y"
    using matches_call [OF Cons.prems(1) _ assms(3), of c] Cons.prems(2) by simp_all
  then show ?case
    using Cons.IH [of "spec_call c b" y] Cons.prems(2) c by (auto split: prod.splits)
qed simp

text \<open>On a fresh ledger with the limit \<open>k\<close>.\<close>

lemma fresh_agrees:
  assumes "inv s" and "apart s" and "used s = 0" and "limit s = k" and "0 \<le> k"
    and "modest_run cap cs (new_budget k)" and "cap \<le> max_int64"
  shows "client_answers R cs s = spec_answers cs (new_budget k)
    \<and> used (client_state R cs s) = bg_used (spec_run cs (new_budget k))"
proof -
  have "matches (new_budget k) ([], s)"
    using assms(1-5) by (simp add: matches_def new_budget_def)
  from matches_run [OF this assms(6,7)] show ?thesis
    by (auto simp: client_answers_def client_state_def matches_def split: prod.splits)
qed

end

lemma modest_mono: "modest cap c b \<Longrightarrow> cap \<le> cap' \<Longrightarrow> modest cap' c b"
  by (cases c) auto

lemma modest_run_mono: "modest_run cap cs b \<Longrightarrow> cap \<le> cap' \<Longrightarrow> modest_run cap' cs b"
  by (induction cs arbitrary: b) (auto intro: modest_mono)

section \<open>The local ledger\<close>

text \<open>A handle of the local ledger is the index of the reservation, so all are apart.\<close>

interpretation local_isolated: isolated_reserver
  local_ledger local_inv local_used local_limit local_held local_finished max_int64 "\<lambda>_. True"
proof (unfold_locales, goal_cases)
  case (1 s e res s')
  then show ?case
    by (cases res) (auto dest: ledger_reserve_Inr simp: local_held_def local_finished_def)
next
  case (2 s e res s' h r)
  then show ?case
    using ledger_reserve_alone_Inl [of background e s _ s']
    by (cases res) (auto dest!: ledger_reserve_Inr simp: local_held_append local_held_def local_finished_def nth_append)
next
  case (3 s k q a s' h r)
  then show ?case
    using local_commit_open [of s k q a]
    by (auto simp: local_held_def local_finished_def nth_list_update)
next
  case (4 s k q s' h r)
  then show ?case
    using local_release_open [of s k q]
    by (auto simp: local_held_def local_finished_def nth_list_update)
qed

end
