(* ===== verification/Redis.thy ===== *)
theory Redis
  imports Backend LocalLedger
begin

text \<open>
  \<open>adapters/redis/ledger.go\<close>: the ledger on a Redis server.  The three Lua scripts are
  functions on the keys of one prefix; the Go methods run them through a connection that
  can fail or lose an answer, as in \<open>Backend\<close>.
\<close>

section \<open>Numbers of Lua\<close>

text \<open>
  A Lua number is an IEEE double.  All numbers of the scripts are integers, so a double is
  the integer it stands for, and \<open>dbl\<close> rounds an integer to the nearest double, ties to
  even; the range of doubles is never left.  Redis prints a number with 17 digits, which
  reads back as the same double.
\<close>

function bit_size :: "int \<Rightarrow> nat" where
  "bit_size n = (if n \<le> 0 then 0 else Suc (bit_size (n div 2)))"
  by pat_completeness auto
termination
  by (relation "measure nat") auto

declare bit_size.simps [simp del]

definition round53 :: "int \<Rightarrow> int" where
  "round53 n =
     (let k = bit_size n - 53 in
      if k = 0 then n
      else let q = n div 2 ^ k; r = n mod 2 ^ k; half = 2 ^ (k - 1) in
        (if r < half \<or> (r = half \<and> even q) then q else q + 1) * 2 ^ k)"

definition dbl :: "int \<Rightarrow> int" where
  "dbl x = (if x < 0 then - round53 (- x) else round53 x)"

section \<open>The keys of a prefix\<close>

text \<open>
  \<open>rd_used\<close> is the key \<open>PREFIX:used\<close>, \<open>rd_values i\<close> the key \<open>PREFIX:resv:i\<close> with the
  millisecond in which it expires, \<open>rd_expiry\<close> the sorted set \<open>PREFIX:expiry\<close> in its order
  (by score, then by member), \<open>rd_spent k\<close> the counter \<open>PREFIX:spent:k\<close>.  Other prefixes
  have other keys.
\<close>

record redis_db =
  rd_used :: "int option"
  rd_values :: "string \<Rightarrow> (int \<times> int) option"
  rd_expiry :: "(string \<times> int) list"
  rd_spent :: "string \<Rightarrow> i64 option"

text \<open>An expired key is gone once the clock is past its millisecond.\<close>

definition redis_get :: "int \<Rightarrow> string \<Rightarrow> redis_db \<Rightarrow> int option" where
  "redis_get now i db =
     (case rd_values db i of
        None \<Rightarrow> None
      | Some (v, ex) \<Rightarrow> if ex < now div 1000 then None else Some v)"

text \<open>\<open>tonumber(redis.call('GET', key) or '0')\<close>.\<close>

definition get_number :: "int \<Rightarrow> string \<Rightarrow> redis_db \<Rightarrow> int" where
  "get_number now i db = (case redis_get now i db of None \<Rightarrow> 0 | Some v \<Rightarrow> v)"

definition get_used :: "redis_db \<Rightarrow> int" where
  "get_used db = (case rd_used db of None \<Rightarrow> 0 | Some v \<Rightarrow> v)"

definition redis_del :: "string \<Rightarrow> redis_db \<Rightarrow> redis_db" where
  "redis_del i db = db\<lparr>rd_values := (rd_values db)(i := None)\<rparr>"

definition zless :: "string \<times> int \<Rightarrow> string \<times> int \<Rightarrow> bool" where
  "zless x y \<longleftrightarrow> snd x < snd y \<or> (snd x = snd y \<and> ord_class.lexordp (fst x) (fst y))"

fun zinsert :: "string \<times> int \<Rightarrow> (string \<times> int) list \<Rightarrow> (string \<times> int) list" where
  "zinsert x [] = [x]"
| "zinsert x (y # ys) = (if zless x y then x # y # ys else y # zinsert x ys)"

definition zrem :: "string \<Rightarrow> (string \<times> int) list \<Rightarrow> (string \<times> int) list" where
  "zrem i z = filter (\<lambda>x. fst x \<noteq> i) z"

definition zadd :: "int \<Rightarrow> string \<Rightarrow> (string \<times> int) list \<Rightarrow> (string \<times> int) list" where
  "zadd score i z = zinsert (i, score) (zrem i z)"

text \<open>\<open>TIME\<close> in seconds, of a clock in microseconds.\<close>

definition redis_seconds :: "int \<Rightarrow> int" where
  "redis_seconds now = now div 1000000"

section \<open>The scripts\<close>

text \<open>\<open>ZRANGEBYSCORE key -inf now LIMIT 0 100\<close>.\<close>

definition redis_due :: "int \<Rightarrow> (string \<times> int) list \<Rightarrow> string list" where
  "redis_due now z = map fst (filter (\<lambda>x. snd x \<le> redis_seconds now) z)"

fun reclaim_loop :: "int \<Rightarrow> string list \<Rightarrow> int \<Rightarrow> redis_db \<Rightarrow> int \<times> redis_db" where
  "reclaim_loop now [] used db = (used, db)"
| "reclaim_loop now (i # is) used db =
     (let value = get_number now i db;
          used = (if 0 < value then dbl (used - value) else used);
          db = redis_del i db;
          db = db\<lparr>rd_expiry := zrem i (rd_expiry db)\<rparr> in
      reclaim_loop now is used db)"

definition redis_reclaim :: "int \<Rightarrow> redis_db \<Rightarrow> int \<times> redis_db" where
  "redis_reclaim now db = reclaim_loop now (take 100 (redis_due now (rd_expiry db))) (get_used db) db"

definition reserve_script ::
  "int \<Rightarrow> i64 \<Rightarrow> i64 \<Rightarrow> string \<Rightarrow> int \<Rightarrow> redis_db \<Rightarrow> (string + int) \<times> redis_db" where
  "reserve_script now limit est i ttl db =
     (let (used, db) = redis_reclaim now db;
          limit = dbl (sint limit); est = dbl (sint est); ttl = dbl ttl in
      if 0 \<le> limit \<and> limit < dbl (used + est)
      then (Inl ''BUDGET_EXCEEDED'', db\<lparr>rd_used := Some used\<rparr>)
      else
        let used = dbl (used + est);
            db = db\<lparr>rd_used := Some used\<rparr>;
            db = db\<lparr>rd_values := (rd_values db)(i \<mapsto> (est, now div 1000 + 1000 * dbl (ttl + 86400)))\<rparr>;
            db = db\<lparr>rd_expiry := zadd (dbl (redis_seconds now + ttl)) i (rd_expiry db)\<rparr> in
        (Inr used, db))"

text \<open>The two terminal scripts, which differ in the new counter only.\<close>

definition settle_script ::
  "(int \<Rightarrow> int \<Rightarrow> int) \<Rightarrow> int \<Rightarrow> string \<Rightarrow> redis_db \<Rightarrow> (string + int) \<times> redis_db" where
  "settle_script new_used now i db =
     (let (used, db) = redis_reclaim now db;
          reserved = get_number now i db in
      if reserved = 0 then (Inl ''RESERVATION_NOT_FOUND'', db\<lparr>rd_used := Some used\<rparr>)
      else
        let new = new_used used reserved;
            db = db\<lparr>rd_used := Some new\<rparr>;
            db = redis_del i db;
            db = db\<lparr>rd_expiry := zrem i (rd_expiry db)\<rparr> in
        (Inr new, db))"

definition terminal_script :: "int \<Rightarrow> string \<Rightarrow> i64 \<Rightarrow> redis_db \<Rightarrow> (string + int) \<times> redis_db" where
  "terminal_script now i actual =
     settle_script (\<lambda>used reserved. dbl (dbl (used + dbl (sint actual)) - reserved)) now i"

definition release_script :: "int \<Rightarrow> string \<Rightarrow> redis_db \<Rightarrow> (string + int) \<times> redis_db" where
  "release_script now i = settle_script (\<lambda>used reserved. dbl (used - reserved)) now i"

section \<open>Running a script\<close>

datatype script_error = ErrorReply string | CallFailed string

definition run_script ::
  "(redis_db \<Rightarrow> (string + int) \<times> redis_db) \<Rightarrow> redis_db backend \<Rightarrow> (script_error + int) \<times> redis_db backend" where
  "run_script script s =
     (case next_outcome s of
        (Fine, s) \<Rightarrow>
          (case script (be_data s) of
             (Inl m, db) \<Rightarrow> (Inl (ErrorReply m), s\<lparr>be_data := db\<rparr>)
           | (Inr n, db) \<Rightarrow> (Inr n, s\<lparr>be_data := db\<rparr>))
      | (Fails m, s) \<Rightarrow> (Inl (CallFailed m), s)
      | (Lost m, s) \<Rightarrow> (Inl (CallFailed m), s\<lparr>be_data := snd (script (be_data s))\<rparr>))"

text \<open>\<open>redisclient.HasErrorPrefix\<close>: only for a reply of the server, with or without \<open>ERR\<close>.\<close>

fun has_error_prefix :: "script_error \<Rightarrow> string \<Rightarrow> bool" where
  "has_error_prefix (ErrorReply m) p = (let m = trim_prefix ''ERR '' m in take (length p) m = p)"
| "has_error_prefix (CallFailed m) p = False"

fun script_gerr :: "script_error \<Rightarrow> gerr" where
  "script_gerr (ErrorReply m) = External m"
| "script_gerr (CallFailed m) = External m"

text \<open>The error a method returns: the sentinel for the reply it knows, else \<open>fmt\<close>.\<close>

definition redis_error :: "string \<Rightarrow> sentinel \<Rightarrow> string \<Rightarrow> script_error \<Rightarrow> gerr" where
  "redis_error reply known fmt e =
     (if has_error_prefix e reply then Errorf ''%w: %w'' [FErr (Sentinel known), FErr (script_gerr e)]
      else Errorf fmt [FErr (script_gerr e)])"

section \<open>The ledger\<close>

record redis_ledger =
  rl_client :: bool
  rl_prefix :: string
  rl_limit :: i64
  rl_currency :: currency
  rl_ttl :: i64

text \<open>\<open>New\<close>: a time to live below a second becomes 30 seconds.\<close>

definition redis_new :: "redis_ledger \<Rightarrow> redis_ledger" where
  "redis_new cfg = (if rl_ttl cfg <s 1000000000 then cfg\<lparr>rl_ttl := 30000000000\<rparr> else cfg)"

text \<open>
  The identifier \<open>%d-%x\<close>: the client's clock in nanoseconds (\<open>clock i\<close> at the \<open>i\<close>-th
  identifier) and eight random bytes, read as a little-endian number.
\<close>

fun le_uint64 :: "byte list \<Rightarrow> nat" where
  "le_uint64 [] = 0"
| "le_uint64 (b # bs) = unat b + 256 * le_uint64 bs"

fun hex_nat :: "nat \<Rightarrow> string" where
  "hex_nat n = (if n < 16 then [hex_digit n] else hex_nat (n div 16) @ [hex_digit (n mod 16)])"

declare hex_nat.simps [simp del]

definition redis_id :: "i64 \<Rightarrow> byte list \<Rightarrow> string" where
  "redis_id nanos raw = format_int nanos @ CHR ''-'' # hex_nat (le_uint64 raw)"

definition redis_new_id :: "(nat \<Rightarrow> i64) \<Rightarrow> 'd backend \<Rightarrow> (gerr + string) \<times> 'd backend" where
  "redis_new_id clock s =
     (let i = be_drawn s; s = s\<lparr>be_drawn := Suc i\<rparr> in
      case be_random s i of
        None \<Rightarrow> (Inl (External ''rand''), s)
      | Some raw \<Rightarrow> (Inr (redis_id (clock i) raw), s))"

definition redis_hold :: "redis_ledger \<Rightarrow> i64 \<Rightarrow> string \<Rightarrow> redis_db backend \<Rightarrow> (gerr + nat) \<times> redis_db backend" where
  "redis_hold l estimate i s =
     (case run_script (reserve_script (be_now s) (rl_limit l) estimate i (ttl_seconds (rl_ttl l))) s of
        (Inl e, s) \<Rightarrow> (Inl (redis_error ''BUDGET_EXCEEDED'' ErrBudgetExceeded ''redis: reserve: %w'' e), s)
      | (Inr _, s) \<Rightarrow> add_obj i s)"

definition redis_reserve ::
  "(nat \<Rightarrow> i64) \<Rightarrow> redis_ledger \<Rightarrow> gctx \<Rightarrow> i64 \<Rightarrow> redis_db backend \<Rightarrow> (gerr + nat) \<times> redis_db backend" where
  "redis_reserve clock l c estimate s =
     (case ctx_check c of
        Some e \<Rightarrow> (Inl e, s)
      | None \<Rightarrow>
          if \<not> rl_client l then (Inl (ErrorsNew ''redis: nil client''), s)
          else if estimate <s 0 \<or> MaxEstimate <s estimate then (Inl (invalid_estimate estimate), s)
          else try_do (redis_new_id clock) (wrapf ''redis: reservation id: %w'') (redis_hold l estimate) s)"

text \<open>\<open>INCRBY\<close>, which refuses to overflow.\<close>

definition redis_incrby :: "string \<Rightarrow> i64 \<Rightarrow> redis_db \<Rightarrow> string + redis_db" where
  "redis_incrby k n db =
     (let v = (case rd_spent db k of None \<Rightarrow> 0 | Some v \<Rightarrow> v) in
      if in_int64 (sint v + sint n) then Inr (db\<lparr>rd_spent := (rd_spent db)(k \<mapsto> v + n)\<rparr>)
      else Inl ''ERR increment or decrement would overflow'')"

text \<open>\<open>Record\<close> does not look for a nil client; its method call then panics.\<close>

definition redis_record :: "redis_ledger \<Rightarrow> gctx \<Rightarrow> event \<Rightarrow> redis_db backend \<Rightarrow> gerr option \<times> redis_db backend" where
  "redis_record l c ev s =
     (case ctx_check c of
        Some e \<Rightarrow> (Some e, s)
      | None \<Rightarrow>
          if ev_cost ev \<le>s 0 then (Some (invalid_cost (ev_cost ev)), s)
          else
            let ev = fill_currency (rl_currency l) ev in
            if ev_currency ev \<noteq> rl_currency l then (Some (ErrorsNew ''redis: currency mismatch''), s)
            else if \<not> rl_client l then (Some (External ''panic: nil pointer dereference''), s)
            else
              let key = ev_domain ev @ CHR '':'' # ev_operation ev in
              only_error (exec_call (redis_incrby key (ev_cost ev) (be_data s)) s))"

definition redis_settle ::
  "string \<Rightarrow> (int \<Rightarrow> string \<Rightarrow> redis_db \<Rightarrow> (string + int) \<times> redis_db) \<Rightarrow> string
    \<Rightarrow> redis_db backend \<Rightarrow> (gerr + unit) \<times> redis_db backend" where
  "redis_settle fmt script i s =
     (case run_script (script (be_now s) i) s of
        (Inl e, s) \<Rightarrow> (Inl (redis_error ''RESERVATION_NOT_FOUND'' ErrReservationNotFound fmt e), s)
      | (Inr _, s) \<Rightarrow> (Inr (), s))"

definition redis_commit :: "nat \<Rightarrow> gctx \<Rightarrow> i64 \<Rightarrow> redis_db backend \<Rightarrow> gerr option \<times> redis_db backend" where
  "redis_commit h c actual s =
     (case ctx_check c of
        Some e \<Rightarrow> (Some e, s)
      | None \<Rightarrow> once h (redis_settle ''redis: commit: %w'' (\<lambda>now i. terminal_script now i (clamp0 actual))) s)"

definition redis_release :: "nat \<Rightarrow> gctx \<Rightarrow> redis_db backend \<Rightarrow> gerr option \<times> redis_db backend" where
  "redis_release h c s =
     (case ctx_check c of
        Some e \<Rightarrow> (Some e, s)
      | None \<Rightarrow> once h (redis_settle ''redis: release: %w'' release_script) s)"

definition redis_reserver :: "(nat \<Rightarrow> i64) \<Rightarrow> redis_ledger \<Rightarrow> (redis_db backend, nat) reserver" where
  "redis_reserver clock l = \<lparr>Reserve = redis_reserve clock l, RecordEvent = redis_record l,
     Commit = redis_commit, Release = redis_release\<rparr>"

lemma redis_reserver_simps [simp]:
  "Reserve (redis_reserver clock l) = redis_reserve clock l"
  "RecordEvent (redis_reserver clock l) = redis_record l"
  "Commit (redis_reserver clock l) = redis_commit"
  "Release (redis_reserver clock l) = redis_release"
  by (simp_all add: redis_reserver_def)

section \<open>Lemmas: doubles\<close>

text \<open>Up to 2^53 every integer is a double, and rounding does not fall below 2^53.\<close>

lemma bit_size_le: "n < 2 ^ k \<Longrightarrow> bit_size n \<le> k"
proof (induction n arbitrary: k rule: bit_size.induct)
  case (1 n)
  show ?case
  proof (cases "n \<le> 0")
    case True
    then show ?thesis by (subst bit_size.simps) simp
  next
    case False
    then obtain j where k: "k = Suc j" using 1(2) by (cases k) auto
    then have "n div 2 < 2 ^ j" using 1(2) by simp
    then show ?thesis using 1(1) [OF False, of j] False k by (subst bit_size.simps) simp
  qed
qed

lemma bit_size_upper: "n < 2 ^ bit_size n"
proof (induction n rule: bit_size.induct)
  case (1 n)
  show ?case
  proof (cases "n \<le> 0")
    case True
    then show ?thesis by (subst bit_size.simps) simp
  next
    case False
    then have "bit_size n = Suc (bit_size (n div 2))" by (subst bit_size.simps) simp
    moreover have "n div 2 < 2 ^ bit_size (n div 2)" using 1 False by simp
    ultimately show ?thesis by simp
  qed
qed

lemma bit_size_lower: "0 < n \<Longrightarrow> 2 ^ bit_size n \<le> 2 * n"
proof (induction n rule: bit_size.induct)
  case (1 n)
  then have b: "bit_size n = Suc (bit_size (n div 2))" by (subst bit_size.simps) simp
  show ?case
  proof (cases "n = 1")
    case True
    then have "bit_size (n div 2) = 0" by (subst bit_size.simps) simp
    then show ?thesis using True b by simp
  next
    case False
    then have "2 ^ bit_size (n div 2) \<le> 2 * (n div 2)" using 1 by simp
    then show ?thesis using b by simp
  qed
qed

abbreviation exact :: int where
  "exact \<equiv> 9007199254740992"

lemma bit_size_big:
  assumes "exact \<le> n"
  shows "53 < bit_size n"
proof (rule ccontr)
  assume "\<not> 53 < bit_size n"
  then have "(2 :: int) ^ bit_size n \<le> 2 ^ 53" by (intro power_increasing) simp_all
  then show False using bit_size_upper [of n] assms by simp
qed

lemma round53_small:
  assumes "n \<le> exact"
  shows "round53 n = n"
proof (cases "n = exact")
  case True
  have "bit_size n \<le> 54" using True by (intro bit_size_le) simp
  then have "bit_size n - 53 = 1" using bit_size_big [of n] True by simp
  then show ?thesis using True by (simp add: round53_def Let_def)
next
  case False
  then have "bit_size n \<le> 53" using assms by (intro bit_size_le) simp
  then show ?thesis by (simp add: round53_def)
qed

lemma round53_big:
  assumes "exact \<le> n"
  shows "exact \<le> round53 n"
proof -
  define k where "k = bit_size n - 53"
  have k: "0 < k" "bit_size n = 53 + k"
    using bit_size_big [OF assms] by (simp_all add: k_def)
  have "2 * (4503599627370496 * 2 ^ k) \<le> 2 * n"
    using bit_size_lower [of n] assms k(2) by (simp add: power_add)
  then have q: "4503599627370496 \<le> n div 2 ^ k"
    using zdiv_mono1 [of "4503599627370496 * 2 ^ k" n "2 ^ k"] by simp
  obtain j where j: "k = Suc j" using k(1) by (cases k) auto
  have "1 \<le> (2 :: int) ^ j" by simp
  then have "4503599627370496 * 2 \<le> n div 2 ^ k * (2 ^ k :: int)"
    using q unfolding j by (intro mult_mono) simp_all
  moreover have "round53 n = n div 2 ^ k * 2 ^ k \<or> round53 n = (n div 2 ^ k + 1) * 2 ^ k"
    using k(1) by (auto simp: round53_def Let_def k_def [symmetric])
  moreover have "n div 2 ^ k * 2 ^ k \<le> (n div 2 ^ k + 1) * 2 ^ k" by (simp add: mult_right_mono)
  ultimately show ?thesis by linarith
qed

lemma dbl_exact [simp]: "- exact \<le> x \<Longrightarrow> x \<le> exact \<Longrightarrow> dbl x = x"
  by (simp add: dbl_def round53_small)

lemma dbl_big: "exact \<le> x \<Longrightarrow> exact \<le> dbl x"
  using round53_big [of x] by (simp add: dbl_def)

end
