(* ===== verification/RedisLemmas.thy ===== *)
theory RedisLemmas
  imports Redis
begin

text \<open>
  The effect of every script and every method of \<open>Redis\<close> while the amounts are small
  enough to be exact, and the interpretations of the reserver contract.
\<close>

section \<open>Keys in order\<close>

definition value_of :: "string \<Rightarrow> redis_db \<Rightarrow> int" where
  "value_of i db = (case rd_values db i of None \<Rightarrow> 0 | Some (v, _) \<Rightarrow> v)"

definition redis_owed :: "redis_db \<Rightarrow> int" where
  "redis_owed db = (\<Sum>x\<leftarrow>rd_expiry db. value_of (fst x) db)"

text \<open>
  The largest counter for which all of the arithmetic is exact: a commit adds the actual
  amount before it subtracts what is reserved.
\<close>

abbreviation redis_cap :: int where
  "redis_cap \<equiv> 4503599627370496"

text \<open>
  A counter \<open>u\<close> that covers the reservations: every reservation is in the sorted set once
  and holds no negative amount.
\<close>

definition db_ok :: "int \<Rightarrow> redis_db \<Rightarrow> bool" where
  "db_ok u db \<longleftrightarrow> distinct (map fst (rd_expiry db)) \<and> (\<forall>i. 0 \<le> value_of i db)
     \<and> (\<forall>i. rd_values db i \<noteq> None \<longrightarrow> i \<in> fst ` set (rd_expiry db)) \<and> redis_owed db \<le> u \<and> u \<le> redis_cap"

lemma value_of_upd [simp]:
  "value_of i (db\<lparr>rd_used := u\<rparr>) = value_of i db"
  "value_of i (db\<lparr>rd_expiry := z\<rparr>) = value_of i db"
  "value_of i (db\<lparr>rd_spent := c\<rparr>) = value_of i db"
  "value_of i (db\<lparr>rd_values := f\<rparr>) = (case f i of None \<Rightarrow> 0 | Some (v, _) \<Rightarrow> v)"
  by (simp_all add: value_of_def)

lemma db_ok_upd [simp]:
  "db_ok u (db\<lparr>rd_used := v\<rparr>) = db_ok u db" "db_ok u (db\<lparr>rd_spent := c\<rparr>) = db_ok u db"
  by (simp_all add: db_ok_def redis_owed_def)

lemma redis_owed_upd [simp]:
  "redis_owed (db\<lparr>rd_used := v\<rparr>) = redis_owed db" "redis_owed (db\<lparr>rd_spent := c\<rparr>) = redis_owed db"
  by (simp_all add: redis_owed_def)

lemma redis_owed_nonneg: "(\<forall>i. 0 \<le> value_of i db) \<Longrightarrow> 0 \<le> redis_owed db"
  unfolding redis_owed_def by (rule sum_list_nonneg_int) simp

lemma sum_zrem:
  "distinct (map fst z) \<Longrightarrow>
     (\<Sum>x\<leftarrow>zrem i z. f (fst x)) = (\<Sum>x\<leftarrow>z. f (fst x)) - (if i \<in> fst ` set z then f i else (0 :: int))"
  by (induction z) (auto simp: zrem_def)

lemma zrem_props [simp]:
  "fst ` set (zrem i z) = fst ` set z - {i}" "distinct (map fst z) \<Longrightarrow> distinct (map fst (zrem i z))"
  by (auto simp: zrem_def distinct_map_filter image_iff)

lemma zinsert_props [simp]:
  "set (zinsert x z) = insert x (set z)"
  "distinct (map fst (zinsert x z)) \<longleftrightarrow> fst x \<notin> fst ` set z \<and> distinct (map fst z)"
  "(\<Sum>y\<leftarrow>zinsert x z. f y) = f x + (\<Sum>y\<leftarrow>z. f y :: int)"
  by (induction z) auto

text \<open>Dropping a reservation from the keys.\<close>

definition drop_id :: "string \<Rightarrow> redis_db \<Rightarrow> redis_db" where
  "drop_id i db = (redis_del i db)\<lparr>rd_expiry := zrem i (rd_expiry db)\<rparr>"

lemma drop_id_simps [simp]:
  "rd_values (drop_id i db) = (rd_values db)(i := None)" "rd_expiry (drop_id i db) = zrem i (rd_expiry db)"
  "rd_used (drop_id i db) = rd_used db" "rd_spent (drop_id i db) = rd_spent db"
  "value_of j (drop_id i db) = (if j = i then 0 else value_of j db)"
  by (auto simp: drop_id_def redis_del_def value_of_def)

lemma drop_id_effect:
  assumes "db_ok u db"
  shows "redis_owed (drop_id i db) = redis_owed db - value_of i db"
    and "redis_owed db - value_of i db \<le> v \<Longrightarrow> v \<le> redis_cap \<Longrightarrow> db_ok v (drop_id i db)"
proof -
  have d: "distinct (map fst (rd_expiry db))" using assms by (simp add: db_ok_def)
  have "redis_owed (drop_id i db) = (\<Sum>x\<leftarrow>zrem i (rd_expiry db). value_of (fst x) db)"
    unfolding redis_owed_def by (intro arg_cong [where f = sum_list] map_cong) (auto simp: zrem_def)
  also have "\<dots> = redis_owed db - (if i \<in> fst ` set (rd_expiry db) then value_of i db else 0)"
    using sum_zrem [OF d, of "\<lambda>i. value_of i db" i] by (simp add: redis_owed_def)
  also have "\<dots> = redis_owed db - value_of i db"
    using assms by (auto simp: db_ok_def value_of_def split: option.split)
  finally show owed: "redis_owed (drop_id i db) = redis_owed db - value_of i db" .
  show "redis_owed db - value_of i db \<le> v \<Longrightarrow> v \<le> redis_cap \<Longrightarrow> db_ok v (drop_id i db)"
    using assms owed d by (auto simp: db_ok_def)
qed

lemma value_le_owed:
  assumes "db_ok u db"
  shows "value_of i db \<le> redis_owed db"
  using drop_id_effect(1) [OF assms, of i] redis_owed_nonneg [of "drop_id i db"] assms by (simp add: db_ok_def)

lemma get_number_cases: "get_number now i db = 0 \<or> get_number now i db = value_of i db"
  by (auto simp: get_number_def redis_get_def value_of_def split: option.split)

section \<open>Reclaiming\<close>

lemma reclaim_loop_effect:
  assumes "reclaim_loop now xs u db = (u', db')" and "db_ok u db"
  shows "db_ok u' db' \<and> u' \<le> u \<and> rd_values db' = (\<lambda>i. if i \<in> set xs then None else rd_values db i)
    \<and> rd_expiry db' = filter (\<lambda>x. fst x \<notin> set xs) (rd_expiry db) \<and> rd_spent db' = rd_spent db
    \<and> redis_owed db - redis_owed db' \<ge> u - u'"
  using assms
proof (induction xs arbitrary: u db)
  case Nil
  then show ?case by simp
next
  case (Cons i xs)
  let ?v = "get_number now i db"
  define w where "w = (if 0 < ?v then dbl (u - ?v) else u)"
  have u: "value_of i db \<le> redis_owed db" "redis_owed db \<le> u" "u \<le> redis_cap" "0 \<le> redis_owed db" "0 \<le> value_of i db"
    using Cons.prems(2) value_le_owed [OF Cons.prems(2)] redis_owed_nonneg [of db] by (auto simp: db_ok_def)
  have w: "w = u - ?v" "0 \<le> ?v" "?v \<le> value_of i db"
    using u get_number_cases [of now i db] by (auto simp: w_def)
  have ok: "db_ok w (drop_id i db)"
    using u w by (intro drop_id_effect(2) [OF Cons.prems(2)]) simp_all
  have "reclaim_loop now xs w (drop_id i db) = (u', db')"
    using Cons.prems(1) by (simp add: w_def Let_def drop_id_def redis_del_def)
  from Cons.IH [OF this ok] show ?case
    using w drop_id_effect(1) [OF Cons.prems(2), of i] by (auto simp: zrem_def)
qed

text \<open>The counter in the keys, which a reclaim returns instead of storing it.\<close>

definition redis_ok :: "redis_db \<Rightarrow> bool" where
  "redis_ok db \<longleftrightarrow> db_ok (get_used db) db"

lemma get_used_upd [simp]:
  "get_used (db\<lparr>rd_used := Some u\<rparr>) = u" "get_used (db\<lparr>rd_spent := c\<rparr>) = get_used db"
  by (simp_all add: get_used_def)

abbreviation due_ids :: "int \<Rightarrow> redis_db \<Rightarrow> string list" where
  "due_ids now db \<equiv> take 100 (redis_due now (rd_expiry db))"

lemma redis_reclaim_effect:
  assumes "redis_reclaim now db = (u, db')" and "redis_ok db"
  shows "db_ok u db' \<and> u \<le> get_used db
    \<and> rd_values db' = (\<lambda>i. if i \<in> set (due_ids now db) then None else rd_values db i)
    \<and> rd_expiry db' = filter (\<lambda>x. fst x \<notin> set (due_ids now db)) (rd_expiry db) \<and> rd_spent db' = rd_spent db
    \<and> get_used db - redis_owed db \<le> u - redis_owed db'"
  using reclaim_loop_effect [of now "due_ids now db" "get_used db" db u db'] assms
  by (auto simp: redis_reclaim_def redis_ok_def)

section \<open>The scripts\<close>

text \<open>What the reserve script leaves: a denial reclaims, a success adds a reservation.\<close>

lemma sum_exact_iff:
  assumes "0 \<le> u" "0 \<le> e" "L \<le> redis_cap"
  shows "L < dbl (u + dbl e) \<longleftrightarrow> L < u + e"
    and "\<not> L < u + e \<Longrightarrow> dbl e = e \<and> dbl (u + e) = u + e"
proof -
  have "L < dbl (u + dbl e) \<longleftrightarrow> L < u + e"
  proof (cases "e \<le> exact")
    case True
    then have e: "dbl e = e" using assms by simp
    show ?thesis
    proof (cases "u + e \<le> exact")
      case True
      then show ?thesis using e assms by simp
    next
      case False
      then show ?thesis using dbl_big [of "u + e"] e assms by simp
    qed
  next
    case False
    then have "exact \<le> u + dbl e" using dbl_big [of e] assms by simp
    then show ?thesis using dbl_big [of "u + dbl e"] False assms by simp
  qed
  then show "L < dbl (u + dbl e) \<longleftrightarrow> L < u + e" .
  show "\<not> L < u + e \<Longrightarrow> dbl e = e \<and> dbl (u + e) = u + e" using assms by simp
qed

definition redis_put :: "int \<Rightarrow> i64 \<Rightarrow> string \<Rightarrow> int \<Rightarrow> int \<Rightarrow> redis_db \<Rightarrow> redis_db" where
  "redis_put now e i ttl u db =
     db\<lparr>rd_used := Some (u + sint e),
        rd_values := (rd_values db)(i \<mapsto> (sint e, now div 1000 + 1000 * dbl (dbl ttl + 86400))),
        rd_expiry := zadd (dbl (redis_seconds now + dbl ttl)) i (rd_expiry db)\<rparr>"

lemma reserve_script_result:
  assumes "redis_reclaim now db = (u, db1)" and "redis_ok db"
    and "0 \<le> sint lim" "sint lim \<le> redis_cap" "0 \<le> sint e"
  shows "reserve_script now lim e i ttl db =
    (if sint lim < u + sint e then (Inl ''BUDGET_EXCEEDED'', db1\<lparr>rd_used := Some u\<rparr>)
     else (Inr (u + sint e), redis_put now e i ttl u db1))"
proof -
  have u: "0 \<le> u" "dbl (sint lim) = sint lim"
    using redis_reclaim_effect [OF assms(1,2)] redis_owed_nonneg [of db1] assms(3,4) by (auto simp: db_ok_def)
  show ?thesis
    using sum_exact_iff [OF u(1) assms(5,4)] assms(1,3) u(2)
    by (auto simp: reserve_script_def redis_put_def Let_def)
qed

lemma redis_put_simps [simp]:
  "rd_values (redis_put now e i ttl u db)
    = (rd_values db)(i \<mapsto> (sint e, now div 1000 + 1000 * dbl (dbl ttl + 86400)))"
  "rd_expiry (redis_put now e i ttl u db) = zadd (dbl (redis_seconds now + dbl ttl)) i (rd_expiry db)"
  "get_used (redis_put now e i ttl u db) = u + sint e"
  "value_of j (redis_put now e i ttl u db) = (if j = i then sint e else value_of j db)"
  by (simp_all add: redis_put_def get_used_def value_of_def)

lemma zadd_props [simp]:
  "fst ` set (zadd sc i z) = insert i (fst ` set z)"
  "distinct (map fst z) \<Longrightarrow> distinct (map fst (zadd sc i z))"
  "(\<Sum>y\<leftarrow>zadd sc i z. f (fst y)) = f i + (\<Sum>y\<leftarrow>zrem i z. f (fst y) :: int)"
  by (auto simp: zadd_def)

lemma redis_put_ok:
  assumes "db_ok u db" and "0 \<le> sint e" and "u + sint e \<le> redis_cap"
  shows "redis_ok (redis_put now e i ttl u db)"
    and "redis_owed (redis_put now e i ttl u db) \<le> redis_owed db + sint e"
    and "value_of i db = 0 \<Longrightarrow> redis_owed (redis_put now e i ttl u db) = redis_owed db + sint e"
proof -
  let ?db = "redis_put now e i ttl u db"
  have d: "distinct (map fst (rd_expiry db))" using assms(1) by (simp add: db_ok_def)
  have "(\<Sum>x\<leftarrow>zrem i (rd_expiry db). value_of (fst x) ?db) = (\<Sum>x\<leftarrow>zrem i (rd_expiry db). value_of (fst x) db)"
    by (intro arg_cong [where f = sum_list] map_cong) (auto simp: zrem_def)
  also have "\<dots> = redis_owed db - value_of i db"
    using sum_zrem [OF d, of "\<lambda>i. value_of i db" i] assms(1)
    by (auto simp: redis_owed_def db_ok_def value_of_def split: option.splits)
  finally have rest: "(\<Sum>x\<leftarrow>zrem i (rd_expiry db). value_of (fst x) ?db) = redis_owed db - value_of i db" .
  have "redis_owed ?db = value_of i ?db + (\<Sum>x\<leftarrow>zrem i (rd_expiry db). value_of (fst x) ?db)"
    unfolding redis_owed_def redis_put_simps(2) by (rule zadd_props(3))
  then have owed: "redis_owed ?db = redis_owed db - value_of i db + sint e"
    using rest by (simp del: redis_put_simps(4) add: redis_put_simps(4) [of i])
  have nonneg: "0 \<le> value_of i db" using assms(1) by (simp add: db_ok_def)
  have "redis_owed db \<le> u" using assms(1) by (simp add: db_ok_def)
  then have "redis_owed db - value_of i db \<le> u" using nonneg by linarith
  then show "redis_ok ?db"
    using owed assms d by (auto simp: redis_ok_def db_ok_def)
  show "redis_owed ?db \<le> redis_owed db + sint e" using owed nonneg by simp
  show "value_of i db = 0 \<Longrightarrow> redis_owed ?db = redis_owed db + sint e" using owed by simp
qed

lemma settle_script_result:
  assumes "redis_reclaim now db = (u, db1)"
  shows "settle_script f now i db =
    (let r = get_number now i db1 in
     if r = 0 then (Inl ''RESERVATION_NOT_FOUND'', db1\<lparr>rd_used := Some u\<rparr>)
     else (Inr (f u r), (drop_id i db1)\<lparr>rd_used := Some (f u r)\<rparr>))"
  using assms by (simp add: settle_script_def Let_def drop_id_def redis_del_def)

text \<open>A settlement that succeeds takes the reservation and charges \<open>a\<close>.\<close>

definition redis_settled :: "int \<Rightarrow> string \<Rightarrow> int \<Rightarrow> redis_db \<Rightarrow> redis_db \<Rightarrow> bool" where
  "redis_settled now i a db db' \<longleftrightarrow>
     (\<exists>u db1 r. redis_reclaim now db = (u, db1) \<and> r = get_number now i db1 \<and> r = value_of i db1 \<and> 0 < r
        \<and> get_used db' = u + a - r \<and> db' = (drop_id i db1)\<lparr>rd_used := Some (u + a - r)\<rparr>)"

definition redis_freed :: "int \<Rightarrow> redis_db \<Rightarrow> redis_db \<Rightarrow> bool" where
  "redis_freed now db db' \<longleftrightarrow> (\<exists>u db1. redis_reclaim now db = (u, db1) \<and> db' = db1\<lparr>rd_used := Some u\<rparr>)"

lemma redis_freed_effect:
  assumes "redis_freed now db db'" and "redis_ok db"
  shows "redis_ok db' \<and> get_used db' \<le> get_used db
    \<and> rd_values db' = (\<lambda>i. if i \<in> set (due_ids now db) then None else rd_values db i)
    \<and> rd_expiry db' = filter (\<lambda>x. fst x \<notin> set (due_ids now db)) (rd_expiry db)
    \<and> get_used db - redis_owed db \<le> get_used db' - redis_owed db'"
  using assms redis_reclaim_effect [of now db] by (auto simp: redis_freed_def redis_ok_def)

lemma number_positive:
  assumes "redis_reclaim now db = (u, db1)" and "redis_ok db" and "get_number now i db1 \<noteq> 0"
  shows "0 < get_number now i db1 \<and> get_number now i db1 = value_of i db1
    \<and> value_of i db1 \<le> redis_owed db1 \<and> redis_owed db1 \<le> u \<and> u \<le> get_used db \<and> get_used db \<le> redis_cap
    \<and> value_of i db1 = value_of i db \<and> db_ok u db1"
proof -
  note eff = redis_reclaim_effect [OF assms(1,2)]
  have n: "get_number now i db1 = value_of i db1" using get_number_cases [of now i db1] assms(3) by simp
  have "value_of i db1 = (if i \<in> set (due_ids now db) then 0 else value_of i db)"
    using eff by (simp add: value_of_def)
  then have "value_of i db1 = value_of i db" using n assms(3) by (auto split: if_splits)
  moreover have "0 \<le> value_of i db1" "redis_owed db1 \<le> u" "db_ok u db1" "u \<le> get_used db"
    using eff by (auto simp: db_ok_def)
  moreover have "get_used db \<le> redis_cap" using assms(2) by (simp add: redis_ok_def db_ok_def)
  ultimately show ?thesis using n assms(3) value_le_owed [of u db1 i] by simp
qed

lemma terminal_script_result:
  assumes "redis_ok db" and "0 \<le> sint a"
    and "value_of i db \<noteq> 0 \<Longrightarrow> get_used db - value_of i db + sint a \<le> redis_cap"
  shows "(\<exists>db'. terminal_script now i a db = (Inl ''RESERVATION_NOT_FOUND'', db') \<and> redis_freed now db db')
    \<or> (\<exists>n db'. terminal_script now i a db = (Inr n, db') \<and> redis_settled now i (sint a) db db')"
proof -
  obtain u db1 where r: "redis_reclaim now db = (u, db1)" by fastforce
  show ?thesis
  proof (cases "get_number now i db1 = 0")
    case True
    then show ?thesis using r by (auto simp: terminal_script_def settle_script_result [OF r] redis_freed_def)
  next
    case False
    note n = number_positive [OF r assms(1) False]
    have "dbl (dbl (u + dbl (sint a)) - value_of i db1) = u + sint a - value_of i db1"
      using n assms(2,3) by simp
    then show ?thesis
      using n r False by (auto simp: terminal_script_def settle_script_result [OF r] redis_settled_def Let_def)
  qed
qed

lemma release_script_result:
  assumes "redis_ok db"
  shows "(\<exists>db'. release_script now i db = (Inl ''RESERVATION_NOT_FOUND'', db') \<and> redis_freed now db db')
    \<or> (\<exists>n db'. release_script now i db = (Inr n, db') \<and> redis_settled now i 0 db db')"
proof -
  obtain u db1 where r: "redis_reclaim now db = (u, db1)" by fastforce
  show ?thesis
  proof (cases "get_number now i db1 = 0")
    case True
    then show ?thesis using r by (auto simp: release_script_def settle_script_result [OF r] redis_freed_def)
  next
    case False
    note n = number_positive [OF r assms False]
    have "dbl (u - value_of i db1) = u + 0 - value_of i db1" using n by simp
    then show ?thesis
      using n r False by (auto simp: release_script_def settle_script_result [OF r] redis_settled_def Let_def)
  qed
qed

lemma redis_settled_effect:
  assumes "redis_settled now i a db db'" and "redis_ok db" and "0 \<le> a"
    and "get_used db - value_of i db + a \<le> redis_cap"
  shows "redis_ok db' \<and> get_used db' \<le> get_used db - value_of i db + a \<and> 0 < value_of i db
    \<and> rd_values db' i = None \<and> value_of i db \<le> get_used db
    \<and> rd_values db' = (\<lambda>j. if j = i \<or> j \<in> set (due_ids now db) then None else rd_values db j)
    \<and> rd_expiry db' = zrem i (filter (\<lambda>x. fst x \<notin> set (due_ids now db)) (rd_expiry db))
    \<and> get_used db - redis_owed db + a \<le> get_used db' - redis_owed db'"
proof -
  obtain u db1 where r: "redis_reclaim now db = (u, db1)" "0 < get_number now i db1"
    and db': "get_used db' = u + a - value_of i db1" "db' = (drop_id i db1)\<lparr>rd_used := Some (u + a - value_of i db1)\<rparr>"
    using assms(1) by (auto simp: redis_settled_def)
  have "get_number now i db1 \<noteq> 0" using r(2) by simp
  note n = number_positive [OF r(1) assms(2) this] and eff = redis_reclaim_effect [OF r(1) assms(2)]
  note drop = drop_id_effect [of u db1]
  have "db_ok (u + a - value_of i db1) (drop_id i db1)"
    using n r(2) assms(3,4) by (intro drop(2)) simp_all
  then show ?thesis
    using n r(2) eff db' drop(1) [of i] by (auto simp: redis_ok_def fun_eq_iff)
qed

section \<open>The methods\<close>

lemma run_script_state:
  assumes "run_script script s = (res, t)"
  shows "same_client s t \<and> be_drawn t = be_drawn s
    \<and> (case res of
         Inr n \<Rightarrow> script (be_data s) = (Inr n, be_data t)
       | Inl (ErrorReply m) \<Rightarrow> script (be_data s) = (Inl m, be_data t)
       | Inl (CallFailed m) \<Rightarrow> be_data t = be_data s \<or> \<not> no_lost s \<and> be_data t = snd (script (be_data s)))"
  using assms
  by (auto simp: run_script_def split: prod.splits outcome.splits sum.splits dest!: next_outcome_state)

text \<open>The ledger's limit is small enough to be exact, and no answer will be lost.\<close>

definition redis_inv :: "redis_ledger \<Rightarrow> redis_db backend \<Rightarrow> bool" where
  "redis_inv l s \<longleftrightarrow> redis_ok (be_data s) \<and> no_lost s \<and> 0 \<le> sint (rl_limit l) \<and> sint (rl_limit l) \<le> redis_cap"

definition redis_held :: "redis_db backend \<Rightarrow> nat \<Rightarrow> int option" where
  "redis_held s h =
     (if h < length (be_objs s) \<and> \<not> ro_done (be_objs s ! h)
      then map_option fst (rd_values (be_data s) (ro_id (be_objs s ! h))) else None)"

abbreviation redis_used :: "redis_db backend \<Rightarrow> int" where
  "redis_used s \<equiv> get_used (be_data s)"

lemma redis_new_id_state:
  assumes "redis_new_id clock s = (res, t)"
  shows "t = s\<lparr>be_drawn := Suc (be_drawn s)\<rparr> \<and> (\<forall>i. res = Inr i \<longrightarrow>
    (\<exists>raw. be_random s (be_drawn s) = Some raw \<and> i = redis_id (clock (be_drawn s)) raw))"
  using assms by (auto simp: redis_new_id_def Let_def split: option.splits)

definition redis_leased :: "redis_ledger \<Rightarrow> string \<Rightarrow> i64 \<Rightarrow> int \<Rightarrow> redis_db \<Rightarrow> redis_db \<Rightarrow> bool" where
  "redis_leased l i e now db db' \<longleftrightarrow>
     (\<exists>u db1. redis_reclaim now db = (u, db1) \<and> u + sint e \<le> sint (rl_limit l)
        \<and> db' = redis_put now e i (ttl_seconds (rl_ttl l)) u db1)"

lemma redis_leased_effect:
  assumes "redis_leased l i e now db db'" and "redis_ok db" and "0 \<le> sint e" and "sint (rl_limit l) \<le> redis_cap"
  shows "redis_ok db' \<and> get_used db' \<le> get_used db + sint e \<and> get_used db' \<le> sint (rl_limit l)
    \<and> value_of i db' = sint e \<and> rd_values db' i \<noteq> None
    \<and> get_used db - redis_owed db \<le> get_used db' - redis_owed db'"
proof -
  obtain u db1 where r: "redis_reclaim now db = (u, db1)" "u + sint e \<le> sint (rl_limit l)"
    and db': "db' = redis_put now e i (ttl_seconds (rl_ttl l)) u db1"
    using assms(1) by (auto simp: redis_leased_def)
  note eff = redis_reclaim_effect [OF r(1) assms(2)]
  show ?thesis
    using redis_put_ok [where u = u and db = db1 and e = e and now = now and i = i and ttl = "ttl_seconds (rl_ttl l)"] eff r(2) assms(3,4) by (auto simp: db')
qed

lemma redis_reserve_state:
  assumes "redis_reserve clock l c e s = (res, t)" and "redis_ok (be_data s)"
    and "0 \<le> sint (rl_limit l)" "sint (rl_limit l) \<le> redis_cap"
  shows "(t = s \<and> (\<exists>x. res = Inl x))
    \<or> (c = background \<and> 0 \<le> sint e \<and> sint e \<le> sint MaxEstimate \<and> same_env s t \<and> be_drawn t = Suc (be_drawn s)
       \<and> (case res of
            Inl x \<Rightarrow> be_objs t = be_objs s \<and> (be_data t = be_data s \<or> redis_freed (be_now s) (be_data s) (be_data t)
                \<or> \<not> no_lost s \<and> (\<exists>i. redis_leased l i e (be_now s) (be_data s) (be_data t)))
          | Inr h \<Rightarrow> h = length (be_objs s)
              \<and> (\<exists>raw. be_random s (be_drawn s) = Some raw
                   \<and> be_objs t = be_objs s @ [\<lparr>ro_id = redis_id (clock (be_drawn s)) raw, ro_done = False\<rparr>]
                   \<and> redis_leased l (redis_id (clock (be_drawn s)) raw) e (be_now s) (be_data s) (be_data t))))"
proof (cases "ctx_check c = None \<and> rl_client l \<and> \<not> (e <s 0 \<or> MaxEstimate <s e)")
  case False
  then show ?thesis using assms(1) by (auto simp: redis_reserve_def split: option.splits if_splits)
next
  case True
  then have c: "c = background" "0 \<le> sint e" "sint e \<le> sint MaxEstimate"
    by (auto simp: ctx_check_None i64_simps)
  from assms(1) True have "try_do (redis_new_id clock) (wrapf ''redis: reservation id: %w'') (redis_hold l e) s = (res, t)"
    by (simp add: redis_reserve_def)
  then show ?thesis
  proof (cases rule: try_doE)
    case (error x)
    then show ?thesis using redis_new_id_state [OF error(1)] c by (auto simp: same_env_def no_lost_def)
  next
    case (ok i s1)
    obtain raw where s1: "s1 = s\<lparr>be_drawn := Suc (be_drawn s)\<rparr>" and raw: "be_random s (be_drawn s) = Some raw"
        "i = redis_id (clock (be_drawn s)) raw"
      using redis_new_id_state [OF ok(1)] by auto
    let ?script = "reserve_script (be_now s) (rl_limit l) e i (ttl_seconds (rl_ttl l))"
    obtain r s2 where run: "run_script ?script s1 = (r, s2)" by fastforce
    note st = run_script_state [OF run]
    have env: "same_env s s2" "be_objs s2 = be_objs s" "be_drawn s2 = Suc (be_drawn s)"
      using st by (auto simp: s1 same_client_def same_env_def no_lost_def)
    obtain u db1 where rec: "redis_reclaim (be_now s) (be_data s) = (u, db1)" by fastforce
    note res = reserve_script_result [OF rec assms(2-4) c(2), of i "ttl_seconds (rl_ttl l)"]
    have sc: "?script (be_data s) = (Inl m, db) \<Longrightarrow> redis_freed (be_now s) (be_data s) db"
      "?script (be_data s) = (Inr n, db) \<Longrightarrow> redis_leased l i e (be_now s) (be_data s) db" for m n db
      using rec by (auto simp: res redis_freed_def redis_leased_def split: if_splits)
    have snd: "redis_freed (be_now s) (be_data s) (snd (?script (be_data s)))
        \<or> redis_leased l i e (be_now s) (be_data s) (snd (?script (be_data s)))"
      using sc by (cases "?script (be_data s)"; cases "fst (?script (be_data s))") auto
    show ?thesis
    proof (cases r)
      case (Inl x)
      then have "res = Inl (redis_error ''BUDGET_EXCEEDED'' ErrBudgetExceeded ''redis: reserve: %w'' x)" "t = s2"
        using ok(2) run by (simp_all add: redis_hold_def s1)
      moreover have "be_data s2 = be_data s \<or> redis_freed (be_now s) (be_data s) (be_data s2)
          \<or> \<not> no_lost s \<and> redis_leased l i e (be_now s) (be_data s) (be_data s2)"
        using st Inl sc(1) snd by (auto simp: s1 no_lost_def split: script_error.splits)
      ultimately show ?thesis using c env by auto
    next
      case (Inr n)
      then have "res = Inr (length (be_objs s))" "t = s2\<lparr>be_objs := be_objs s @ [\<lparr>ro_id = i, ro_done = False\<rparr>]\<rparr>"
        using ok(2) run env by (simp_all add: redis_hold_def add_obj_def s1)
      moreover have "redis_leased l i e (be_now s) (be_data s) (be_data s2)"
        using st Inr sc(2) by (simp add: s1)
      ultimately show ?thesis using c env raw by simp
    qed
  qed
qed

text \<open>A terminal method, for a script that charges \<open>a\<close> or finds nothing.\<close>

definition settles_or_frees :: "int \<Rightarrow> string \<Rightarrow> int \<Rightarrow> (redis_db \<Rightarrow> (string + int) \<times> redis_db) \<Rightarrow> redis_db \<Rightarrow> bool" where
  "settles_or_frees now i a script db \<longleftrightarrow>
     (\<exists>db'. script db = (Inl ''RESERVATION_NOT_FOUND'', db') \<and> redis_freed now db db')
     \<or> (\<exists>n db'. script db = (Inr n, db') \<and> redis_settled now i a db db')"

lemma redis_settle_state:
  assumes "redis_settle fmt script i s = (res, t)" and "settles_or_frees (be_now s) i a (script (be_now s) i) (be_data s)"
  shows "same_client s t
    \<and> (case res of
         Inl x \<Rightarrow> be_data t = be_data s \<or> redis_freed (be_now s) (be_data s) (be_data t)
           \<or> \<not> no_lost s \<and> redis_settled (be_now s) i a (be_data s) (be_data t)
       | Inr _ \<Rightarrow> redis_settled (be_now s) i a (be_data s) (be_data t))"
proof -
  obtain r u where run: "run_script (script (be_now s) i) s = (r, u)" by fastforce
  note st = run_script_state [OF run]
  have t: "u = t" "res = (case r of Inl e \<Rightarrow> Inl (redis_error ''RESERVATION_NOT_FOUND'' ErrReservationNotFound fmt e) | Inr n \<Rightarrow> Inr ())"
    using assms(1) run by (auto simp: redis_settle_def split: sum.splits)
  show ?thesis
    using st assms(2) t by (auto simp: settles_or_frees_def split: sum.splits script_error.splits)
qed

lemma redis_once_err:
  assumes "redis_inv l s" and "once h (redis_settle fmt script) s = (Some x, t)"
    and "settles_or_frees (be_now s) (ro_id (be_objs s ! h)) a (script (be_now s) (ro_id (be_objs s ! h))) (be_data s)"
  shows "redis_inv l t \<and> redis_used t \<le> redis_used s"
proof -
  have open_obj: "\<not> ro_done (be_objs s ! h)" using assms(2) by (auto simp: once_done)
  from once_open [OF this assms(2)]
  have "redis_settle fmt script (ro_id (be_objs s ! h)) s = (Inl x, t)" by auto
  from redis_settle_state [OF this assms(3)] show ?thesis
    using assms(1) redis_freed_effect [of "be_now s" "be_data s" "be_data t"]
    by (auto simp: redis_inv_def same_client_def)
qed

lemma redis_heldD:
  assumes "redis_held s h = Some r"
  shows "h < length (be_objs s) \<and> \<not> ro_done (be_objs s ! h) \<and> value_of (ro_id (be_objs s ! h)) (be_data s) = r"
  using assms by (auto simp: redis_held_def value_of_def split: if_splits)

lemma redis_once_ok:
  assumes "redis_inv l s" and "redis_held s h = Some r" and "once h (redis_settle fmt script) s = (None, t)"
    and "settles_or_frees (be_now s) (ro_id (be_objs s ! h)) a (script (be_now s) (ro_id (be_objs s ! h))) (be_data s)"
    and "0 \<le> a" and "redis_used s - r + a \<le> redis_cap"
  shows "redis_inv l t \<and> obj_finished (be_objs t) h \<and> redis_held t h = None \<and> redis_used t \<le> redis_used s - r + a"
proof -
  let ?x = "be_objs s ! h"
  have h: "h < length (be_objs s)" "\<not> ro_done ?x" "value_of (ro_id ?x) (be_data s) = r"
    using redis_heldD [OF assms(2)] by simp_all
  obtain u where u: "redis_settle fmt script (ro_id ?x) s = (Inr (), u)"
    and t: "t = u\<lparr>be_objs := (be_objs u)[h := ?x\<lparr>ro_done := True\<rparr>]\<rparr>"
    using once_open [OF h(2) assms(3)] by auto
  have set: "redis_settled (be_now s) (ro_id ?x) a (be_data s) (be_data u)" and same: "same_client s u"
    using redis_settle_state [OF u assms(4)] by auto
  have ok: "redis_ok (be_data s)" using assms(1) by (simp add: redis_inv_def)
  have "redis_ok (be_data u) \<and> redis_used u \<le> redis_used s - r + a"
    using redis_settled_effect [OF set ok assms(5)] assms(6) h(3) by simp
  then show ?thesis
    using same assms(1) h by (auto simp: t redis_inv_def same_client_def no_lost_def obj_finished_def redis_held_def)
qed

lemma commit_outcome:
  assumes "redis_ok (be_data s)" and "value_of i (be_data s) \<noteq> 0 \<Longrightarrow> redis_used s - value_of i (be_data s) + max 0 (sint a) \<le> redis_cap"
  shows "settles_or_frees now i (max 0 (sint a)) (terminal_script now i (clamp0 a)) (be_data s)"
  using terminal_script_result [OF assms(1) clamp0_nonneg, of i a now] assms(2)
  by (auto simp: settles_or_frees_def sint_clamp0)

lemma release_outcome:
  assumes "redis_ok (be_data s)"
  shows "settles_or_frees now i 0 (release_script now i) (be_data s)"
  using release_script_result [OF assms, of now i] by (auto simp: settles_or_frees_def)

text \<open>An error of a terminal call leaves no more in use, also when the commit is too large to be exact.\<close>

lemma redis_settle_error:
  assumes "redis_settle fmt (\<lambda>now. settle_script (f now) now) i s = (Inl x, t)" and "no_lost s"
  shows "same_client s t \<and> (be_data t = be_data s \<or> redis_freed (be_now s) (be_data s) (be_data t))"
proof -
  obtain r u where run: "run_script (settle_script (f (be_now s)) (be_now s) i) s = (r, u)" by fastforce
  obtain n db1 where rec: "redis_reclaim (be_now s) (be_data s) = (n, db1)" by fastforce
  obtain e where t: "u = t" "r = Inl e" using assms(1) run by (auto simp: redis_settle_def split: sum.splits)
  show ?thesis
    using run_script_state [OF run] t assms(2) rec
    by (cases e) (auto simp: settle_script_result [OF rec] redis_freed_def Let_def split: if_splits)
qed

lemma redis_terminal_scripts:
  "(\<lambda>now i. terminal_script now i a) = (\<lambda>now. settle_script (\<lambda>used reserved. dbl (dbl (used + dbl (sint a)) - reserved)) now)"
  "release_script = (\<lambda>now. settle_script (\<lambda>used reserved. dbl (used - reserved)) now)"
  by (simp_all add: fun_eq_iff terminal_script_def release_script_def)

lemma redis_terminal_err:
  assumes "redis_inv l s" and "redis_commit h c a s = (Some x, t) \<or> redis_release h c s = (Some x, t)"
  shows "redis_inv l t \<and> redis_used t \<le> redis_used s"
proof (cases "t = s")
  case True
  then show ?thesis using assms(1) by simp
next
  case False
  have "\<exists>fmt f. once h (redis_settle fmt (\<lambda>now. settle_script (f now) now)) s = (Some x, t)"
    using assms(2) False
    by (auto simp: redis_commit_def redis_release_def redis_terminal_scripts split: option.splits)
  then obtain fmt f where o: "once h (redis_settle fmt (\<lambda>now. settle_script (f now) now)) s = (Some x, t)" by blast
  have "\<not> ro_done (be_objs s ! h)" using o by (auto simp: once_done)
  from once_open [OF this o]
  have "redis_settle fmt (\<lambda>now. settle_script (f now) now) (ro_id (be_objs s ! h)) s = (Inl x, t)" by auto
  from redis_settle_error [OF this] show ?thesis
    using assms(1) redis_freed_effect [of "be_now s" "be_data s" "be_data t"]
    by (auto simp: redis_inv_def same_client_def)
qed

lemma redis_commit_cases:
  assumes "redis_commit h c a s = (None, t)"
  shows "c = background \<and> once h (redis_settle ''redis: commit: %w'' (\<lambda>now i. terminal_script now i (clamp0 a))) s = (None, t)"
  using assms by (auto simp: redis_commit_def ctx_check_None split: option.splits)

lemma redis_release_cases:
  assumes "redis_release h c s = (None, t)"
  shows "c = background \<and> once h (redis_settle ''redis: release: %w'' release_script) s = (None, t)"
  using assms by (auto simp: redis_release_def ctx_check_None split: option.splits)

lemma redis_commit_ok:
  assumes "redis_inv l s" and "redis_held s h = Some r" and "redis_commit h c a s = (None, t)"
    and "redis_used s - r + max 0 (sint a) \<le> redis_cap"
  shows "redis_inv l t \<and> obj_finished (be_objs t) h \<and> redis_held t h = None \<and> redis_used t \<le> redis_used s - r + max 0 (sint a)"
proof -
  note v = redis_heldD [OF assms(2)]
  have "settles_or_frees (be_now s) (ro_id (be_objs s ! h)) (max 0 (sint a))
      (terminal_script (be_now s) (ro_id (be_objs s ! h)) (clamp0 a)) (be_data s)"
    using assms(1,4) v by (intro commit_outcome) (auto simp: redis_inv_def)
  from redis_once_ok [OF assms(1,2) conjunct2 [OF redis_commit_cases [OF assms(3)]] this] show ?thesis
    using assms(4) by simp
qed

lemma redis_release_ok:
  assumes "redis_inv l s" and "redis_held s h = Some r" and "redis_release h c s = (None, t)"
  shows "redis_inv l t \<and> obj_finished (be_objs t) h \<and> redis_held t h = None \<and> redis_used t \<le> redis_used s - r"
proof -
  have ok: "redis_ok (be_data s)" using assms(1) by (simp add: redis_inv_def)
  have "redis_used s - r + 0 \<le> redis_cap"
  proof -
    have "redis_used s \<le> redis_cap" "\<forall>i. 0 \<le> value_of i (be_data s)" using ok by (simp_all add: redis_ok_def db_ok_def)
    moreover from this have "0 \<le> r" using redis_heldD [OF assms(2)] by auto
    ultimately show ?thesis by linarith
  qed
  then show ?thesis
    using redis_once_ok [OF assms(1,2) conjunct2 [OF redis_release_cases [OF assms(3)]] release_outcome [OF ok]] by simp
qed

lemma redis_reserve_good:
  assumes "redis_inv l s" and "redis_reserve clock l c e s = (res, t)"
  shows "redis_inv l t \<and>
    (case res of
       Inl x \<Rightarrow> redis_used t \<le> redis_used s
     | Inr h \<Rightarrow> c = background \<and> 0 \<le> sint e \<and> redis_held t h = Some (sint e)
         \<and> redis_used t \<le> redis_used s + sint e \<and> redis_used t \<le> sint (rl_limit l))"
proof -
  have inv: "redis_ok (be_data s)" "no_lost s" "0 \<le> sint (rl_limit l)" "sint (rl_limit l) \<le> redis_cap"
    using assms(1) by (auto simp: redis_inv_def)
  note st = redis_reserve_state [OF assms(2) inv(1,3,4)]
  show ?thesis
  proof (cases "t = s \<and> (\<exists>x. res = Inl x)")
    case True
    then show ?thesis using assms(1) by auto
  next
    case False
    note st' = st [simplified False, simplified]
    show ?thesis
    proof (cases res)
      case (Inl x)
      then show ?thesis
        using st' inv redis_freed_effect [of "be_now s" "be_data s" "be_data t"]
        by (auto simp: redis_inv_def same_env_def)
    next
      case (Inr h)
      then obtain i where i: "be_objs t = be_objs s @ [\<lparr>ro_id = i, ro_done = False\<rparr>]" "h = length (be_objs s)"
          "redis_leased l i e (be_now s) (be_data s) (be_data t)" "c = background" "0 \<le> sint e" "same_env s t"
        using st' by auto
      note eff = redis_leased_effect [OF i(3) inv(1) i(5) inv(4)]
      have "redis_held t h = Some (sint e)"
        using eff i(1,2) by (auto simp: redis_held_def value_of_def)
      then show ?thesis
        using eff i inv Inr by (simp add: redis_inv_def same_env_def)
    qed
  qed
qed

lemma redis_record_state:
  assumes "redis_record l c ev s = (err, t)"
  shows "same_client s t \<and> (\<exists>f. be_data t = (be_data s)\<lparr>rd_spent := f\<rparr>)"
proof -
  have "t = s \<or> (\<exists>k n r. exec_call (redis_incrby k n (be_data s)) s = (r, t))"
    using assms by (auto simp: redis_record_def only_error_eq Let_def split: option.splits if_splits)
  then show ?thesis
  proof (elim disjE exE)
    assume "t = s"
    then show ?thesis by (auto intro: exI [of _ "rd_spent (be_data s)"])
  next
    fix k n r
    assume "exec_call (redis_incrby k n (be_data s)) s = (r, t)"
    from exec_call_state [OF this] have "same_client s t"
      and "be_data t = be_data s \<or> (\<exists>x. redis_incrby k n (be_data s) = Inr x \<and> be_data t = x)" by blast+
    moreover have "\<exists>f. x = (be_data s)\<lparr>rd_spent := f\<rparr>" if "redis_incrby k n (be_data s) = Inr x" for x
      using that unfolding redis_incrby_def Let_def by (metis Inl_Inr_False Inr_inject)
    moreover have "\<exists>f. be_data s = (be_data s)\<lparr>rd_spent := f\<rparr>" by (rule exI [of _ "rd_spent (be_data s)"]) simp
    ultimately show ?thesis by metis
  qed
qed

interpretation redis: reserver_contract "redis_reserver clock l" "redis_inv l" redis_used "\<lambda>_. sint (rl_limit l)"
  redis_held "\<lambda>s. obj_finished (be_objs s)" redis_cap for clock l
proof (unfold_locales, goal_cases)
  case (1 s c e h s')
  then show ?case using redis_reserve_good [of l s clock c e "Inr h" s'] by simp
next
  case (2 s c e x s')
  then show ?case using redis_reserve_good [of l s clock c e "Inl x" s'] by simp
next
  case (3 s h r c a s')
  then show ?case using redis_commit_ok [of l s h r c a s'] by simp
next
  case (4 s h c a x s')
  then show ?case using redis_terminal_err [of l s h c a x s'] by simp
next
  case (5 s h r c s')
  then show ?case using redis_release_ok [of l s h r c s'] by simp
next
  case (6 s h c x s')
  then show ?case using redis_terminal_err [of l s h c 0 x s'] by simp
next
  case (7 s h a)
  then show ?case by (simp add: redis_commit_def once_finished)
next
  case (8 s h)
  then show ?case by (simp add: redis_release_def once_finished)
next
  case (12 s c ev err s' h)
  then show ?case
    using redis_record_state [of l c ev s err s']
    by (auto simp: redis_inv_def redis_ok_def redis_held_def same_client_def)
qed simp_all

end
