(* ===== verification/RedisQuiet.thy ===== *)
theory RedisQuiet
  imports RedisLemmas
begin

text \<open>
  The Redis ledger (\<open>adapters/redis/ledger.go\<close>) on a server that answers: what a reclaim
  does to the amounts of reservations whose keys are alive or gone, the result of every
  call when nothing has expired, and the interpretation of the prompt contract.
\<close>

section \<open>Keys that are alive, and keys that are gone\<close>

text \<open>The key of a reservation that Redis has not dropped yet, or has dropped.\<close>

definition key_dropped :: "int \<Rightarrow> redis_db \<Rightarrow> string \<Rightarrow> bool" where
  "key_dropped now db i \<longleftrightarrow> (case rd_values db i of Some (v, ex) \<Rightarrow> ex < now div 1000 | None \<Rightarrow> False)"

lemma get_number_dropped: "get_number now i db = (if key_dropped now db i then 0 else value_of i db)"
  by (auto simp: get_number_def redis_get_def key_dropped_def value_of_def split: option.split)

lemma key_dropped_drop [simp]: "key_dropped now (drop_id j db) i \<longleftrightarrow> i \<noteq> j \<and> key_dropped now db i"
  by (simp add: key_dropped_def)

lemma reclaim_loop_charged:
  assumes "reclaim_loop now xs u db = (u', db')" and "db_ok u db" and "distinct xs"
  shows "u' - redis_owed db' = u - redis_owed db + (\<Sum>i\<leftarrow>xs. if key_dropped now db i then value_of i db else 0)"
  using assms
proof (induction xs arbitrary: u db)
  case (Cons i xs)
  let ?v = "get_number now i db"
  have bounds: "value_of i db \<le> redis_owed db" "redis_owed db \<le> u" "u \<le> redis_cap" "0 \<le> value_of i db"
    using Cons.prems(2) value_le_owed [OF Cons.prems(2)] by (auto simp: db_ok_def)
  have w: "(if 0 < ?v then dbl (u - ?v) else u) = u - ?v" "0 \<le> ?v" "?v \<le> value_of i db"
    using bounds get_number_cases [of now i db] by auto
  have ok: "db_ok (u - ?v) (drop_id i db)"
    using bounds w by (intro drop_id_effect(2) [OF Cons.prems(2)]) simp_all
  have "reclaim_loop now xs (u - ?v) (drop_id i db) = (u', db')"
    using Cons.prems(1) w(1) by (simp add: Let_def drop_id_def redis_del_def)
  from Cons.IH [OF this ok]
  have "u' - redis_owed db' = u - ?v - redis_owed (drop_id i db)
      + (\<Sum>j\<leftarrow>xs. if key_dropped now (drop_id i db) j then value_of j (drop_id i db) else 0)"
    using Cons.prems(3) by simp
  moreover have "(\<Sum>j\<leftarrow>xs. if key_dropped now (drop_id i db) j then value_of j (drop_id i db) else 0)
      = (\<Sum>j\<leftarrow>xs. if key_dropped now db j then value_of j db else 0)"
    using Cons.prems(3) by (intro arg_cong [where f = sum_list] map_cong) auto
  ultimately show ?case
    using drop_id_effect(1) [OF Cons.prems(2), of i] by (simp add: get_number_dropped)
qed simp

lemma distinct_due: "distinct (map fst (rd_expiry db)) \<Longrightarrow> distinct (due_ids now db)"
  by (simp add: redis_due_def distinct_take distinct_map_filter)

text \<open>The total of the reclaimed reservations whose keys were gone.\<close>

definition redis_leak :: "int \<Rightarrow> redis_db \<Rightarrow> int" where
  "redis_leak now db = (\<Sum>i\<leftarrow>due_ids now db. if key_dropped now db i then value_of i db else 0)"

lemma redis_reclaim_charged:
  assumes "redis_reclaim now db = (u, db1)" and "redis_ok db"
  shows "u - redis_owed db1 = get_used db - redis_owed db + redis_leak now db"
proof -
  have "distinct (due_ids now db)"
    using assms(2) by (intro distinct_due) (simp add: redis_ok_def db_ok_def)
  then show ?thesis
    using reclaim_loop_charged [of now "due_ids now db" "get_used db" db u db1] assms
    by (simp add: redis_reclaim_def redis_ok_def redis_leak_def)
qed

lemma redis_leak_ge:
  assumes "redis_ok db" and "i \<in> set (due_ids now db)" and "key_dropped now db i"
  shows "value_of i db \<le> redis_leak now db"
proof -
  have nonneg: "0 \<le> value_of j db" for j using assms(1) by (simp add: redis_ok_def db_ok_def)
  have "value_of i db = (\<lambda>i. if key_dropped now db i then value_of i db else 0) i" using assms(3) by simp
  also have "\<dots> \<le> (\<Sum>j\<leftarrow>due_ids now db. if key_dropped now db j then value_of j db else 0)"
    by (rule member_le_sum_list_int [OF assms(2)]) (simp add: nonneg)
  finally show ?thesis by (simp add: redis_leak_def)
qed

lemma redis_leak_alive: "(\<forall>i. \<not> key_dropped now db i) \<Longrightarrow> redis_leak now db = 0"
  by (simp add: redis_leak_def)

text \<open>Reserve on a server that answers, with a random source that works.\<close>

definition redis_serves :: "redis_ledger \<Rightarrow> redis_db backend \<Rightarrow> bool" where
  "redis_serves l s \<longleftrightarrow> be_outcomes s = [] \<and> rl_client l \<and> (\<forall>n. be_random s n \<noteq> None)
     \<and> 0 \<le> be_now s \<and> redis_seconds (be_now s) \<le> redis_cap"

definition valid_estimates :: "i64 list \<Rightarrow> bool" where
  "valid_estimates es \<longleftrightarrow> (\<forall>e\<in>set es. 0 \<le> sint e \<and> sint e \<le> sint MaxEstimate)"

lemma redis_reserve_serves:
  assumes "redis_inv l s" and "redis_serves l s" and "0 \<le> sint e" and "sint e \<le> sint MaxEstimate"
    and "redis_reclaim (be_now s) (be_data s) = (u, db1)"
  obtains raw where "be_random s (be_drawn s) = Some raw"
    and "redis_reserve clock l background e s =
      (if sint (rl_limit l) < u + sint e
       then (Inl (Errorf ''%w: %w'' [FErr (Sentinel ErrBudgetExceeded), FErr (External ''BUDGET_EXCEEDED'')]),
             s\<lparr>be_drawn := Suc (be_drawn s), be_data := db1\<lparr>rd_used := Some u\<rparr>\<rparr>)
       else let i = redis_id (clock (be_drawn s)) raw in
         (Inr (length (be_objs s)), s\<lparr>be_drawn := Suc (be_drawn s),
            be_data := redis_put (be_now s) e i (ttl_seconds (rl_ttl l)) u db1,
            be_objs := be_objs s @ [\<lparr>ro_id = i, ro_done = False\<rparr>]\<rparr>))"
proof -
  obtain raw where raw: "be_random s (be_drawn s) = Some raw" using assms(2) by (auto simp: redis_serves_def)
  have p: "redis_ok (be_data s)" "0 \<le> sint (rl_limit l)" "sint (rl_limit l) \<le> redis_cap"
    using assms(1) by (auto simp: redis_inv_def)
  have "\<not> (e <s 0 \<or> MaxEstimate <s e)" using assms(3,4) by (simp add: i64_simps)
  then have "redis_reserve clock l background e s =
      (if sint (rl_limit l) < u + sint e
       then (Inl (Errorf ''%w: %w'' [FErr (Sentinel ErrBudgetExceeded), FErr (External ''BUDGET_EXCEEDED'')]),
             s\<lparr>be_drawn := Suc (be_drawn s), be_data := db1\<lparr>rd_used := Some u\<rparr>\<rparr>)
       else let i = redis_id (clock (be_drawn s)) raw in
         (Inr (length (be_objs s)), s\<lparr>be_drawn := Suc (be_drawn s),
            be_data := redis_put (be_now s) e i (ttl_seconds (rl_ttl l)) u db1,
            be_objs := be_objs s @ [\<lparr>ro_id = i, ro_done = False\<rparr>]\<rparr>))"
    using assms(2) raw
    by (simp add: redis_reserve_def redis_serves_def try_do_def redis_new_id_def redis_hold_def run_script_def
        reserve_script_result [OF assms(5) p(1,2,3) assms(3)] redis_error_def trim_prefix_def add_obj_def Let_def)
  then show ?thesis using that raw by blast
qed

lemma ttl_seconds_small: "ttl_seconds t \<le> 9223372036"
proof -
  have "sint t div 1000000000 \<le> max_int64 div 1000000000" by (intro zdiv_mono1 sint_upper) simp
  then show ?thesis by (simp add: ttl_seconds_def)
qed

text \<open>A new reservation is not due and its key is alive.\<close>

lemma redis_put_times:
  assumes "0 \<le> now" and "redis_seconds now \<le> redis_cap"
  shows "redis_seconds now < dbl (redis_seconds now + dbl (ttl_seconds t))"
    and "now div 1000 \<le> now div 1000 + 1000 * dbl (dbl (ttl_seconds t) + 86400)"
  using assms ttl_seconds_small [of t] ttl_seconds_pos [of t] by (simp_all add: redis_seconds_def)

lemma redis_due_put:
  assumes "0 \<le> now" and "redis_seconds now \<le> redis_cap"
  shows "length (redis_due now (zadd (dbl (redis_seconds now + dbl (ttl_seconds t))) i z)) \<le> length (redis_due now z)"
proof -
  have ins: "filter (\<lambda>x. snd x \<le> redis_seconds now) (zinsert x ys) = filter (\<lambda>x. snd x \<le> redis_seconds now) ys"
    if "redis_seconds now < snd x" for x ys
    using that by (induction ys) auto
  have rem: "length (filter (\<lambda>x. snd x \<le> redis_seconds now) (zrem i z)) \<le> length (filter (\<lambda>x. snd x \<le> redis_seconds now) z)"
    by (induction z) (auto simp: zrem_def)
  show ?thesis
    using redis_put_times(1) [OF assms, of t] rem by (simp add: redis_due_def zadd_def ins)
qed

section \<open>A quiet world\<close>

text \<open>The server answers, nothing is due, and no key of a reservation was dropped.\<close>

definition redis_calm :: "redis_ledger \<Rightarrow> redis_db backend \<Rightarrow> bool" where
  "redis_calm l s \<longleftrightarrow> redis_serves l s \<and> redis_due (be_now s) (rd_expiry (be_data s)) = []
     \<and> (\<forall>i. \<not> key_dropped (be_now s) (be_data s) i)"

definition redis_quiet :: "redis_ledger \<Rightarrow> redis_db backend \<Rightarrow> bool" where
  "redis_quiet l s \<longleftrightarrow> redis_inv l s \<and> redis_calm l s"

lemma calm_reclaim: "redis_calm l s \<Longrightarrow> redis_reclaim (be_now s) (be_data s) = (redis_used s, be_data s)"
  by (simp add: redis_calm_def redis_reclaim_def)

lemma calm_number: "redis_calm l s \<Longrightarrow> get_number (be_now s) i (be_data s) = value_of i (be_data s)"
  by (simp add: redis_calm_def get_number_dropped)

lemma redis_calm_upd:
  assumes "redis_calm l s" and "be_outcomes t = []" and "be_now t = be_now s" and "be_random t = be_random s"
    and "length (redis_due (be_now s) (rd_expiry (be_data t))) \<le> length (redis_due (be_now s) (rd_expiry (be_data s)))"
    and "\<And>i. key_dropped (be_now s) (be_data t) i \<Longrightarrow> key_dropped (be_now s) (be_data s) i"
  shows "redis_calm l t"
  using assms by (auto simp: redis_calm_def redis_serves_def)

lemma due_zrem: "length (redis_due now (zrem i z)) \<le> length (redis_due now z)"
  by (induction z) (auto simp: zrem_def redis_due_def)

lemma redis_reserve_calm:
  assumes inv: "redis_inv l s" and calm: "redis_calm l s" and res: "redis_reserve clock l c e s = (res, t)"
  shows "redis_calm l t"
proof (cases "c = background \<and> 0 \<le> sint e \<and> sint e \<le> sint MaxEstimate")
  case False
  then have "t = s"
    using res by (auto simp: redis_reserve_def ctx_check_None i64_simps split: option.splits if_splits)
  then show ?thesis using calm by simp
next
  case True
  have serves: "redis_serves l s" using calm by (simp add: redis_calm_def)
  have now: "0 \<le> be_now s" "redis_seconds (be_now s) \<le> redis_cap" using serves by (simp_all add: redis_serves_def)
  obtain raw where r: "redis_reserve clock l background e s =
      (if sint (rl_limit l) < redis_used s + sint e
       then (Inl (Errorf ''%w: %w'' [FErr (Sentinel ErrBudgetExceeded), FErr (External ''BUDGET_EXCEEDED'')]),
             s\<lparr>be_drawn := Suc (be_drawn s), be_data := (be_data s)\<lparr>rd_used := Some (redis_used s)\<rparr>\<rparr>)
       else let i = redis_id (clock (be_drawn s)) raw in
         (Inr (length (be_objs s)), s\<lparr>be_drawn := Suc (be_drawn s),
            be_data := redis_put (be_now s) e i (ttl_seconds (rl_ttl l)) (redis_used s) (be_data s),
            be_objs := be_objs s @ [\<lparr>ro_id = i, ro_done = False\<rparr>]\<rparr>))"
    using redis_reserve_serves [OF inv serves _ _ calm_reclaim [OF calm], of e] True by blast
  have alive: "\<not> key_dropped (be_now s) (redis_put (be_now s) e i (ttl_seconds (rl_ttl l)) u (be_data s)) j" for i u j
    using calm redis_put_times(2) [OF now, of "rl_ttl l"] by (auto simp: redis_calm_def key_dropped_def)
  have out: "be_outcomes s = []" using serves by (simp add: redis_serves_def)
  show ?thesis
  proof (cases "sint (rl_limit l) < redis_used s + sint e")
    case full: True
    then show ?thesis
      using res r True out by (intro redis_calm_upd [OF calm]) (auto simp: key_dropped_def)
  next
    case False
    then show ?thesis
      using res r True out alive redis_due_put [OF now] by (intro redis_calm_upd [OF calm]) (auto simp: Let_def)
  qed
qed

text \<open>A terminal call: the script finds the amount, or nothing.\<close>

lemma redis_settle_calm:
  assumes calm: "redis_calm l s"
  shows "redis_settle fmt (\<lambda>now. settle_script f now) i s =
    (let v = value_of i (be_data s) in
     if v = 0
     then (Inl (Errorf ''%w: %w'' [FErr (Sentinel ErrReservationNotFound), FErr (External ''RESERVATION_NOT_FOUND'')]),
           s\<lparr>be_data := (be_data s)\<lparr>rd_used := Some (redis_used s)\<rparr>\<rparr>)
     else (Inr (), s\<lparr>be_data := (drop_id i (be_data s))\<lparr>rd_used := Some (f (redis_used s) v)\<rparr>\<rparr>))"
  using calm
  by (simp add: redis_settle_def run_script_def settle_script_result [OF calm_reclaim [OF calm]] calm_number [OF calm]
      redis_calm_def redis_serves_def redis_error_def trim_prefix_def Let_def)

lemma redis_commit_fold:
  "redis_commit h background a s =
     once h (redis_settle ''redis: commit: %w''
       (\<lambda>now. settle_script (\<lambda>used reserved. dbl (dbl (used + dbl (sint (clamp0 a))) - reserved)) now)) s"
  "redis_release h background s =
     once h (redis_settle ''redis: release: %w'' (\<lambda>now. settle_script (\<lambda>used reserved. dbl (used - reserved)) now)) s"
  by (simp_all add: redis_commit_def redis_release_def redis_terminal_scripts)

lemma redis_once_calm:
  assumes calm: "redis_calm l s" and run: "once h (redis_settle fmt (\<lambda>now. settle_script f now)) s = (err, t)"
  shows "redis_calm l t"
proof (cases "ro_done (be_objs s ! h)")
  case True
  then show ?thesis using run calm by (simp add: once_done)
next
  case False
  have "be_outcomes s = []" using calm by (simp add: redis_calm_def redis_serves_def)
  then show ?thesis
    using run False unfolding once_def redis_settle_calm [OF calm]
    by (intro redis_calm_upd [OF calm]) (auto simp: Let_def due_zrem key_dropped_def split: if_splits)
qed

lemma redis_terminal_calm:
  assumes calm: "redis_calm l s" and "redis_commit h c a s = (err, t) \<or> redis_release h c s = (err, t)"
  shows "redis_calm l t"
proof (cases "c = background")
  case True
  then show ?thesis using assms redis_once_calm [OF calm] by (auto simp: redis_commit_fold)
next
  case False
  then have "t = s"
    using assms(2) by (auto simp: redis_commit_def redis_release_def ctx_check_None split: option.splits)
  then show ?thesis using calm by simp
qed

lemma redis_record_calm:
  assumes calm: "redis_calm l s" and "redis_record l c ev s = (err, t)"
  shows "redis_calm l t"
proof -
  obtain f where d: "be_data t = (be_data s)\<lparr>rd_spent := f\<rparr>" and same: "same_client s t"
    using redis_record_state [OF assms(2)] by blast
  have "be_outcomes t = []" using same calm by (simp add: same_client_def redis_calm_def redis_serves_def)
  then show ?thesis
    using d same by (intro redis_calm_upd [OF calm]) (auto simp: same_client_def key_dropped_def)
qed

section \<open>The prompt contract\<close>

lemma redis_calm_held:
  assumes "redis_inv l s" and "redis_held s h = Some r" and "0 < r"
  shows "h < length (be_objs s)" and "\<not> ro_done (be_objs s ! h)"
    and "value_of (ro_id (be_objs s ! h)) (be_data s) = r" and "0 \<le> redis_used s - r" and "redis_used s \<le> redis_cap"
proof -
  note v = redis_heldD [OF assms(2)]
  then show "h < length (be_objs s)" "\<not> ro_done (be_objs s ! h)"
    "value_of (ro_id (be_objs s ! h)) (be_data s) = r" by simp_all
  have ok: "db_ok (redis_used s) (be_data s)" using assms(1) by (simp add: redis_inv_def redis_ok_def)
  then show "redis_used s \<le> redis_cap" by (simp add: db_ok_def)
  show "0 \<le> redis_used s - r"
    using value_le_owed [OF ok, of "ro_id (be_objs s ! h)"] ok v by (simp add: db_ok_def)
qed

lemma redis_commit_calm_ok:
  assumes "redis_inv l s" and calm: "redis_calm l s" and held: "redis_held s h = Some r" "0 < r"
    and cap: "redis_used s - r + max 0 (sint a) \<le> redis_cap"
  shows "\<exists>t. redis_commit h background a s = (None, t) \<and> redis_used t = redis_used s - r + max 0 (sint a)"
    and "\<exists>t. redis_release h background s = (None, t) \<and> redis_used t = redis_used s - r"
proof -
  note v = redis_calm_held [OF assms(1) held]
  have "dbl (dbl (redis_used s + dbl (sint (clamp0 a))) - r) = redis_used s - r + max 0 (sint a)"
    using v cap held(2) by (simp add: sint_clamp0)
  then show "\<exists>t. redis_commit h background a s = (None, t) \<and> redis_used t = redis_used s - r + max 0 (sint a)"
    using v held(2) by (simp add: redis_commit_fold once_def redis_settle_calm [OF calm] Let_def)
  have "dbl (redis_used s - r) = redis_used s - r"
    using v held(2) by simp
  then show "\<exists>t. redis_release h background s = (None, t) \<and> redis_used t = redis_used s - r"
    using v held(2) by (simp add: redis_commit_fold once_def redis_settle_calm [OF calm] Let_def)
qed

lemma redis_reserve_calm_result:
  assumes "redis_inv l s" and calm: "redis_calm l s" and "0 < sint e" and "sint e \<le> sint MaxEstimate"
  shows "sint (rl_limit l) < redis_used s + sint e \<Longrightarrow>
      \<exists>x t. redis_reserve clock l background e s = (Inl x, t) \<and> errors_is x ErrBudgetExceeded
        \<and> redis_used t = redis_used s"
    and "redis_used s + sint e \<le> sint (rl_limit l) \<Longrightarrow>
      \<exists>h t. redis_reserve clock l background e s = (Inr h, t) \<and> redis_used t = redis_used s + sint e"
proof -
  have serves: "redis_serves l s" using calm by (simp add: redis_calm_def)
  note run = redis_reserve_serves [OF assms(1) serves _ assms(4) calm_reclaim [OF calm], of clock]
  show "\<exists>x t. redis_reserve clock l background e s = (Inl x, t) \<and> errors_is x ErrBudgetExceeded
        \<and> redis_used t = redis_used s" if "sint (rl_limit l) < redis_used s + sint e"
    by (rule run) (use that assms(3) in auto)
  show "\<exists>h t. redis_reserve clock l background e s = (Inr h, t) \<and> redis_used t = redis_used s + sint e"
    if "redis_used s + sint e \<le> sint (rl_limit l)"
    by (rule run) (use that assms(3) in \<open>auto simp: Let_def\<close>)
qed

interpretation redis_prompt: prompt_reserver "redis_reserver clock l" "redis_quiet l" redis_used
  "\<lambda>_. sint (rl_limit l)" redis_held "\<lambda>s. obj_finished (be_objs s)" redis_cap for clock l
proof (unfold_locales, goal_cases)
  case (1 s c e h s')
  then show ?case
    using redis.reserve_ok [of l s clock c e h s'] redis_reserve_calm [of l s clock c e "Inr h" s']
    by (simp add: redis_quiet_def)
next
  case (2 s c e x s')
  then show ?case
    using redis.reserve_err [of l s clock c e x s'] redis_reserve_calm [of l s clock c e "Inl x" s']
    by (simp add: redis_quiet_def)
next
  case (3 s h r c a s')
  then show ?case
    using redis.commit_ok [of l s h r clock c a s'] redis_terminal_calm [of l s h c a None s']
    by (simp add: redis_quiet_def)
next
  case (4 s h c a x s')
  then show ?case
    using redis.commit_err [of l s clock h c a x s'] redis_terminal_calm [of l s h c a "Some x" s']
    by (simp add: redis_quiet_def)
next
  case (5 s h r c s')
  then show ?case
    using redis.release_ok [of l s h r clock c s'] redis_terminal_calm [of l s h c 0 None s']
    by (simp add: redis_quiet_def)
next
  case (6 s h c x s')
  then show ?case
    using redis.release_err [of l s clock h c x s'] redis_terminal_calm [of l s h c 0 "Some x" s']
    by (simp add: redis_quiet_def)
next
  case (7 s h a)
  then show ?case by (rule redis.finished_commit)
next
  case (8 s h)
  then show ?case by (rule redis.finished_release)
next
  case (12 s c ev err s' h)
  then show ?case
    using redis.record_neutral [of l s clock c ev err s'] redis_record_calm [of l s c ev err s']
    by (simp add: redis_quiet_def)
next
  case (13 s e)
  then show ?case
    using redis_reserve_calm_result(2) [of l s e clock] by (simp add: redis_quiet_def)
next
  case (14 s e)
  then show ?case
    using redis_reserve_calm_result(1) [of l s e clock] by (simp add: redis_quiet_def)
next
  case (15 s h r a)
  then show ?case
    using redis_commit_calm_ok(1) [of l s h r a] by (simp add: redis_quiet_def)
next
  case (16 s h r)
  then have "redis_used s - r + max 0 (sint (0 :: i64)) \<le> redis_cap"
    using redis_calm_held [of l s h r] by (simp add: redis_quiet_def)
  then show ?case
    using 16 redis_commit_calm_ok(2) [of l s h r 0] by (simp add: redis_quiet_def)
qed simp_all

end
