(* ===== verification/RedisSpec.thy ===== *)
theory RedisSpec
  imports RedisQuiet LocalSpec
begin

text \<open>
  What the Redis ledger promises (\<open>adapters/redis/ledger.go\<close>) and where it does not keep
  the promises of the contract: the limit, retries after lost answers, the reclaiming of
  expired reservations a hundred at a time, reservations of nothing, and keys that Redis
  drops before they are reclaimed.
\<close>

section \<open>Sequences of calls\<close>

datatype redis_call =
    RdReserve gctx i64
  | RdCommit nat gctx i64
  | RdRelease nat gctx
  | RdRecord gctx event
  | RdWait nat

fun redis_run1 :: "(nat \<Rightarrow> i64) \<Rightarrow> redis_ledger \<Rightarrow> redis_call \<Rightarrow> redis_db backend \<Rightarrow> redis_db backend" where
  "redis_run1 clock l (RdReserve c e) s = snd (redis_reserve clock l c e s)"
| "redis_run1 clock l (RdCommit h c a) s = snd (redis_commit h c a s)"
| "redis_run1 clock l (RdRelease h c) s = snd (redis_release h c s)"
| "redis_run1 clock l (RdRecord c ev) s = snd (redis_record l c ev s)"
| "redis_run1 clock l (RdWait n) s = s\<lparr>be_now := be_now s + int n\<rparr>"

fun redis_run :: "(nat \<Rightarrow> i64) \<Rightarrow> redis_ledger \<Rightarrow> redis_call list \<Rightarrow> redis_db backend \<Rightarrow> redis_db backend" where
  "redis_run clock l [] s = s"
| "redis_run clock l (c # cs) s = redis_run clock l cs (redis_run1 clock l c s)"

text \<open>No commit exceeds what is held.\<close>

fun redis_call_ok :: "redis_call \<Rightarrow> redis_db backend \<Rightarrow> bool" where
  "redis_call_ok (RdCommit h c a) s =
     (h < length (be_objs s) \<and> (case redis_held s h of Some r \<Rightarrow> max 0 (sint a) \<le> r | None \<Rightarrow> True))"
| "redis_call_ok (RdRelease h c) s = (h < length (be_objs s))"
| "redis_call_ok _ s = True"

fun redis_disciplined :: "(nat \<Rightarrow> i64) \<Rightarrow> redis_ledger \<Rightarrow> redis_call list \<Rightarrow> redis_db backend \<Rightarrow> bool" where
  "redis_disciplined clock l [] s = True"
| "redis_disciplined clock l (c # cs) s = (redis_call_ok c s \<and> redis_disciplined clock l cs (redis_run1 clock l c s))"

text \<open>What no reservation stands for: the amounts that were charged, or lost.\<close>

definition redis_charged :: "redis_db backend \<Rightarrow> int" where
  "redis_charged s = redis_used s - redis_owed (be_data s)"

section \<open>Lemmas\<close>

text \<open>The invariant without the assumption that no answer is lost.\<close>

definition redis_base :: "redis_ledger \<Rightarrow> redis_db backend \<Rightarrow> bool" where
  "redis_base l s \<longleftrightarrow> redis_ok (be_data s) \<and> 0 \<le> sint (rl_limit l) \<and> sint (rl_limit l) \<le> redis_cap"

lemma redis_inv_base: "redis_inv l s \<Longrightarrow> redis_base l s"
  by (simp add: redis_inv_def redis_base_def)

lemma redis_inv_wait [simp]: "redis_inv l (s\<lparr>be_now := n\<rparr>) = redis_inv l s"
  by (simp add: redis_inv_def no_lost_def)

lemma redis_base_wait [simp]: "redis_base l (s\<lparr>be_now := n\<rparr>) = redis_base l s"
  by (simp add: redis_base_def)

lemma redis_charged_le: "redis_base l s \<Longrightarrow> redis_charged s \<le> redis_used s"
  using redis_owed_nonneg [of "be_data s"] by (simp add: redis_charged_def redis_base_def redis_ok_def db_ok_def)

text \<open>A terminal call within what is held.\<close>

lemma redis_once_step:
  assumes "redis_base l s" and "once h (redis_settle fmt script) s = (err, t)" and "h < length (be_objs s)"
    and "0 \<le> a" and "\<And>r. redis_held s h = Some r \<Longrightarrow> a \<le> r"
    and "settles_or_frees (be_now s) (ro_id (be_objs s ! h)) a (script (be_now s) (ro_id (be_objs s ! h))) (be_data s)"
  shows "redis_base l t \<and> redis_used t \<le> redis_used s \<and> redis_charged s \<le> redis_charged t"
proof (cases "ro_done (be_objs s ! h)")
  case True
  then show ?thesis using assms(1,2) by (simp add: once_done)
next
  case False
  let ?i = "ro_id (be_objs s ! h)"
  have ok: "redis_ok (be_data s)" and cap: "redis_used s \<le> redis_cap"
    using assms(1) by (simp_all add: redis_base_def redis_ok_def db_ok_def)
  have step: "redis_base l u \<and> redis_used u \<le> redis_used s \<and> redis_charged s \<le> redis_charged u"
    if "redis_settle fmt script ?i s = (res, u)" for res u
  proof -
    note st = redis_settle_state [OF that assms(6)]
    then have d: "be_data u = be_data s \<or> redis_freed (be_now s) (be_data s) (be_data u)
        \<or> redis_settled (be_now s) ?i a (be_data s) (be_data u)" and same: "same_client s u"
      by (auto split: sum.splits)
    have settled: "a \<le> value_of ?i (be_data s)" if "redis_settled (be_now s) ?i a (be_data s) (be_data u)"
    proof -
      obtain n db1 where r: "redis_reclaim (be_now s) (be_data s) = (n, db1)" "get_number (be_now s) ?i db1 \<noteq> 0"
        using \<open>redis_settled _ _ _ _ _\<close> by (auto simp: redis_settled_def)
      then have "value_of ?i (be_data s) \<noteq> 0" using number_positive [OF r(1) ok r(2)] by simp
      then obtain v ex where "rd_values (be_data s) ?i = Some (v, ex)"
        by (auto simp: value_of_def split: option.splits)
      then show ?thesis using assms(3,5) False by (simp add: redis_held_def value_of_def)
    qed
    from d show ?thesis
    proof (elim disjE)
      assume "redis_settled (be_now s) ?i a (be_data s) (be_data u)"
      then show ?thesis
        using redis_settled_effect [OF _ ok assms(4)] settled cap same assms(1,4)
        by (fastforce simp: redis_base_def redis_charged_def same_client_def)
    qed (use same assms(1) redis_freed_effect [OF _ ok] in
        \<open>auto simp: redis_base_def redis_charged_def same_client_def\<close>)
  qed
  from once_open [OF False assms(2)] show ?thesis
  proof (elim disjE exE conjE)
    fix e
    assume "redis_settle fmt script ?i s = (Inl e, t)"
    then show ?thesis by (rule step)
  next
    fix u
    assume "redis_settle fmt script ?i s = (Inr (), u)"
      and t: "t = u\<lparr>be_objs := (be_objs u)[h := (be_objs s ! h)\<lparr>ro_done := True\<rparr>]\<rparr>"
    from step [OF this(1)] show ?thesis by (simp add: t redis_base_def redis_charged_def no_lost_def)
  qed
qed

lemma redis_run1_step:
  assumes inv: "redis_base l s" and "redis_call_ok call s"
  shows "redis_base l (redis_run1 clock l call s) \<and> redis_charged s \<le> redis_charged (redis_run1 clock l call s)
    \<and> (redis_used s \<le> sint (rl_limit l) \<longrightarrow> redis_used (redis_run1 clock l call s) \<le> sint (rl_limit l))"
proof (cases call)
  case (RdReserve c e)
  obtain res t where r: "redis_reserve clock l c e s = (res, t)" by fastforce
  have p: "redis_ok (be_data s)" "0 \<le> sint (rl_limit l)" "sint (rl_limit l) \<le> redis_cap"
    using inv by (auto simp: redis_base_def)
  have "redis_base l t \<and> redis_charged s \<le> redis_charged t
      \<and> (redis_used s \<le> sint (rl_limit l) \<longrightarrow> redis_used t \<le> sint (rl_limit l))"
    using redis_reserve_state [OF r p] inv redis_freed_effect [OF _ p(1)] redis_leased_effect [OF _ p(1) _ p(3)]
    by (cases res) (fastforce simp: redis_charged_def redis_base_def)+
  then show ?thesis using r RdReserve by simp
next
  case (RdCommit h c a)
  obtain err t where r: "redis_commit h c a s = (err, t)" by fastforce
  have cap: "redis_used s \<le> redis_cap" using inv by (simp add: redis_base_def redis_ok_def db_ok_def)
  have "redis_base l t \<and> redis_used t \<le> redis_used s \<and> redis_charged s \<le> redis_charged t"
  proof (cases "t = s")
    case True
    then show ?thesis using inv by simp
  next
    case False
    then have o: "once h (redis_settle ''redis: commit: %w'' (\<lambda>now i. terminal_script now i (clamp0 a))) s = (err, t)"
      using r by (auto simp: redis_commit_def split: option.splits)
    then have open_obj: "\<not> ro_done (be_objs s ! h)" using False by (auto simp: once_done)
    have ok: "h < length (be_objs s)" "\<And>r. redis_held s h = Some r \<Longrightarrow> max 0 (sint a) \<le> r"
      using assms(2) RdCommit by (auto split: option.splits)
    have "settles_or_frees (be_now s) (ro_id (be_objs s ! h)) (max 0 (sint a))
        (terminal_script (be_now s) (ro_id (be_objs s ! h)) (clamp0 a)) (be_data s)"
    proof (rule commit_outcome)
      show "redis_ok (be_data s)" using inv by (simp add: redis_base_def)
      assume "value_of (ro_id (be_objs s ! h)) (be_data s) \<noteq> 0"
      then have "redis_held s h = Some (value_of (ro_id (be_objs s ! h)) (be_data s))"
        using ok(1) open_obj by (auto simp: redis_held_def value_of_def split: option.splits)
      from ok(2) [OF this] cap
      show "redis_used s - value_of (ro_id (be_objs s ! h)) (be_data s) + max 0 (sint a) \<le> redis_cap" by linarith
    qed
    then show ?thesis
      using redis_once_step [OF inv o ok(1) _ ok(2)] by simp
  qed
  then show ?thesis using r RdCommit by auto
next
  case (RdRelease h c)
  obtain err t where r: "redis_release h c s = (err, t)" by fastforce
  have "redis_base l t \<and> redis_used t \<le> redis_used s \<and> redis_charged s \<le> redis_charged t"
  proof (cases "t = s")
    case True
    then show ?thesis using inv by simp
  next
    case False
    then have o: "once h (redis_settle ''redis: release: %w'' release_script) s = (err, t)"
      using r by (auto simp: redis_release_def split: option.splits)
    have ok: "redis_ok (be_data s)" using inv by (simp add: redis_base_def)
    have "0 \<le> r" if "redis_held s h = Some r" for r
      using redis_heldD [OF that] ok by (auto simp: redis_ok_def db_ok_def)
    then show ?thesis
      using redis_once_step [OF inv o _ _ _ release_outcome [OF ok]] assms(2) RdRelease by simp
  qed
  then show ?thesis using r RdRelease by auto
next
  case (RdRecord c ev)
  obtain err t where r: "redis_record l c ev s = (err, t)" by fastforce
  then obtain f where t: "be_data t = (be_data s)\<lparr>rd_spent := f\<rparr>" using redis_record_state [OF r] by blast
  then have "redis_charged t = redis_charged s" "redis_used t = redis_used s" by (simp_all add: redis_charged_def)
  moreover have "redis_base l t" using inv t by (simp add: redis_base_def redis_ok_def)
  ultimately show ?thesis using r RdRecord by simp
next
  case (RdWait n)
  then show ?thesis using inv by (simp add: redis_charged_def)
qed

lemma redis_run_step:
  assumes "redis_base l s" and "redis_disciplined clock l cs s"
  shows "redis_base l (redis_run clock l cs s) \<and> redis_charged s \<le> redis_charged (redis_run clock l cs s)
    \<and> (redis_used s \<le> sint (rl_limit l) \<longrightarrow> redis_used (redis_run clock l cs s) \<le> sint (rl_limit l))"
  using assms
proof (induction cs arbitrary: s)
  case (Cons c cs)
  then show ?case using redis_run1_step [of l s c clock] Cons.IH [of "redis_run1 clock l c s"] by fastforce
qed simp

text \<open>Terminal calls of one reservation, with answers that may be lost.\<close>

fun redis_terminal :: "nat \<Rightarrow> gctx \<times> terminal \<Rightarrow> redis_db backend \<Rightarrow> gerr option \<times> redis_db backend" where
  "redis_terminal h (c, TCommit a) s = redis_commit h c a s"
| "redis_terminal h (c, TRelease) s = redis_release h c s"

fun redis_terminals :: "nat \<Rightarrow> (gctx \<times> terminal) list \<Rightarrow> redis_db backend \<Rightarrow> redis_db backend" where
  "redis_terminals h [] s = s"
| "redis_terminals h (x # xs) s = redis_terminals h xs (snd (redis_terminal h x s))"

definition all_alive :: "redis_db backend \<Rightarrow> bool" where
  "all_alive s \<longleftrightarrow> (\<forall>i. \<not> key_dropped (be_now s) (be_data s) i)"

lemma freed_charged:
  assumes "redis_freed now db db'" and "redis_ok db" and "\<forall>i. \<not> key_dropped now db i"
  shows "redis_ok db' \<and> (\<forall>i. \<not> key_dropped now db' i) \<and> get_used db' - redis_owed db' = get_used db - redis_owed db
    \<and> get_used db' \<le> get_used db \<and> value_of i db' \<in> {0, value_of i db}"
proof -
  obtain u db1 where r: "redis_reclaim now db = (u, db1)" and db': "db' = db1\<lparr>rd_used := Some u\<rparr>"
    using assms(1) by (auto simp: redis_freed_def)
  have "redis_leak now db = 0" by (rule redis_leak_alive [OF assms(3)])
  moreover note redis_freed_effect [OF assms(1,2)] redis_reclaim_charged [OF r assms(2)]
  ultimately show ?thesis
    using assms(3) by (auto simp: db' key_dropped_def value_of_def)
qed

lemma settled_charged:
  assumes "redis_settled now i a db db'" and "redis_ok db" and "\<forall>i. \<not> key_dropped now db i" and "0 \<le> a"
    and "get_used db - value_of i db + a \<le> redis_cap"
  shows "redis_ok db' \<and> (\<forall>i. \<not> key_dropped now db' i) \<and> get_used db' - redis_owed db' = get_used db - redis_owed db + a
    \<and> value_of i db' = 0 \<and> value_of i db \<noteq> 0"
proof -
  obtain u db1 where r: "redis_reclaim now db = (u, db1)"
    and db': "db' = (drop_id i db1)\<lparr>rd_used := Some (u + a - value_of i db1)\<rparr>"
    using assms(1) by (auto simp: redis_settled_def)
  have "db_ok u db1" using redis_reclaim_effect [OF r assms(2)] by blast
  from drop_id_effect(1) [OF this, of i]
  have "get_used db' - redis_owed db' = u - redis_owed db1 + a" by (simp add: db')
  moreover have "redis_leak now db = 0" by (rule redis_leak_alive [OF assms(3)])
  moreover note redis_settled_effect [OF assms(1,2,4,5)] redis_reclaim_charged [OF r assms(2)]
  ultimately show ?thesis
    using assms(3) by (auto simp: key_dropped_def db' split: option.splits)
qed

lemma redis_once_charged:
  assumes ok: "redis_ok (be_data s)" and alive: "all_alive s" and h: "h < length (be_objs s)" and a: "0 \<le> a"
    and run: "once h (redis_settle fmt script) s = (err, t)"
    and out: "settles_or_frees (be_now s) (ro_id (be_objs s ! h)) a (script (be_now s) (ro_id (be_objs s ! h))) (be_data s)"
    and cap: "value_of (ro_id (be_objs s ! h)) (be_data s) \<noteq> 0 \<Longrightarrow> redis_used s + a \<le> redis_cap"
  defines "i \<equiv> ro_id (be_objs s ! h)"
  shows "redis_ok (be_data t) \<and> all_alive t \<and> h < length (be_objs t) \<and> ro_id (be_objs t ! h) = i
    \<and> (redis_charged t = redis_charged s \<and> redis_used t \<le> redis_used s \<and> value_of i (be_data t) \<in> {0, value_of i (be_data s)}
       \<or> redis_charged t = redis_charged s + a \<and> value_of i (be_data s) \<noteq> 0 \<and> value_of i (be_data t) = 0)"
proof (cases "ro_done (be_objs s ! h)")
  case True
  then show ?thesis using run ok alive h by (simp add: once_done i_def)
next
  case False
  obtain res u where r: "redis_settle fmt script i s = (res, u)" by fastforce
  note st = redis_settle_state [OF r [unfolded i_def] out]
  then have d: "be_data u = be_data s \<or> redis_freed (be_now s) (be_data s) (be_data u)
      \<or> redis_settled (be_now s) i a (be_data s) (be_data u)" and same: "same_client s u"
    by (auto simp: i_def split: sum.splits)
  have t: "be_data t = be_data u \<and> be_now t = be_now s \<and> h < length (be_objs t) \<and> ro_id (be_objs t ! h) = i"
    using once_open [OF False run] r same h by (auto simp: i_def same_client_def)
  have dead: "\<forall>i. \<not> key_dropped (be_now s) (be_data s) i" using alive by (simp add: all_alive_def)
  from d show ?thesis
  proof (elim disjE)
    assume "be_data u = be_data s"
    then show ?thesis using t ok alive by (simp add: all_alive_def redis_charged_def)
  next
    assume "redis_freed (be_now s) (be_data s) (be_data u)"
    from freed_charged [OF this ok dead, of i] show ?thesis using t by (simp add: all_alive_def redis_charged_def)
  next
    assume set: "redis_settled (be_now s) i a (be_data s) (be_data u)"
    then have v: "value_of i (be_data s) \<noteq> 0" "0 \<le> value_of i (be_data s)"
      using ok number_positive [of "be_now s" "be_data s" _ _ i] by (auto simp: redis_settled_def redis_ok_def db_ok_def)
    then have "redis_used s - value_of i (be_data s) + a \<le> redis_cap" using cap i_def by auto
    from settled_charged [OF set ok dead a this] show ?thesis
      using t by (simp add: all_alive_def redis_charged_def)
  qed
qed

lemma redis_terminal_charged:
  assumes "redis_ok (be_data s)" and "all_alive s" and "h < length (be_objs s)"
    and "redis_terminal h x s = (err, t)"
    and "value_of (ro_id (be_objs s ! h)) (be_data s) \<noteq> 0 \<Longrightarrow> redis_used s + terminal_charge x \<le> redis_cap"
  defines "i \<equiv> ro_id (be_objs s ! h)"
  shows "redis_ok (be_data t) \<and> all_alive t \<and> h < length (be_objs t) \<and> ro_id (be_objs t ! h) = i
    \<and> (redis_charged t = redis_charged s \<and> redis_used t \<le> redis_used s \<and> value_of i (be_data t) \<in> {0, value_of i (be_data s)}
       \<or> redis_charged t = redis_charged s + terminal_charge x \<and> value_of i (be_data s) \<noteq> 0 \<and> value_of i (be_data t) = 0)"
proof (cases "t = s")
  case True
  then show ?thesis using assms by simp
next
  case False
  obtain c y where x: "x = (c, y)" by fastforce
  have nonneg: "0 \<le> value_of i (be_data s)" using assms(1) by (simp add: redis_ok_def db_ok_def)
  show ?thesis
  proof (cases y)
    case (TCommit a)
    then have "once h (redis_settle ''redis: commit: %w'' (\<lambda>now i. terminal_script now i (clamp0 a))) s = (err, t)"
      using assms(4) x False by (auto simp: redis_commit_def split: option.splits)
    moreover have "settles_or_frees (be_now s) i (max 0 (sint a)) (terminal_script (be_now s) i (clamp0 a)) (be_data s)"
      using assms(5) nonneg x TCommit by (intro commit_outcome [OF assms(1)]) (auto simp: i_def)
    ultimately show ?thesis
      using redis_once_charged [OF assms(1-3), of "max 0 (sint a)"] assms(5) x TCommit by (simp add: i_def)
  next
    case TRelease
    then have "once h (redis_settle ''redis: release: %w'' release_script) s = (err, t)"
      using assms(4) x False by (auto simp: redis_release_def split: option.splits)
    then show ?thesis
      using redis_once_charged [OF assms(1-3), of 0] release_outcome [OF assms(1)] assms(5) x TRelease by (simp add: i_def)
  qed
qed

lemma redis_terminals_after:
  assumes "redis_ok (be_data s)" and "all_alive s" and "h < length (be_objs s)"
    and "value_of (ro_id (be_objs s ! h)) (be_data s) = 0"
  shows "redis_charged (redis_terminals h xs s) = redis_charged s"
  using assms
proof (induction xs arbitrary: s)
  case (Cons x xs)
  obtain err t where t: "redis_terminal h x s = (err, t)" by fastforce
  then show ?case using redis_terminal_charged [OF Cons.prems(1-3) t] Cons.prems(4) Cons.IH [of t] by auto
qed simp

section \<open>Properties\<close>

text \<open>
  C13.  The limit.  With a limit from 0 to 2 to the 52, of which at most all is in use, no sequence of calls whose commits stay
  within what they settle brings more than the limit into use, however long leases are
  left alone, whichever calls fail before they reach the server and whichever answers are
  lost after a script has run; and what was charged is never given back.
\<close>

theorem redis_limit_kept:
  assumes "redis_base l s" and "redis_used s \<le> sint (rl_limit l)" and "redis_disciplined clock l cs s"
  shows "redis_used (redis_run clock l cs s) \<le> sint (rl_limit l)
    \<and> redis_charged s \<le> redis_charged (redis_run clock l cs s)"
  using redis_run_step [OF assms(1,3)] assms(2) by simp

definition sample_redis :: redis_ledger where
  "sample_redis = redis_new \<lparr>rl_client = True, rl_prefix = ''quota'', rl_limit = 100, rl_currency = USD, rl_ttl = 1000000000\<rparr>"

definition empty_redis :: redis_db where
  "empty_redis = \<lparr>rd_used = None, rd_values = Map.empty, rd_expiry = [], rd_spent = Map.empty\<rparr>"

lemma sample_redis_simps [simp]:
  "rl_limit sample_redis = 100" "rl_client sample_redis = True" "rl_ttl sample_redis = 1000000000"
  by (simp_all add: sample_redis_def redis_new_def i64_simps)

lemma empty_redis_ok: "redis_ok empty_redis" "get_used empty_redis = 0" "redis_owed empty_redis = 0"
  by (simp_all add: redis_ok_def db_ok_def empty_redis_def redis_owed_def get_used_def value_of_def)

lemma empty_redis_values: "rd_values empty_redis = Map.empty"
  by (simp add: empty_redis_def)

lemma empty_redis_inv: "\<forall>m. Lost m \<notin> set outs \<Longrightarrow> redis_inv sample_redis (empty_server empty_redis outs)"
  using empty_redis_ok by (simp add: redis_inv_def empty_server_def no_lost_def)

lemma empty_server_simps [simp]:
  "be_data (empty_server d outs) = d" "be_outcomes (empty_server d outs) = outs" "be_now (empty_server d outs) = 0"
  "be_objs (empty_server d outs) = []" "be_random (empty_server d outs) = counting" "be_drawn (empty_server d outs) = 0"
  by (simp_all add: empty_server_def)

text \<open>
  Two reservations: the answer of the first is lost, so its amount stays in use with no one
  to settle it, and the second is denied.
\<close>

theorem redis_limit_kept_witness:
  "redis_used (redis_run (\<lambda>_. 0) sample_redis
     [RdReserve background 60, RdReserve background 60, RdWait 5000000, RdReserve background 70]
     (empty_server empty_redis [Lost ''timeout''])) \<le> 100"
proof -
  have "redis_base sample_redis (empty_server empty_redis [Lost ''timeout''])"
    using empty_redis_ok by (simp add: redis_base_def)
  from redis_limit_kept [OF this, of "\<lambda>_. 0"
      "[RdReserve background 60, RdReserve background 60, RdWait 5000000, RdReserve background 70]"]
  show ?thesis using empty_redis_ok by simp
qed

text \<open>
  C14.  A reservation is charged at most once.  A client that tries to settle one reservation
  again and again, with commits of different amounts and with releases, moves what is
  charged by nothing or by the amount of one of the commits, also when the answers of the
  server are lost after the script has run.
\<close>

theorem redis_charged_at_most_once:
  assumes "redis_ok (be_data s)" and "all_alive s" and "h < length (be_objs s)"
    and "\<forall>x\<in>set xs. redis_used s + terminal_charge x \<le> redis_cap"
  shows "redis_charged (redis_terminals h xs s) - redis_charged s \<in> insert 0 (terminal_charge ` set xs)"
  using assms
proof (induction xs arbitrary: s)
  case (Cons x xs)
  obtain err t where t: "redis_terminal h x s = (err, t)" by fastforce
  have cap: "redis_used s + terminal_charge x \<le> redis_cap" using Cons.prems(4) by simp
  note st = redis_terminal_charged [OF Cons.prems(1-3) t cap]
  show ?case
  proof (cases "redis_charged t = redis_charged s \<and> redis_used t \<le> redis_used s")
    case True
    then have "\<forall>x\<in>set xs. redis_used t + terminal_charge x \<le> redis_cap" using Cons.prems(4) by fastforce
    then show ?thesis using Cons.IH [of t] st t True by auto
  next
    case False
    then show ?thesis using redis_terminals_after [of t h xs] st t by auto
  qed
qed simp

definition sample_id :: string where
  "sample_id = redis_id 0 []"

definition sample_taken :: "i64 \<Rightarrow> outcome list \<Rightarrow> redis_db backend" where
  "sample_taken e outs = (empty_server (redis_put 0 e sample_id 1 0 empty_redis) outs)
     \<lparr>be_drawn := 1, be_objs := [\<lparr>ro_id = sample_id, ro_done = False\<rparr>]\<rparr>"

lemma empty_redis_reclaim: "redis_reclaim 0 empty_redis = (0, empty_redis)"
  by (simp add: redis_reclaim_def redis_due_def empty_redis_def get_used_def)

lemma sample_taken_reserve:
  assumes "0 \<le> sint e" and "sint e \<le> 100"
  shows "redis_reserve (\<lambda>_. 0) sample_redis background e (empty_server empty_redis (Fine # outs))
      = (Inr 0, sample_taken e outs)"
    and "redis_reserve (\<lambda>_. 0) sample_redis background e (empty_server empty_redis []) = (Inr 0, sample_taken e [])"
proof -
  have "reserve_script 0 100 e sample_id 1 empty_redis = (Inr (sint e), redis_put 0 e sample_id 1 0 empty_redis)"
    using reserve_script_result [OF empty_redis_reclaim empty_redis_ok(1), of 100 e sample_id 1] assms by simp
  moreover have "\<not> (e <s 0 \<or> MaxEstimate <s e)" using assms by (simp add: i64_simps)
  ultimately show "redis_reserve (\<lambda>_. 0) sample_redis background e (empty_server empty_redis (Fine # outs))
      = (Inr 0, sample_taken e outs)"
    and "redis_reserve (\<lambda>_. 0) sample_redis background e (empty_server empty_redis []) = (Inr 0, sample_taken e [])"
    by (simp_all add: redis_reserve_def try_do_def redis_new_id_def redis_hold_def run_script_def next_outcome_def
        counting_def sample_id_def ttl_seconds_def sample_taken_def empty_server_def add_obj_def Let_def)
qed

lemma sample_taken_facts:
  assumes "0 \<le> sint e" and "sint e \<le> 100"
  shows "redis_ok (be_data (sample_taken e outs))" and "all_alive (sample_taken e outs)"
    and "redis_used (sample_taken e outs) = sint e" and "length (be_objs (sample_taken e outs)) = 1"
  using assms redis_put_ok(1) [of 0 empty_redis e 0 sample_id 1] empty_redis_ok(1,2) empty_redis_values
  by (auto simp: sample_taken_def all_alive_def key_dropped_def redis_ok_def)

text \<open>A commit whose answer is lost, tried again with another amount.\<close>

theorem redis_charged_at_most_once_witness:
  "redis_charged (redis_terminals 0 [(background, TCommit 50), (background, TCommit 55)] (sample_taken 60 [Lost ''timeout'']))
     - redis_charged (sample_taken 60 [Lost ''timeout'']) \<in> {0, 50, 55}"
  using redis_charged_at_most_once [of "sample_taken 60 [Lost ''timeout'']" 0 "[(background, TCommit 50), (background, TCommit 55)]"]
    sample_taken_facts [of 60 "[Lost ''timeout'']"] by simp

text \<open>
  The ledger passes the contract test of the test kit on every server that answers and
  has nothing to reclaim, when the limit is 100 and nothing is in use.
\<close>

theorem redis_passes_contract:
  assumes "redis_quiet l s" and "rl_limit l = 100" and "redis_used s = 0"
  shows "run_contract (redis_reserver clock l) s = None"
  using assms by (intro redis_prompt.run_contract_passes) simp_all

lemma empty_redis_quiet: "redis_quiet sample_redis (empty_server empty_redis [])"
  using empty_redis_inv [of "[]"]
  by (simp add: redis_quiet_def redis_calm_def redis_serves_def redis_due_def key_dropped_def redis_seconds_def
      counting_def) (simp add: empty_redis_def)

theorem redis_passes_contract_witness:
  "run_contract (redis_reserver (\<lambda>_. 0) sample_redis) (empty_server empty_redis []) = None"
  by (rule redis_passes_contract [OF empty_redis_quiet]) (simp_all add: empty_redis_ok)

text \<open>
  C17.  A reservation of nothing can never be settled.  The script takes the stored amount 0
  for a reservation that does not exist, so both terminal calls fail, although \<open>Reserve\<close>
  has accepted the estimate, and the reservation stays open.
\<close>

theorem redis_zero_estimate_unsettled:
  assumes "redis_inv l s" and "redis_calm l s" and "redis_used s \<le> sint (rl_limit l)"
  shows "\<exists>h t. redis_reserve clock l background 0 s = (Inr h, t)
    \<and> (\<exists>x u. redis_commit h background a t = (Some x, u) \<and> errors_is x ErrReservationNotFound \<and> \<not> ro_done (be_objs u ! h))
    \<and> (\<exists>x u. redis_release h background t = (Some x, u) \<and> errors_is x ErrReservationNotFound \<and> \<not> ro_done (be_objs u ! h))"
proof -
  have serves: "redis_serves l s" using assms(2) by (simp add: redis_calm_def)
  obtain raw where r: "redis_reserve clock l background 0 s =
      (let i = redis_id (clock (be_drawn s)) raw in
         (Inr (length (be_objs s)), s\<lparr>be_drawn := Suc (be_drawn s),
            be_data := redis_put (be_now s) 0 i (ttl_seconds (rl_ttl l)) (redis_used s) (be_data s),
            be_objs := be_objs s @ [\<lparr>ro_id = i, ro_done = False\<rparr>]\<rparr>))" (is "_ = ?res")
    using redis_reserve_serves [OF assms(1) serves _ _ calm_reclaim [OF assms(2)], of 0 clock] assms(3)
    by (auto simp: sint_MaxEstimate)
  define t where "t = snd ?res"
  let ?h = "length (be_objs s)"
  have calm: "redis_calm l t"
    by (rule redis_reserve_calm [OF assms(1,2), of clock background 0 "Inr ?h"]) (simp add: r t_def Let_def)
  have none: "value_of (ro_id (be_objs t ! ?h)) (be_data t) = 0" "\<not> ro_done (be_objs t ! ?h)"
    by (simp_all add: t_def Let_def nth_append)
  have "redis_reserve clock l background 0 s = (Inr ?h, t)" by (simp add: r t_def Let_def)
  then show ?thesis
    using none by (auto simp: redis_commit_fold once_def redis_settle_calm [OF calm] Let_def)
qed

theorem redis_zero_estimate_unsettled_witness:
  "\<exists>x u. redis_commit 0 background 5 (sample_taken 0 []) = (Some x, u) \<and> errors_is x ErrReservationNotFound"
proof -
  have "redis_inv sample_redis (empty_server empty_redis [])" "redis_calm sample_redis (empty_server empty_redis [])"
    using empty_redis_quiet by (simp_all add: redis_quiet_def)
  from redis_zero_estimate_unsettled [OF this, of "\<lambda>_. 0" 5]
  show ?thesis using sample_taken_reserve(2) [of 0] empty_redis_ok(2) by auto
qed

section \<open>Expired reservations\<close>

lemma filter_not_taken:
  assumes "distinct xs"
  shows "filter (\<lambda>x. x \<notin> set (take n xs)) xs = drop n xs"
proof -
  have "filter (\<lambda>x. x \<notin> set (take n xs)) (drop n xs) = drop n xs"
    using set_take_disj_set_drop_if_distinct [OF assms, of n n] by (auto simp: filter_id_conv)
  moreover have "filter (\<lambda>x. x \<notin> set (take n xs)) (take n xs) = []" by (simp add: filter_empty_conv)
  ultimately have "filter (\<lambda>x. x \<notin> set (take n xs)) (take n xs @ drop n xs) = drop n xs"
    unfolding filter_append by simp
  then show ?thesis by simp
qed

lemma redis_due_filter: "redis_due now (filter (\<lambda>x. Q (fst x)) z) = filter Q (redis_due now z)"
  by (induction z) (simp_all add: redis_due_def)

lemma due_after_reclaim:
  assumes "distinct (map fst z)"
  shows "redis_due now (filter (\<lambda>x. fst x \<notin> set (take n (redis_due now z))) z) = drop n (redis_due now z)"
proof -
  have "distinct (redis_due now z)" using assms by (simp add: redis_due_def distinct_map_filter)
  then show ?thesis
    by (simp add: redis_due_filter [where Q = "\<lambda>i. i \<notin> set (take n (redis_due now z))"] filter_not_taken)
qed

text \<open>What one \<open>Reserve\<close> on a server that answers does to the due reservations and what is charged.\<close>

lemma redis_reserve_due:
  fixes clock :: "nat \<Rightarrow> i64"
  assumes inv: "redis_inv l s" and serves: "redis_serves l s" and e: "0 \<le> sint e" "sint e \<le> sint MaxEstimate"
  defines "t \<equiv> snd (redis_reserve clock l background e s)"
  shows "redis_inv l t" and "redis_serves l t" and "be_now t = be_now s"
    and "length (redis_due (be_now s) (rd_expiry (be_data t))) \<le> length (redis_due (be_now s) (rd_expiry (be_data s))) - 100"
    and "redis_charged s + redis_leak (be_now s) (be_data s) \<le> redis_charged t"
proof -
  obtain u db1 where r: "redis_reclaim (be_now s) (be_data s) = (u, db1)" by fastforce
  have ok: "redis_ok (be_data s)" using inv by (simp add: redis_inv_def)
  have now: "0 \<le> be_now s" "redis_seconds (be_now s) \<le> redis_cap" using serves by (simp_all add: redis_serves_def)
  note eff = redis_reclaim_effect [OF r ok] and ch = redis_reclaim_charged [OF r ok]
  have dist: "distinct (map fst (rd_expiry (be_data s)))" using ok by (simp add: redis_ok_def db_ok_def)
  have due: "redis_due (be_now s) (rd_expiry db1) = drop 100 (redis_due (be_now s) (rd_expiry (be_data s)))"
    using eff due_after_reclaim [OF dist] by simp
  obtain raw where t: "t =
      (if sint (rl_limit l) < u + sint e
       then s\<lparr>be_drawn := Suc (be_drawn s), be_data := db1\<lparr>rd_used := Some u\<rparr>\<rparr>
       else let i = redis_id (clock (be_drawn s)) raw in
         s\<lparr>be_drawn := Suc (be_drawn s), be_data := redis_put (be_now s) e i (ttl_seconds (rl_ttl l)) u db1,
           be_objs := be_objs s @ [\<lparr>ro_id = i, ro_done = False\<rparr>]\<rparr>)"
    by (rule redis_reserve_serves [OF inv serves e r, of clock])
      (simp only: t_def if_distrib [where f = snd] snd_conv Let_def that)
  show "redis_inv l t"
    using redis_reserve_good [OF inv, of clock background e "fst (redis_reserve clock l background e s)" t]
    by (simp add: t_def)
  show "redis_serves l t" "be_now t = be_now s" using serves by (auto simp: t redis_serves_def Let_def)
  show "length (redis_due (be_now s) (rd_expiry (be_data t))) \<le> length (redis_due (be_now s) (rd_expiry (be_data s))) - 100"
    using redis_due_put [OF now, of "rl_ttl l" _ "rd_expiry db1"] by (auto simp: t due Let_def)
  show "redis_charged s + redis_leak (be_now s) (be_data s) \<le> redis_charged t"
  proof (cases "sint (rl_limit l) < u + sint e")
    case True
    then show ?thesis using ch by (simp add: t redis_charged_def)
  next
    case False
    have "db_ok u db1" "u + sint e \<le> redis_cap" using eff False inv by (auto simp: redis_inv_def)
    then show ?thesis
      using redis_put_ok(2) [of u db1 e "be_now s" "redis_id (clock (be_drawn s)) raw" "ttl_seconds (rl_ttl l)"] ch False e
      by (simp add: t redis_charged_def Let_def)
  qed
qed

text \<open>
  The identifiers that a client is going to draw are new: none is in \<open>K\<close>, and none comes
  twice.
\<close>

definition redis_fresh :: "(nat \<Rightarrow> i64) \<Rightarrow> string set \<Rightarrow> redis_db backend \<Rightarrow> bool" where
  "redis_fresh clock K s \<longleftrightarrow> (\<forall>n raw. be_drawn s \<le> n \<longrightarrow> be_random s n = Some raw \<longrightarrow>
     redis_id (clock n) raw \<notin> K
     \<and> (\<forall>m raw'. n < m \<longrightarrow> be_random s m = Some raw' \<longrightarrow> redis_id (clock m) raw' \<noteq> redis_id (clock n) raw))"

lemma redis_freshD:
  assumes "redis_fresh clock K s" and "be_random s (be_drawn s) = Some raw"
    and "be_drawn t = Suc (be_drawn s)" and "be_random t = be_random s"
  shows "redis_id (clock (be_drawn s)) raw \<notin> K" and "redis_fresh clock (insert (redis_id (clock (be_drawn s)) raw) K) t"
  using assms by (auto simp: redis_fresh_def Suc_le_eq)

lemma redis_due_put_new:
  assumes "0 \<le> now" and "redis_seconds now \<le> redis_cap" and "i \<notin> fst ` set z"
  shows "redis_due now (zadd (dbl (redis_seconds now + dbl (ttl_seconds t))) i z) = redis_due now z"
proof -
  have "zrem i z = z" using assms(3) by (auto simp: zrem_def filter_id_conv)
  moreover have "redis_due now (zinsert x ys) = redis_due now ys" if "redis_seconds now < snd x" for x ys
    using that by (induction ys) (auto simp: redis_due_def)
  ultimately show ?thesis
    using redis_put_times(1) [OF assms(1,2), of t] by (simp add: zadd_def)
qed

text \<open>One \<open>Reserve\<close> when no key is lost: the first hundred due reservations are reclaimed.\<close>

lemma redis_reserve_frees:
  fixes clock :: "nat \<Rightarrow> i64"
  assumes inv: "redis_inv l s" and serves: "redis_serves l s" and e: "0 \<le> sint e" "sint e \<le> sint MaxEstimate"
    and alive: "all_alive s" and fresh: "redis_fresh clock K s" and K: "fst ` set (rd_expiry (be_data s)) \<subseteq> K"
  defines "t \<equiv> snd (redis_reserve clock l background e s)"
  shows "\<exists>i. all_alive t \<and> i \<notin> K \<and> redis_fresh clock (insert i K) t \<and> fst ` set (rd_expiry (be_data t)) \<subseteq> insert i K
    \<and> redis_due (be_now s) (rd_expiry (be_data t)) = drop 100 (redis_due (be_now s) (rd_expiry (be_data s)))
    \<and> redis_charged t = redis_charged s
    \<and> (\<forall>j\<in>K. value_of j (be_data t) = (if j \<in> set (due_ids (be_now s) (be_data s)) then 0 else value_of j (be_data s)))"
proof -
  obtain u db1 where r: "redis_reclaim (be_now s) (be_data s) = (u, db1)" by fastforce
  have ok: "redis_ok (be_data s)" using inv by (simp add: redis_inv_def)
  have now: "0 \<le> be_now s" "redis_seconds (be_now s) \<le> redis_cap" using serves by (simp_all add: redis_serves_def)
  note eff = redis_reclaim_effect [OF r ok]
  have dead: "\<forall>j. \<not> key_dropped (be_now s) (be_data s) j" using alive by (simp add: all_alive_def)
  then have ch: "u - redis_owed db1 = redis_charged s"
    using redis_reclaim_charged [OF r ok] redis_leak_alive [OF dead] by (simp add: redis_charged_def)
  have dist: "distinct (map fst (rd_expiry (be_data s)))" using ok by (simp add: redis_ok_def db_ok_def)
  have due: "redis_due (be_now s) (rd_expiry db1) = drop 100 (redis_due (be_now s) (rd_expiry (be_data s)))"
    using eff due_after_reclaim [OF dist] by simp
  have mem: "fst ` set (rd_expiry db1) \<subseteq> K" using eff K by auto
  have alive1: "\<not> key_dropped (be_now s) db1 j" for j using eff dead by (simp add: key_dropped_def)
  have vals: "value_of j db1 = (if j \<in> set (due_ids (be_now s) (be_data s)) then 0 else value_of j (be_data s))" for j
    using eff by (simp add: value_of_def)
  obtain raw where raw: "be_random s (be_drawn s) = Some raw" and t: "t =
      (if sint (rl_limit l) < u + sint e
       then s\<lparr>be_drawn := Suc (be_drawn s), be_data := db1\<lparr>rd_used := Some u\<rparr>\<rparr>
       else let i = redis_id (clock (be_drawn s)) raw in
         s\<lparr>be_drawn := Suc (be_drawn s), be_data := redis_put (be_now s) e i (ttl_seconds (rl_ttl l)) u db1,
           be_objs := be_objs s @ [\<lparr>ro_id = i, ro_done = False\<rparr>]\<rparr>)"
    by (rule redis_reserve_serves [OF inv serves e r, of clock])
      (simp only: t_def if_distrib [where f = snd] snd_conv Let_def that)
  let ?i = "redis_id (clock (be_drawn s)) raw"
  have "be_drawn t = Suc (be_drawn s)" "be_random t = be_random s" by (simp_all add: t Let_def)
  note new = redis_freshD [OF fresh raw this]
  show ?thesis
  proof (cases "sint (rl_limit l) < u + sint e")
    case True
    then have d: "be_data t = db1\<lparr>rd_used := Some u\<rparr>" "be_now t = be_now s" by (simp_all add: t)
    then show ?thesis
      using new alive1 mem due ch vals
      by (intro exI [of _ ?i]) (auto simp: all_alive_def key_dropped_def redis_charged_def)
  next
    case False
    then have d: "be_data t = redis_put (be_now s) e ?i (ttl_seconds (rl_ttl l)) u db1" "be_now t = be_now s"
      by (simp_all add: t Let_def)
    have ok1: "db_ok u db1" "u + sint e \<le> redis_cap" using eff False inv by (auto simp: redis_inv_def)
    have notin: "?i \<notin> fst ` set (rd_expiry db1)" using new(1) mem by blast
    then have "value_of ?i db1 = 0"
      using ok1(1) by (auto simp: value_of_def db_ok_def split: option.split)
    from redis_put_ok(3) [OF ok1(1) e(1) ok1(2) this]
    have "redis_charged t = redis_charged s" using ch by (simp add: redis_charged_def d)
    moreover have "redis_due (be_now s) (rd_expiry (be_data t)) = redis_due (be_now s) (rd_expiry db1)"
      by (simp add: d redis_due_put_new [OF now notin])
    moreover have "all_alive t"
      using alive1 redis_put_times(2) [OF now, of "rl_ttl l"] by (auto simp: all_alive_def key_dropped_def d)
    ultimately show ?thesis
      using new mem due vals by (intro exI [of _ ?i]) (auto simp: d)
  qed
qed

lemma redis_reserves_free:
  assumes "redis_inv l s" and "redis_serves l s" and "valid_estimates es"
    and "all_alive s" and "redis_fresh clock K s" and "fst ` set (rd_expiry (be_data s)) \<subseteq> K"
  defines "due \<equiv> redis_due (be_now s) (rd_expiry (be_data s))"
  defines "t \<equiv> redis_run clock l (map (RdReserve background) es) s"
  shows "be_now t = be_now s \<and> redis_due (be_now s) (rd_expiry (be_data t)) = drop (100 * length es) due
    \<and> redis_charged t = redis_charged s
    \<and> (\<forall>j\<in>K. value_of j (be_data t) = (if j \<in> set (take (100 * length es) due) then 0 else value_of j (be_data s)))"
  using assms(1-6) unfolding due_def t_def
proof (induction es arbitrary: s K)
  case (Cons e es)
  let ?t = "snd (redis_reserve clock l background e s)"
  have e: "0 \<le> sint e" "sint e \<le> sint MaxEstimate" and es: "valid_estimates es"
    using Cons.prems(3) by (simp_all add: valid_estimates_def)
  note step = redis_reserve_due [OF Cons.prems(1,2) e, of clock]
  obtain i where i: "all_alive ?t" "redis_fresh clock (insert i K) ?t" "fst ` set (rd_expiry (be_data ?t)) \<subseteq> insert i K"
    and due: "redis_due (be_now s) (rd_expiry (be_data ?t)) = drop 100 (redis_due (be_now s) (rd_expiry (be_data s)))"
    and ch: "redis_charged ?t = redis_charged s"
    and vals: "\<forall>j\<in>K. value_of j (be_data ?t)
      = (if j \<in> set (due_ids (be_now s) (be_data s)) then 0 else value_of j (be_data s))"
    using redis_reserve_frees [OF Cons.prems(1,2) e Cons.prems(4-6)] by blast
  have split: "take (100 * length (e # es)) xs = take 100 xs @ take (100 * length es) (drop 100 xs)" for xs :: "string list"
    by (simp add: take_add)
  have "drop (100 * length (e # es)) xs = drop (100 * length es) (drop 100 xs)" for xs :: "string list"
    by (simp add: add.commute)
  then show ?case
    using Cons.IH [OF step(1,2) es i] ch vals unfolding step(3) due split by auto
qed simp

text \<open>
  C15.  Abandoned reservations are reclaimed, a hundred by every call, and give back what
  they held.  On a server that answers, as long as Redis has dropped no key and random
  identifiers do not repeat, \<open>n\<close> calls of \<open>Reserve\<close>, granted or denied, take exactly the first
  \<open>100 * n\<close> of the expired reservations out of the sorted set and delete their amounts; all
  other reservations keep theirs.  What is charged stays the same, so the counter is lower
  by the amounts of the expired ones and higher by the estimates that were granted.
\<close>

theorem redis_backlog_freed:
  assumes "redis_inv l s" and "redis_serves l s" and "valid_estimates es"
    and "all_alive s" and "redis_fresh clock (fst ` set (rd_expiry (be_data s))) s"
  shows "let t = redis_run clock l (map (RdReserve background) es) s;
      due = redis_due (be_now s) (rd_expiry (be_data s)) in
    redis_due (be_now s) (rd_expiry (be_data t)) = drop (100 * length es) due
    \<and> (\<forall>i\<in>fst ` set (rd_expiry (be_data s)).
         value_of i (be_data t) = (if i \<in> set (take (100 * length es) due) then 0 else value_of i (be_data s)))
    \<and> redis_used t - redis_owed (be_data t) = redis_used s - redis_owed (be_data s)"
  using redis_reserves_free [OF assms subset_refl] by (simp add: Let_def redis_charged_def)

text \<open>Random bytes that make different identifiers.\<close>

lemma le_uint64_distinct: "le_uint64 (replicate n 0 @ [1]) = 256 ^ n"
  by (induction n) simp_all

lemma length_hex_nat: "length (hex_nat (256 ^ n)) = Suc (2 * n)"
proof (induction n)
  case (Suc n)
  have "hex_nat (256 ^ Suc n) = hex_nat (16 * 256 ^ n) @ [hex_digit 0]"
    by (subst hex_nat.simps) simp
  moreover have "hex_nat (16 * 256 ^ n) = hex_nat (256 ^ n) @ [hex_digit 0]"
    by (subst hex_nat.simps) simp
  ultimately show ?case using Suc.IH by simp
qed (simp add: hex_nat.simps)

text \<open>An hour after a reservation was taken and abandoned, it is due.\<close>

definition sample_abandoned :: "redis_db backend" where
  "sample_abandoned = (sample_taken 60 [])\<lparr>be_now := 3600000000, be_random := \<lambda>n. Some (replicate n 0 @ [1])\<rparr>"

lemma sample_abandoned_facts:
  "redis_inv sample_redis sample_abandoned" "redis_serves sample_redis sample_abandoned"
  "redis_due (be_now sample_abandoned) (rd_expiry (be_data sample_abandoned)) = [sample_id]"
  using sample_taken_facts [of 60 "[]"]
  by (simp_all add: sample_abandoned_def redis_inv_def redis_serves_def no_lost_def counting_def sample_taken_def
      redis_seconds_def redis_due_def zadd_def zrem_def empty_redis_def)

theorem redis_backlog_freed_witness:
  "let t = redis_run (\<lambda>_. 0) sample_redis [RdReserve background 100] sample_abandoned in
     redis_due 3600000000 (rd_expiry (be_data t)) = [] \<and> value_of sample_id (be_data t) = 0
     \<and> redis_used t = redis_owed (be_data t)"
proof -
  have now: "be_now sample_abandoned = 3600000000" by (simp add: sample_abandoned_def)
  have expiry: "rd_expiry (be_data sample_abandoned) = [(sample_id, 1)]"
    by (simp add: sample_abandoned_def sample_taken_def empty_server_def redis_seconds_def zadd_def zrem_def empty_redis_def)
  have "length sample_id = 3"
    by (simp add: sample_id_def redis_id_def hex_nat.simps format_int_def nat_digits.simps)
  moreover have "length (redis_id 0 (replicate n 0 @ [1])) = 3 + 2 * n" for n
    by (simp add: redis_id_def le_uint64_distinct length_hex_nat format_int_def nat_digits.simps)
  ultimately have fresh: "redis_fresh (\<lambda>_. 0) {sample_id} sample_abandoned"
    by (fastforce simp: redis_fresh_def sample_abandoned_def sample_taken_def dest: arg_cong [where f = length])
  have "redis_used sample_abandoned = redis_owed (be_data sample_abandoned)"
    using sample_taken_facts(3) [of 60 "[]"]
    by (simp add: sample_abandoned_def sample_taken_def empty_server_def redis_owed_def empty_redis_def zrem_def zadd_def)
  moreover have "all_alive sample_abandoned"
    by (simp add: all_alive_def key_dropped_def sample_abandoned_def sample_taken_def empty_server_def empty_redis_def)
  moreover have "valid_estimates [100]" by (simp add: valid_estimates_def sint_MaxEstimate)
  ultimately show ?thesis
    using redis_backlog_freed [OF sample_abandoned_facts(1,2), of "[100]" "\<lambda>_. 0"] sample_abandoned_facts(3) fresh
    by (simp add: now expiry Let_def)
qed

text \<open>
  C16.  The margin of a day is a promise that reclaiming happens in time.  When Redis has
  dropped the key of an expired reservation before the next call reclaims it, the reclaim
  takes its amount for 0: what the reservation held stays charged, after this call and
  after every later sequence of calls.
\<close>

theorem redis_lost_key_leaks:
  assumes "redis_inv l s" and "redis_serves l s" and "0 \<le> sint e" and "sint e \<le> sint MaxEstimate"
    and "i \<in> set (due_ids (be_now s) (be_data s))" and "key_dropped (be_now s) (be_data s) i"
    and "redis_disciplined clock l cs (snd (redis_reserve clock l background e s))"
  shows "let t = redis_run clock l cs (snd (redis_reserve clock l background e s)) in
    redis_charged s + value_of i (be_data s) \<le> redis_charged t \<and> redis_charged t \<le> redis_used t"
proof -
  let ?t = "snd (redis_reserve clock l background e s)"
  note step = redis_reserve_due [OF assms(1-4), of clock]
  have ok: "redis_ok (be_data s)" using assms(1) by (simp add: redis_inv_def)
  have "redis_charged s + value_of i (be_data s) \<le> redis_charged ?t"
    using redis_leak_ge [OF ok assms(5,6)] step(5) by linarith
  then show ?thesis
    using redis_run_step [OF redis_inv_base [OF step(1)] assms(7)] redis_charged_le [of l "redis_run clock l cs ?t"] by (auto simp: Let_def)
qed

text \<open>Two days later the key is gone, and 60 of the limit of 100 are lost for good.\<close>

theorem redis_lost_key_leaks_witness:
  "60 \<le> redis_used (redis_run (\<lambda>_. 0) sample_redis [RdWait 1000000, RdReserve background 40]
     (snd (redis_reserve (\<lambda>_. 0) sample_redis background 0 (sample_abandoned\<lparr>be_now := 172800000000\<rparr>))))"
proof -
  let ?s = "sample_abandoned\<lparr>be_now := 172800000000\<rparr>"
  have due: "redis_due (be_now ?s) (rd_expiry (be_data ?s)) = [sample_id]"
    by (simp add: sample_abandoned_def sample_taken_def redis_seconds_def redis_due_def zadd_def zrem_def empty_redis_def)
  have pre: "redis_inv sample_redis ?s" "redis_serves sample_redis ?s"
    using sample_abandoned_facts(1,2) by (simp_all add: redis_serves_def redis_seconds_def)
  have key: "key_dropped (be_now ?s) (be_data ?s) sample_id" "value_of sample_id (be_data ?s) = 60"
    by (simp_all add: sample_abandoned_def sample_taken_def key_dropped_def)
  have nonneg: "0 \<le> redis_charged ?s"
    using pre(1) by (simp add: redis_charged_def redis_inv_def redis_ok_def db_ok_def)
  show ?thesis
    using redis_lost_key_leaks [OF pre, of 0 sample_id "\<lambda>_. 0" "[RdWait 1000000, RdReserve background 40]"] due key nonneg
    by (simp add: sint_MaxEstimate Let_def)
qed

end
