(* ===== verification/RuntimeLemmas.thy ===== *)
theory RuntimeLemmas
  imports Runtime DurableLemmas
begin

text \<open>
  Lemmas about the runtime budget (\<open>nexssflow/storage_backend.go\<close>): the record and its JSON,
  the account it stands for, the laws of the store that the code relies on, and the
  contract of the ledger on every store that keeps them.
\<close>

section \<open>Maps\<close>

lemma map_put_fst [simp]: "fst ` set (map_put k v m) = insert k (fst ` set m)"
  by (induction m) auto

lemma map_put_distinct [simp]: "distinct (map fst m) \<Longrightarrow> distinct (map fst (map_put k v m))"
proof (induction m)
  case (Cons x m)
  have "fst x \<notin> insert k (fst ` set m)" if "fst x \<noteq> k" using Cons.prems that by auto
  then have "fst x \<notin> fst ` set (map_put k v m)" if "fst x \<noteq> k" using that by simp
  then show ?case using Cons by auto
qed simp

lemma map_put_new: "k \<notin> fst ` set m \<Longrightarrow> map_put k v m = m @ [(k, v)]"
  by (induction m) auto

lemma map_of_put [simp]: "map_of (map_put k v m) j = (if j = k then Some v else map_of m j)"
  by (induction m) auto

lemma map_of_delete [simp]: "map_of (map_delete k m) j = (if j = k then None else map_of m j)"
  by (induction m) (auto simp: map_delete_def)

lemma map_delete_distinct [simp]: "distinct (map fst m) \<Longrightarrow> distinct (map fst (map_delete k m))"
  by (simp add: map_delete_def distinct_map_filter)

section \<open>Amounts\<close>

definition micros :: "string \<Rightarrow> int" where
  "micros raw = (case parse_int raw of None \<Rightarrow> 0 | Some w \<Rightarrow> sint w)"

definition valid_micros :: "string \<Rightarrow> bool" where
  "valid_micros raw \<longleftrightarrow> (case parse_int raw of None \<Rightarrow> False | Some w \<Rightarrow> 0 \<le> sint w)"

lemma micros_format [simp]: "micros (format_int w) = sint w" "valid_micros (format_int w) \<longleftrightarrow> 0 \<le> sint w"
  by (simp_all add: micros_def valid_micros_def)

lemma micros_bounds: "valid_micros raw \<Longrightarrow> 0 \<le> micros raw" "micros raw \<le> max_int64"
  using sint_upper by (auto simp: micros_def valid_micros_def split: option.splits)

lemma parse_micros_cases:
  "parse_non_negative_micros raw field =
     (if valid_micros raw then Inr (the (parse_int raw))
      else Inl (Errorf ''%w: %s must be a non-negative decimal integer in micros''
        [FErr (Sentinel ErrRuntimePolicyInvalid), FStr field]))"
  by (auto simp: parse_non_negative_micros_def valid_micros_def i64_simps Let_def split: option.split)

lemma sint_the_parse: "valid_micros raw \<Longrightarrow> sint (the (parse_int raw)) = micros raw"
  by (auto simp: valid_micros_def micros_def split: option.splits)

definition sum_micros :: "(string \<times> string) list \<Rightarrow> int" where
  "sum_micros m = (\<Sum>x\<leftarrow>m. micros (snd x))"

abbreviation valid_entries :: "(string \<times> string) list \<Rightarrow> bool" where
  "valid_entries m \<equiv> (\<forall>x\<in>set m. fst x \<noteq> [] \<and> valid_micros (snd x))"

lemma check_reservations_iff: "check_reservations m = None \<longleftrightarrow> valid_entries m"
  by (induction m rule: check_reservations.induct) (auto simp: parse_micros_cases)

lemma check_reservations_policy:
  "check_reservations m = Some e \<Longrightarrow> errors_is e t \<longleftrightarrow> t = ErrRuntimePolicyInvalid"
  by (induction m rule: check_reservations.induct) (auto simp: parse_micros_cases split: if_splits)

lemma sum_micros_nonneg: "valid_entries m \<Longrightarrow> 0 \<le> sum_micros m"
  unfolding sum_micros_def by (rule sum_list_nonneg_int) (auto intro: micros_bounds)

lemma sum_micros_delete:
  "distinct (map fst m) \<Longrightarrow> sum_micros (map_delete k m) = sum_micros m - (case map_of m k of None \<Rightarrow> 0 | Some v \<Rightarrow> micros v)"
proof (induction m)
  case (Cons x m)
  have "map_of m k = None" if "fst x = k" using Cons.prems that by (auto simp: map_of_eq_None_iff)
  then show ?case using Cons by (auto simp: sum_micros_def map_delete_def)
qed (simp add: sum_micros_def map_delete_def)

lemma sum_micros_put:
  "distinct (map fst m) \<Longrightarrow>
     sum_micros (map_put k v m) = sum_micros m - (case map_of m k of None \<Rightarrow> 0 | Some w \<Rightarrow> micros w) + micros v"
  by (induction m) (auto simp: sum_micros_def)

lemma valid_entries_put: "valid_entries m \<Longrightarrow> k \<noteq> [] \<Longrightarrow> valid_micros v \<Longrightarrow> valid_entries (map_put k v m)"
  by (induction m) auto

lemma valid_entries_delete: "valid_entries m \<Longrightarrow> valid_entries (map_delete k m)"
  by (simp add: map_delete_def)

text \<open>The loop adds the amounts up, or finds that they exceed an \<open>int64\<close>.\<close>

lemma sum_reservations_result:
  assumes "valid_entries m" and "0 \<le> sint a"
  shows "sum_reservations m a =
    (if sint a + sum_micros m \<le> max_int64 then Inr (word_of_int (sint a + sum_micros m))
     else Inl (policy_invalid ''%w: reserved amount overflows int64''))"
  using assms
proof (induction m arbitrary: a)
  case Nil
  then show ?case using sint_upper [of a] by (simp add: sum_micros_def)
next
  case (Cons x m)
  obtain i raw where x: "x = (i, raw)" by fastforce
  let ?w = "the (parse_int raw)"
  have v: "valid_micros raw" "sint ?w = micros raw" "0 \<le> micros raw"
    using Cons.prems x sint_the_parse micros_bounds by auto
  have sum: "0 \<le> sum_micros m" "sum_micros (x # m) = micros raw + sum_micros m"
    using Cons.prems sum_micros_nonneg [of m] by (simp_all add: sum_micros_def x)
  have diff: "sint (MaxInt64 - a) = max_int64 - sint a"
    using Cons.prems(2) sint_upper [of a] sint_diff_nonneg [of MaxInt64 a] by (simp add: sint_MaxInt64)
  show ?case
  proof (cases "max_int64 - sint a < micros raw")
    case True
    then show ?thesis using v sum diff x by (simp add: parse_micros_cases i64_simps)
  next
    case False
    then have "sint (a + ?w) = sint a + micros raw"
      using v Cons.prems(2) by (subst sint_add_i64) simp_all
    then show ?thesis
      using Cons.IH [of "a + ?w"] Cons.prems v sum diff x False by (simp add: parse_micros_cases i64_simps add.assoc)
  qed
qed

section \<open>The record and its JSON\<close>

definition good_record :: "runtime_record \<Rightarrow> bool" where
  "good_record r \<longleftrightarrow> rq_version r = 1 \<and> valid_micros (rq_spent r)
     \<and> (\<exists>m. rq_reservations r = Some m \<and> distinct (map fst m) \<and> valid_entries m)"

lemma good_reservations:
  assumes "good_record r"
  shows "rq_reservations r = Some (reservations_of r)" and "distinct (map fst (reservations_of r))"
    and "valid_entries (reservations_of r)" and "valid_micros (rq_spent r)" and "rq_version r = 1"
proof -
  obtain m where "rq_reservations r = Some m" "distinct (map fst m)" "valid_entries m"
    using assms unfolding good_record_def by blast
  then show "rq_reservations r = Some (reservations_of r)" and "distinct (map fst (reservations_of r))"
    and "valid_entries (reservations_of r)" by (simp_all add: reservations_of_def)
qed (use assms in \<open>simp_all add: good_record_def\<close>)

text \<open>Unmarshalling never makes a map with the same key twice.\<close>

lemma unmarshal_entries_distinct:
  "unmarshal_entries kvs m = Some m' \<Longrightarrow> distinct (map fst m) \<Longrightarrow> distinct (map fst m')"
  by (induction kvs m rule: unmarshal_entries.induct) auto

lemma unmarshal_field_distinct:
  assumes "unmarshal_field k v r = Some r'" and "distinct (map fst (reservations_of r))"
  shows "distinct (map fst (reservations_of r'))"
  using assms unmarshal_entries_distinct [of _ "reservations_of r"]
  by (auto simp: unmarshal_field_def reservations_of_def Let_def split: if_splits json.splits option.splits)

lemma unmarshal_fields_distinct:
  "unmarshal_fields kvs r = Some r' \<Longrightarrow> distinct (map fst (reservations_of r)) \<Longrightarrow> distinct (map fst (reservations_of r'))"
  by (induction kvs r rule: unmarshal_fields.induct) (auto split: option.splits dest: unmarshal_field_distinct)

lemma unmarshal_record_distinct:
  assumes "unmarshal_record v = Some r"
  shows "distinct (map fst (reservations_of r))"
  using assms by (cases v) (auto simp: zero_record_def reservations_of_def dest!: unmarshal_fields_distinct)

lemma decode_good:
  assumes "decode_runtime_quota_record v = Inr r"
  shows "good_record r"
proof -
  obtain x r0 where r0: "v = Some x" "unmarshal_record x = Some r0"
    using assms by (auto simp: decode_runtime_quota_record_def split: option.splits)
  have "distinct (map fst (reservations_of r0))" using unmarshal_record_distinct r0(2) by blast
  then show ?thesis
    using assms r0
    by (auto simp: decode_runtime_quota_record_def good_record_def reservations_of_def Let_def parse_micros_cases
        check_reservations_iff split: if_splits option.splits)
qed

text \<open>Whatever is wrong with a stored record, the error is the invalid policy and nothing else.\<close>

lemma decode_error:
  assumes "decode_runtime_quota_record v = Inl e"
  shows "errors_is e t \<longleftrightarrow> t = ErrRuntimePolicyInvalid"
  using assms check_reservations_policy
  by (auto simp: decode_runtime_quota_record_def Let_def parse_micros_cases split: if_splits option.splits)

text \<open>What is stored is read back as it was.\<close>

lemma fold_field_names [simp]:
  "fold_name ''version'' = ''version''" "fold_name ''budget_micros'' = ''budget_micros''"
  "fold_name ''spent_micros'' = ''spent_micros''" "fold_name ''reservations'' = ''reservations''"
  by code_simp+

declare fold_name.simps [simp del]

lemma unmarshal_marshalled_entries:
  "distinct (map fst (m @ n)) \<Longrightarrow> unmarshal_entries (map (\<lambda>(k, v). (k, JStr v)) n) m = Some (m @ n)"
proof (induction n arbitrary: m)
  case (Cons x n)
  then have "map_put (fst x) (snd x) m = m @ [x]" by (simp add: map_put_new)
  then show ?case using Cons by (cases x) simp
qed simp

lemma decode_marshal:
  assumes "good_record r"
  shows "decode_runtime_quota_record (Some (marshal_record r)) = Inr r"
proof -
  note g = good_reservations [OF assms]
  let ?m = "reservations_of r"
  have spent: "rq_spent r \<noteq> []" using g(4) by (auto simp: valid_micros_def parse_int_def strip_sign_def)
  have "unmarshal_record (marshal_record r) = Some (if ?m = [] then r\<lparr>rq_reservations := None\<rparr> else r)"
  proof (cases ?m)
    case Nil
    then show ?thesis
      using g(1,5) by (simp add: marshal_record_def unmarshal_field_def zero_record_def Let_def)
  next
    case (Cons x xs)
    then have "unmarshal_entries (map (\<lambda>(k, v). (k, JStr v)) (x # xs)) [] = Some (x # xs)"
      using unmarshal_marshalled_entries [of "[]" "x # xs"] g(2) by simp
    then show ?thesis
      using g(1,5) Cons by (simp add: marshal_record_def unmarshal_field_def zero_record_def Let_def)
  qed
  moreover have "check_reservations ?m = None" using g(3) check_reservations_iff by blast
  moreover have "r\<lparr>rq_reservations := Some ?m\<rparr> = r" using g(1) by (cases r) simp
  moreover have "(r\<lparr>rq_reservations := None\<rparr>)\<lparr>rq_reservations := Some []\<rparr> = r" if "?m = []"
    using g(1) that by (cases r) simp
  ultimately show ?thesis
    using g(1,4,5) spent by (auto simp: decode_runtime_quota_record_def parse_micros_cases Let_def)
qed

section \<open>The account of a record\<close>

definition rt_used :: "runtime_record \<Rightarrow> int" where
  "rt_used r = micros (rq_spent r) + sum_micros (reservations_of r)"

text \<open>A budget that is not a number denies everything.\<close>

definition rt_limit :: "runtime_record \<Rightarrow> int" where
  "rt_limit r = (if valid_micros (rq_budget r) then micros (rq_budget r) else -1)"

definition with_reservation :: "string \<Rightarrow> i64 \<Rightarrow> runtime_record \<Rightarrow> runtime_record" where
  "with_reservation i e r = r\<lparr>rq_reservations := Some (map_put i (format_int e) (reservations_of r))\<rparr>"

definition without_reservation :: "string \<Rightarrow> runtime_record \<Rightarrow> runtime_record" where
  "without_reservation i r = r\<lparr>rq_reservations := Some (map_delete i (reservations_of r))\<rparr>"

definition amount_of :: "string \<Rightarrow> runtime_record \<Rightarrow> int option" where
  "amount_of i r = map_option micros (map_of (reservations_of r) i)"

lemma amount_valid: "good_record r \<Longrightarrow> map_of (reservations_of r) i = Some raw \<Longrightarrow> valid_micros raw"
  using good_reservations(3) by (fastforce dest: map_of_SomeD)

lemma with_reservation_props:
  assumes "good_record r" and "0 \<le> sint e" and "i \<noteq> []"
  shows "good_record (with_reservation i e r)" and "rt_limit (with_reservation i e r) = rt_limit r"
    and "rt_used (with_reservation i e r) \<le> rt_used r + sint e"
    and "amount_of i r = None \<Longrightarrow> rt_used (with_reservation i e r) = rt_used r + sint e"
    and "amount_of j (with_reservation i e r) = (if j = i then Some (sint e) else amount_of j r)"
proof -
  note g = good_reservations [OF assms(1)]
  let ?m = "reservations_of r"
  have m: "reservations_of (with_reservation i e r) = map_put i (format_int e) ?m"
    by (simp add: with_reservation_def reservations_of_def)
  have "valid_micros (format_int e)" using assms(2) by simp
  then have entries: "valid_entries (map_put i (format_int e) ?m)" by (rule valid_entries_put [OF g(3) assms(3)])
  have "distinct (map fst (map_put i (format_int e) ?m))" using g(2) by (rule map_put_distinct)
  moreover have "rq_version (with_reservation i e r) = 1" "rq_spent (with_reservation i e r) = rq_spent r"
    "rq_reservations (with_reservation i e r) = Some (map_put i (format_int e) ?m)"
    using g(5) by (simp_all add: with_reservation_def)
  ultimately show "good_record (with_reservation i e r)"
    unfolding good_record_def using g(4) entries by (intro conjI exI) (simp_all only:)
  show "rt_limit (with_reservation i e r) = rt_limit r"
    by (simp add: rt_limit_def with_reservation_def)
  have old: "0 \<le> micros raw" if "map_of ?m i = Some raw" for raw
    using amount_valid [OF assms(1) that] micros_bounds(1) by blast
  have used: "rt_used (with_reservation i e r) = rt_used r + sint e - (case map_of ?m i of None \<Rightarrow> 0 | Some w \<Rightarrow> micros w)"
    using sum_micros_put [OF g(2), of i "format_int e"] by (simp add: rt_used_def m) (simp add: with_reservation_def)
  then show "rt_used (with_reservation i e r) \<le> rt_used r + sint e"
    using old by (auto split: option.splits)
  show "amount_of i r = None \<Longrightarrow> rt_used (with_reservation i e r) = rt_used r + sint e"
    using used by (simp add: amount_of_def)
  show "amount_of j (with_reservation i e r) = (if j = i then Some (sint e) else amount_of j r)"
    by (simp add: amount_of_def m)
qed

lemma without_reservation_props:
  assumes "good_record r" and "amount_of i r = Some a"
  shows "good_record (without_reservation i r)" and "rt_limit (without_reservation i r) = rt_limit r"
    and "rt_used (without_reservation i r) = rt_used r - a"
    and "amount_of j (without_reservation i r) = (if j = i then None else amount_of j r)"
    and "rq_spent (without_reservation i r) = rq_spent r"
proof -
  note g = good_reservations [OF assms(1)]
  have m: "reservations_of (without_reservation i r) = map_delete i (reservations_of r)"
    by (simp add: without_reservation_def reservations_of_def)
  show "good_record (without_reservation i r)"
    using g(2,4,5) valid_entries_delete [OF g(3), of i] by (simp add: good_record_def without_reservation_def)
  show "rt_limit (without_reservation i r) = rt_limit r" "rq_spent (without_reservation i r) = rq_spent r"
    by (simp_all add: rt_limit_def without_reservation_def)
  show "rt_used (without_reservation i r) = rt_used r - a"
    using sum_micros_delete [OF g(2), of i] assms(2)
    by (auto simp: rt_used_def m amount_of_def) (simp_all add: without_reservation_def)
  show "amount_of j (without_reservation i r) = (if j = i then None else amount_of j r)"
    by (simp add: amount_of_def m)
qed

lemma with_spent_props:
  assumes "good_record r" and "0 \<le> sint w"
  defines "r' \<equiv> r\<lparr>rq_spent := format_int w\<rparr>"
  shows "good_record r'" and "rt_limit r' = rt_limit r" and "rt_used r' = rt_used r - micros (rq_spent r) + sint w"
    and "amount_of j r' = amount_of j r"
  using assms by (simp_all add: good_record_def rt_limit_def rt_used_def amount_of_def reservations_of_def)

section \<open>The callbacks\<close>

lemma reserve_callback_result:
  assumes "decode_runtime_quota_record v = Inr r" and "0 \<le> sint e"
  shows "if rt_limit r < 0 \<or> max_int64 < rt_used r + sint e
    then \<exists>x. reserve_callback i e (Some v) = Inl x \<and> errors_is x ErrRuntimePolicyInvalid \<and> \<not> errors_is x ErrBudgetExceeded
    else if rt_limit r < rt_used r + sint e
    then \<exists>x. reserve_callback i e (Some v) = Inl x \<and> errors_is x ErrBudgetExceeded
    else reserve_callback i e (Some v) = Inr (Some (marshal_record (with_reservation i e r)))"
proof -
  have good: "good_record r" using decode_good [OF assms(1)] .
  note g = good_reservations [OF good]
  let ?m = "reservations_of r" and ?spent = "the (parse_int (rq_spent r))" and ?limit = "the (parse_int (rq_budget r))"
  have spent: "sint ?spent = micros (rq_spent r)" "0 \<le> micros (rq_spent r)"
    using g(4) sint_the_parse micros_bounds by auto
  have sum: "sum_reservations ?m 0 = (if sum_micros ?m \<le> max_int64 then Inr (word_of_int (sum_micros ?m))
     else Inl (policy_invalid ''%w: reserved amount overflows int64''))"
    using sum_reservations_result [OF g(3), of 0] by simp
  have nonneg: "0 \<le> sum_micros ?m" using sum_micros_nonneg [OF g(3)] .
  show ?thesis
  proof (cases "valid_micros (rq_budget r) \<and> sum_micros ?m \<le> max_int64")
    case False
    then show ?thesis
      using assms g(4) sum spent
      by (auto simp: reserve_callback_def parse_micros_cases rt_limit_def rt_used_def)
  next
    case True
    then have limit: "sint ?limit = rt_limit r" "0 \<le> rt_limit r"
      using sint_the_parse micros_bounds by (auto simp: rt_limit_def)
    define w :: i64 where "w = word_of_int (sum_micros ?m)"
    have w: "sint w = sum_micros ?m" using True nonneg by (simp add: w_def sint_word_of_int_i64)
    have d1: "sint (MaxInt64 - w) = max_int64 - sum_micros ?m"
      using w nonneg True by (subst sint_diff_nonneg) (simp_all add: sint_MaxInt64)
    have call: "reserve_callback i e (Some v) =
        (if MaxInt64 - w <s ?spent \<or> MaxInt64 - (?spent + w) <s e
         then Inl (policy_invalid ''%w: usage amount overflows int64'')
         else if ?limit - (?spent + w) <s e
         then Inl (Errorf ''%w: spent=%d reserved=%d estimate=%d limit=%d''
           [FErr (Sentinel ErrBudgetExceeded), FInt ?spent, FInt w, FInt e, FInt ?limit])
         else Inr (Some (marshal_record (with_reservation i e r))))"
      using assms(1) True g(4) sum
      by (simp add: reserve_callback_def parse_micros_cases w_def with_reservation_def Let_def)
    show ?thesis
    proof (cases "max_int64 < rt_used r")
      case over: True
      then have "MaxInt64 - w <s ?spent" using d1 spent by (simp add: i64_simps rt_used_def)
      then show ?thesis using call over assms(2) limit by simp
    next
      case False
      then have u: "sint (?spent + w) = rt_used r"
        using spent w nonneg by (subst sint_add_i64) (simp_all add: rt_used_def)
      have "0 \<le> rt_used r" using spent(2) nonneg by (simp add: rt_used_def)
      then have d2: "sint (MaxInt64 - (?spent + w)) = max_int64 - rt_used r" "sint (?limit - (?spent + w)) = rt_limit r - rt_used r"
        using u limit by (simp_all add: sint_MaxInt64 sint_diff_nonneg)
      show ?thesis
        using call d1 d2 spent False limit assms(2) by (auto simp: i64_simps rt_used_def)
    qed
  qed
qed

text \<open>A record with the reservation \<open>i\<close> settled for the amount \<open>a\<close>.\<close>

definition settled_record :: "string \<Rightarrow> int \<Rightarrow> runtime_record \<Rightarrow> runtime_record \<Rightarrow> bool" where
  "settled_record i a r r' \<longleftrightarrow> good_record r' \<and> rt_limit r' = rt_limit r
     \<and> (\<exists>x. amount_of i r = Some x \<and> rt_used r' = rt_used r - x + a)
     \<and> (\<forall>j. amount_of j r' = (if j = i then None else amount_of j r))"

lemma commit_callback_result:
  assumes "decode_runtime_quota_record v = Inr r" and "0 \<le> sint a"
  shows "if amount_of i r = None
    then \<exists>x. commit_callback i a (Some v) = Inl x \<and> errors_is x ErrReservationNotFound
    else if max_int64 < micros (rq_spent r) + sint a
    then \<exists>x. commit_callback i a (Some v) = Inl x
    else \<exists>r'. commit_callback i a (Some v) = Inr (Some (marshal_record r')) \<and> settled_record i (sint a) r r'"
proof -
  have good: "good_record r" using decode_good [OF assms(1)] .
  show ?thesis
  proof (cases "map_of (reservations_of r) i")
    case None
    then show ?thesis
      using assms(1) by (simp add: commit_callback_def record_for_settlement_def amount_of_def)
  next
    case (Some raw)
    let ?w = "the (parse_int (rq_spent r))" and ?r = "without_reservation i r"
    have am: "amount_of i r = Some (micros raw)" using Some by (simp add: amount_of_def)
    have v: "valid_micros (rq_spent r)" "valid_micros raw" "sint ?w = micros (rq_spent r)"
      using good_reservations(4) [OF good] amount_valid [OF good Some] sint_the_parse by auto
    have pos: "0 \<le> micros (rq_spent r)" using v(1) by (rule micros_bounds)
    have diff: "sint (MaxInt64 - ?w) = max_int64 - micros (rq_spent r)"
      using v(3) pos by (simp add: sint_diff_nonneg sint_MaxInt64)
    have call: "commit_callback i a (Some v) =
        (if MaxInt64 - ?w <s a then Inl (policy_invalid ''%w: committed usage overflows int64'')
         else Inr (Some (marshal_record (?r\<lparr>rq_spent := format_int (?w + a)\<rparr>))))"
      using assms(1) Some v
      by (simp add: commit_callback_def record_for_settlement_def parse_micros_cases without_reservation_def Let_def)
    note wo = without_reservation_props [OF good am]
    show ?thesis
    proof (cases "max_int64 < micros (rq_spent r) + sint a")
      case True
      then show ?thesis using call diff am by (simp add: i64_simps)
    next
      case False
      then have sum: "sint (?w + a) = micros (rq_spent r) + sint a"
        using v(3) pos assms(2) by (subst sint_add_i64) simp_all
      have "0 \<le> sint (?w + a)" using sum pos assms(2) by simp
      note ws = with_spent_props [OF wo(1) this]
      have "settled_record i (sint a) r (?r\<lparr>rq_spent := format_int (?w + a)\<rparr>)"
        unfolding settled_record_def using ws wo am sum by simp
      then show ?thesis using call diff False am by (auto simp: i64_simps)
    qed
  qed
qed

lemma release_callback_result:
  assumes "decode_runtime_quota_record v = Inr r"
  shows "if amount_of i r = None
    then \<exists>x. release_callback i (Some v) = Inl x \<and> errors_is x ErrReservationNotFound
    else \<exists>r'. release_callback i (Some v) = Inr (Some (marshal_record r')) \<and> settled_record i 0 r r'"
proof -
  have good: "good_record r" using decode_good [OF assms] .
  show ?thesis
  proof (cases "map_of (reservations_of r) i")
    case None
    then show ?thesis using assms by (simp add: release_callback_def record_for_settlement_def amount_of_def)
  next
    case (Some raw)
    then have am: "amount_of i r = Some (micros raw)" by (simp add: amount_of_def)
    have "settled_record i 0 r (without_reservation i r)"
      unfolding settled_record_def using without_reservation_props [OF good am] am by simp
    then show ?thesis
      using assms Some am
      by (auto simp: release_callback_def record_for_settlement_def without_reservation_def)
  qed
qed

lemma budget_callback_result:
  assumes "decode_runtime_quota_record v = Inr r" and "0 \<le> sint limit"
  shows "\<exists>r'. budget_callback limit (Some v) = Inr (Some (marshal_record r')) \<and> good_record r'
    \<and> rt_limit r' = sint limit \<and> rt_used r' = rt_used r \<and> (\<forall>j. amount_of j r' = amount_of j r)"
proof -
  let ?r = "r\<lparr>rq_budget := format_int limit\<rparr>"
  have "good_record ?r" using decode_good [OF assms(1)] by (simp add: good_record_def)
  moreover have "rt_limit ?r = sint limit" "rt_used ?r = rt_used r" "amount_of j ?r = amount_of j r" for j
    using assms(2) by (simp_all add: rt_limit_def rt_used_def amount_of_def reservations_of_def)
  ultimately show ?thesis using assms(1) by (auto simp: budget_callback_def)
qed

section \<open>The laws of the store\<close>

text \<open>
  \<open>lookup k key\<close> is the value under a key.  \<open>Update\<close> is atomic: when it returns no error,
  the callback has accepted the current value and its result is stored; when it returns an
  error, nothing has changed.  Other keys never change.
\<close>

locale atomic_kv =
  fixes update :: "'k kv_update"
    and lookup :: "'k \<Rightarrow> string \<Rightarrow> stored option"
  assumes update_ok: "update c key f k = (None, k') \<Longrightarrow>
      \<exists>v. f (lookup k key) = Inr v \<and> lookup k' = (lookup k)(key \<mapsto> v)"
    and update_error: "update c key f k = (Some e, k') \<Longrightarrow> lookup k' = lookup k"

text \<open>A store that does not fail: the error of \<open>Update\<close> is the error of the callback.\<close>

locale prompt_kv = atomic_kv +
  assumes update_prompt: "fst (update background key f k) = (case f (lookup k key) of Inl e \<Rightarrow> Some e | Inr v \<Rightarrow> None)"

text \<open>The record of a tenant, and the account it stands for.\<close>

definition rt_key :: "string \<Rightarrow> string" where
  "rt_key tenant = (case runtime_quota_key tenant of Inl e \<Rightarrow> [] | Inr key \<Rightarrow> key)"

definition rt_record :: "('k \<Rightarrow> string \<Rightarrow> stored option) \<Rightarrow> string \<Rightarrow> 'k backend \<Rightarrow> runtime_record option" where
  "rt_record lookup tenant s =
     (case lookup (be_data s) (rt_key tenant) of
        None \<Rightarrow> None
      | Some v \<Rightarrow> (case decode_runtime_quota_record v of Inl e \<Rightarrow> None | Inr r \<Rightarrow> Some r))"

definition runtime_used :: "('k \<Rightarrow> string \<Rightarrow> stored option) \<Rightarrow> string \<Rightarrow> 'k backend \<Rightarrow> int" where
  "runtime_used lookup tenant s = (case rt_record lookup tenant s of None \<Rightarrow> 0 | Some r \<Rightarrow> rt_used r)"

definition runtime_limit :: "('k \<Rightarrow> string \<Rightarrow> stored option) \<Rightarrow> string \<Rightarrow> 'k backend \<Rightarrow> int" where
  "runtime_limit lookup tenant s = (case rt_record lookup tenant s of None \<Rightarrow> -1 | Some r \<Rightarrow> rt_limit r)"

definition runtime_held :: "('k \<Rightarrow> string \<Rightarrow> stored option) \<Rightarrow> string \<Rightarrow> 'k backend \<Rightarrow> nat \<Rightarrow> int option" where
  "runtime_held lookup tenant s h =
     (if h < length (be_objs s) \<and> \<not> ro_done (be_objs s ! h)
      then (case rt_record lookup tenant s of None \<Rightarrow> None | Some r \<Rightarrow> amount_of (ro_id (be_objs s ! h)) r) else None)"

text \<open>The random source gives sixteen bytes, or at least not none.\<close>

definition runtime_inv :: "'k backend \<Rightarrow> bool" where
  "runtime_inv s \<longleftrightarrow> (\<forall>n. be_random s n \<noteq> Some [])"

lemma rt_record_good: "rt_record lookup tenant s = Some r \<Longrightarrow> good_record r"
  by (auto simp: rt_record_def dest: decode_good split: option.splits sum.splits)

lemma rt_record_stored:
  "good_record r \<Longrightarrow> lookup (be_data s) (rt_key tenant) = Some (Some (marshal_record r)) \<Longrightarrow> rt_record lookup tenant s = Some r"
  by (simp add: rt_record_def decode_marshal)

context atomic_kv
begin

abbreviation rt_ledger :: "string \<Rightarrow> 'k runtime_ledger" where
  "rt_ledger tenant \<equiv> \<lparr>rt_kv = Some update, rt_tenant = tenant\<rparr>"

text \<open>A call on the store stores what the callback made of the record, or leaves all records alone.\<close>

lemma runtime_update_state:
  assumes "runtime_update (rt_ledger tenant) c f s = (res, t)"
  shows "same_env s t \<and> be_objs t = be_objs s \<and> be_drawn t = be_drawn s
    \<and> (case res of
         Inl e \<Rightarrow> lookup (be_data t) = lookup (be_data s)
       | Inr _ \<Rightarrow> \<exists>v. f (lookup (be_data s) (rt_key tenant)) = Inr v
           \<and> lookup (be_data t) = (lookup (be_data s))(rt_key tenant \<mapsto> v))"
proof (cases "runtime_quota_key tenant")
  case (Inl e)
  then show ?thesis using assms by (auto simp: runtime_update_def same_env_def no_lost_def)
next
  case (Inr key)
  obtain err k where u: "update c key f (be_data s) = (err, k)" by fastforce
  then show ?thesis
    using assms Inr update_ok [of c key f "be_data s" k] update_error [of c key f "be_data s" _ k]
    by (cases err) (auto simp: runtime_update_def rt_key_def same_env_def no_lost_def)
qed

lemma same_record: "lookup (be_data t) = lookup (be_data s) \<Longrightarrow> rt_record lookup tenant t = rt_record lookup tenant s"
  by (simp add: rt_record_def)

text \<open>What \<open>Reserve\<close> does to the state.\<close>

lemma runtime_reserve_state:
  assumes "runtime_reserve (rt_ledger tenant) c e s = (res, t)"
  shows "(t = s \<and> (\<exists>x. res = Inl x))
    \<or> (c = background \<and> 0 \<le> sint e \<and> sint e \<le> sint MaxEstimate \<and> be_random t = be_random s
       \<and> be_drawn t = Suc (be_drawn s)
       \<and> (case res of
            Inl x \<Rightarrow> lookup (be_data t) = lookup (be_data s) \<and> be_objs t = be_objs s
          | Inr h \<Rightarrow> h = length (be_objs s)
              \<and> (\<exists>b r. be_random s (be_drawn s) = Some b \<and> rt_record lookup tenant s = Some r
                   \<and> be_objs t = be_objs s @ [\<lparr>ro_id = hex_encode b, ro_done = False\<rparr>]
                   \<and> rt_used r + sint e \<le> rt_limit r
                   \<and> lookup (be_data t) = (lookup (be_data s))
                       (rt_key tenant \<mapsto> Some (marshal_record (with_reservation (hex_encode b) e r))))))"
proof (cases "ctx_check c = None \<and> \<not> (e <s 0 \<or> MaxEstimate <s e) \<and> (\<exists>key. runtime_quota_key tenant = Inr key)")
  case False
  then show ?thesis using assms by (auto simp: runtime_reserve_def split: option.splits sum.splits if_splits)
next
  case True
  then have c: "c = background" "0 \<le> sint e" "sint e \<le> sint MaxEstimate" by (auto simp: ctx_check_None i64_simps)
  have "try_do new_id (wrapf ''cost: generate runtime reservation ID: %w'') (\<lambda>i.
      try_do (runtime_update (rt_ledger tenant) c (reserve_callback i e)) (\<lambda>e. e) (\<lambda>_. add_obj i)) s = (res, t)"
    using assms True by (auto simp: runtime_reserve_def)
  then show ?thesis
  proof (cases rule: try_doE)
    case (error x)
    then show ?thesis using c by (auto simp: new_id_def Let_def split: option.splits)
  next
    case (ok i s1)
    obtain b where b: "be_random s (be_drawn s) = Some b" "i = hex_encode b" "s1 = s\<lparr>be_drawn := Suc (be_drawn s)\<rparr>"
      using ok(1) by (auto simp: new_id_def Let_def split: option.splits)
    from ok(2) show ?thesis
    proof (cases rule: try_doE)
      case (error x)
      then show ?thesis
        using runtime_update_state [OF error(1)] b c by (auto simp: same_env_def)
    next
      case (ok _ s2)
      obtain v where v: "reserve_callback i e (lookup (be_data s) (rt_key tenant)) = Inr v"
        "lookup (be_data s2) = (lookup (be_data s))(rt_key tenant \<mapsto> v)"
        using runtime_update_state [OF ok(1)] b by auto
      then obtain old r where old: "lookup (be_data s) (rt_key tenant) = Some old" "decode_runtime_quota_record old = Inr r"
        by (auto simp: reserve_callback_def split: option.splits sum.splits)
      have "v = Some (marshal_record (with_reservation i e r)) \<and> rt_used r + sint e \<le> rt_limit r"
        using reserve_callback_result [OF old(2) c(2), of i] v(1) old(1) by (auto split: if_splits)
      moreover have "rt_record lookup tenant s = Some r" using old by (simp add: rt_record_def)
      ultimately show ?thesis
        using runtime_update_state [OF ok(1)] ok(2) b c v(2) by (auto simp: same_env_def add_obj_def)
    qed
  qed
qed

text \<open>A terminal call, whose callback settles the reservation for \<open>a\<close> or fails.\<close>

lemma runtime_terminal_state:
  assumes "once h (\<lambda>i. runtime_update (rt_ledger tenant) c (f i)) s = (err, t)"
    and "\<And>i old v. f i old = Inr v \<Longrightarrow> \<exists>w r r'. old = Some w \<and> decode_runtime_quota_record w = Inr r
        \<and> v = Some (marshal_record r') \<and> settled_record i a r r'"
  shows "be_random t = be_random s \<and> be_drawn t = be_drawn s
    \<and> (case err of
         Some e \<Rightarrow> lookup (be_data t) = lookup (be_data s) \<and> be_objs t = be_objs s
       | None \<Rightarrow> t = s \<and> ro_done (be_objs s ! h)
          \<or> (\<exists>r r'. rt_record lookup tenant s = Some r \<and> rt_record lookup tenant t = Some r'
              \<and> \<not> ro_done (be_objs s ! h) \<and> settled_record (ro_id (be_objs s ! h)) a r r'
              \<and> be_objs t = (be_objs s)[h := (be_objs s ! h)\<lparr>ro_done := True\<rparr>]))"
proof (cases "ro_done (be_objs s ! h)")
  case True
  then show ?thesis using assms(1) by (simp add: once_done)
next
  case False
  from once_open [OF False assms(1)] show ?thesis
  proof (elim disjE exE conjE)
    fix e
    assume "err = Some e" "runtime_update (rt_ledger tenant) c (f (ro_id (be_objs s ! h))) s = (Inl e, t)"
    then show ?thesis using runtime_update_state by (fastforce simp: same_env_def)
  next
    fix u
    assume e: "err = None" and u: "runtime_update (rt_ledger tenant) c (f (ro_id (be_objs s ! h))) s = (Inr (), u)"
      and t: "t = u\<lparr>be_objs := (be_objs u)[h := (be_objs s ! h)\<lparr>ro_done := True\<rparr>]\<rparr>"
    obtain v where v: "f (ro_id (be_objs s ! h)) (lookup (be_data s) (rt_key tenant)) = Inr v"
      "lookup (be_data u) = (lookup (be_data s))(rt_key tenant \<mapsto> v)" "be_objs u = be_objs s" "be_random u = be_random s"
      "be_drawn u = be_drawn s"
      using runtime_update_state [OF u] by (auto simp: same_env_def)
    obtain w r r' where w: "lookup (be_data s) (rt_key tenant) = Some w" "decode_runtime_quota_record w = Inr r"
      "v = Some (marshal_record r')" "settled_record (ro_id (be_objs s ! h)) a r r'"
      using assms(2) [OF v(1)] by blast
    then have "rt_record lookup tenant s = Some r" "rt_record lookup tenant t = Some r'"
      using v(2) by (auto simp: rt_record_def t settled_record_def decode_marshal)
    then show ?thesis using e t v(3-5) w(4) False by simp
  qed
qed

end

lemma commit_callback_ok:
  assumes "commit_callback i a old = Inr v" and "0 \<le> sint a"
  shows "\<exists>w r r'. old = Some w \<and> decode_runtime_quota_record w = Inr r
      \<and> v = Some (marshal_record r') \<and> settled_record i (sint a) r r'"
proof -
  obtain w r where w: "old = Some w" "decode_runtime_quota_record w = Inr r"
    using assms(1) by (auto simp: commit_callback_def record_for_settlement_def split: option.splits sum.splits)
  then show ?thesis using commit_callback_result [OF w(2) assms(2), of i] assms(1) by (auto split: if_splits)
qed

lemma release_callback_ok:
  assumes "release_callback i old = Inr v"
  shows "\<exists>w r r'. old = Some w \<and> decode_runtime_quota_record w = Inr r
      \<and> v = Some (marshal_record r') \<and> settled_record i 0 r r'"
proof -
  obtain w r where w: "old = Some w" "decode_runtime_quota_record w = Inr r"
    using assms(1) by (auto simp: release_callback_def record_for_settlement_def split: option.splits sum.splits)
  then show ?thesis using release_callback_result [OF w(2), of i] assms(1) by (auto split: if_splits)
qed

section \<open>The contract\<close>

context atomic_kv
begin

lemma runtime_reserve_good:
  assumes "runtime_inv s" and "runtime_reserve (rt_ledger tenant) c e s = (res, t)"
  shows "runtime_inv t \<and> runtime_limit lookup tenant t = runtime_limit lookup tenant s
    \<and> (case res of
         Inl x \<Rightarrow> runtime_used lookup tenant t = runtime_used lookup tenant s
       | Inr h \<Rightarrow> c = background \<and> 0 \<le> sint e \<and> runtime_held lookup tenant t h = Some (sint e)
           \<and> runtime_used lookup tenant t \<le> runtime_used lookup tenant s + sint e
           \<and> runtime_used lookup tenant t \<le> runtime_limit lookup tenant s)"
proof -
  note st = runtime_reserve_state [OF assms(2)]
  show ?thesis
  proof (cases res)
    case (Inl x)
    then have "lookup (be_data t) = lookup (be_data s)" "be_random t = be_random s" using st by auto
    then show ?thesis
      using assms(1) Inl same_record [of t s tenant] by (simp add: runtime_inv_def runtime_limit_def runtime_used_def)
  next
    case (Inr h)
    then obtain b r where b: "be_random s (be_drawn s) = Some b" and r: "rt_record lookup tenant s = Some r"
      and objs: "be_objs t = be_objs s @ [\<lparr>ro_id = hex_encode b, ro_done = False\<rparr>]" "h = length (be_objs s)"
      and fits: "rt_used r + sint e \<le> rt_limit r" and c: "c = background" "0 \<le> sint e" "be_random t = be_random s"
      and new: "lookup (be_data t) = (lookup (be_data s))
        (rt_key tenant \<mapsto> Some (marshal_record (with_reservation (hex_encode b) e r)))"
      using st by auto
    have "b \<noteq> []" using assms(1) b by (auto simp: runtime_inv_def)
    then have i: "hex_encode b \<noteq> []" by (cases b) simp_all
    note w = with_reservation_props [OF rt_record_good [OF r] c(2) i]
    have "rt_record lookup tenant t = Some (with_reservation (hex_encode b) e r)"
      using w(1) new by (intro rt_record_stored) simp_all
    then show ?thesis
      using w(2,3) w(5) [of "hex_encode b"] r objs fits c Inr assms(1)
      by (simp add: runtime_inv_def runtime_limit_def runtime_used_def runtime_held_def nth_append)
  qed
qed

lemma runtime_terminal_good:
  assumes "once h (\<lambda>i. runtime_update (rt_ledger tenant) c (f i)) s = (err, t)"
    and "\<And>i old v. f i old = Inr v \<Longrightarrow> \<exists>w r r'. old = Some w \<and> decode_runtime_quota_record w = Inr r
        \<and> v = Some (marshal_record r') \<and> settled_record i a r r'"
    and "runtime_inv s"
  shows "runtime_inv t \<and> runtime_limit lookup tenant t = runtime_limit lookup tenant s
    \<and> (err \<noteq> None \<longrightarrow> runtime_used lookup tenant t = runtime_used lookup tenant s)
    \<and> (\<forall>r. err = None \<longrightarrow> runtime_held lookup tenant s h = Some r \<longrightarrow>
         obj_finished (be_objs t) h \<and> runtime_held lookup tenant t h = None
         \<and> runtime_used lookup tenant t = runtime_used lookup tenant s - r + a)"
proof -
  note st = runtime_terminal_state [OF assms(1,2)]
  show ?thesis
  proof (cases err)
    case (Some e)
    then show ?thesis
      using st same_record [of t s tenant] assms(3)
      by (simp add: runtime_inv_def runtime_limit_def runtime_used_def)
  next
    case None
    then have "t = s \<and> ro_done (be_objs s ! h)
          \<or> (\<exists>r r'. rt_record lookup tenant s = Some r \<and> rt_record lookup tenant t = Some r'
              \<and> \<not> ro_done (be_objs s ! h) \<and> settled_record (ro_id (be_objs s ! h)) a r r'
              \<and> be_objs t = (be_objs s)[h := (be_objs s ! h)\<lparr>ro_done := True\<rparr>])"
      and "be_random t = be_random s"
      using st by auto
    then show ?thesis
      using None assms(3)
      by (auto simp: runtime_inv_def runtime_limit_def runtime_used_def runtime_held_def settled_record_def
          obj_finished_def split: if_splits)
  qed
qed

lemma runtime_commit_good:
  assumes "runtime_inv s" and "runtime_commit (rt_ledger tenant) h c a s = (err, t)"
  shows "runtime_inv t \<and> runtime_limit lookup tenant t = runtime_limit lookup tenant s
    \<and> (err \<noteq> None \<longrightarrow> runtime_used lookup tenant t = runtime_used lookup tenant s)
    \<and> (\<forall>r. err = None \<longrightarrow> runtime_held lookup tenant s h = Some r \<longrightarrow>
         obj_finished (be_objs t) h \<and> runtime_held lookup tenant t h = None
         \<and> runtime_used lookup tenant t = runtime_used lookup tenant s - r + max 0 (sint a))"
proof (cases "ctx_check c")
  case None
  then have "once h (\<lambda>i. runtime_update (rt_ledger tenant) c (commit_callback i (clamp0 a))) s = (err, t)"
    using assms(2) by (simp add: runtime_commit_def)
  from runtime_terminal_good [OF this commit_callback_ok [OF _ clamp0_nonneg] assms(1)] show ?thesis
    by (simp add: sint_clamp0)
qed (use assms in \<open>auto simp: runtime_commit_def\<close>)

lemma runtime_release_good:
  assumes "runtime_inv s" and "runtime_release (rt_ledger tenant) h c s = (err, t)"
  shows "runtime_inv t \<and> runtime_limit lookup tenant t = runtime_limit lookup tenant s
    \<and> (err \<noteq> None \<longrightarrow> runtime_used lookup tenant t = runtime_used lookup tenant s)
    \<and> (\<forall>r. err = None \<longrightarrow> runtime_held lookup tenant s h = Some r \<longrightarrow>
         obj_finished (be_objs t) h \<and> runtime_held lookup tenant t h = None
         \<and> runtime_used lookup tenant t = runtime_used lookup tenant s - r)"
proof (cases "ctx_check c")
  case None
  then have "once h (\<lambda>i. runtime_update (rt_ledger tenant) c (release_callback i)) s = (err, t)"
    using assms(2) by (simp add: runtime_release_def)
  from runtime_terminal_good [OF this release_callback_ok assms(1)] show ?thesis by simp
qed (use assms in \<open>auto simp: runtime_release_def\<close>)

end

sublocale atomic_kv \<subseteq> runtime: reserver_contract "runtime_reserver (rt_ledger tenant)" runtime_inv
  "runtime_used lookup tenant" "runtime_limit lookup tenant" "runtime_held lookup tenant"
  "\<lambda>s. obj_finished (be_objs s)" max_int64 for tenant
proof (unfold_locales, goal_cases)
  case (1 s c e h s')
  then show ?case using runtime_reserve_good [of s tenant c e "Inr h" s'] by simp
next
  case (2 s c e x s')
  then show ?case using runtime_reserve_good [of s tenant c e "Inl x" s'] by simp
next
  case (3 s h r c a s')
  then show ?case using runtime_commit_good [of s tenant h c a None s'] by simp
next
  case (4 s h c a x s')
  then show ?case using runtime_commit_good [of s tenant h c a "Some x" s'] by simp
next
  case (5 s h r c s')
  then show ?case using runtime_release_good [of s tenant h c None s'] by simp
next
  case (6 s h c x s')
  then show ?case using runtime_release_good [of s tenant h c "Some x" s'] by simp
next
  case (7 s h a)
  then show ?case by (simp add: runtime_commit_def once_finished)
next
  case (8 s h)
  then show ?case by (simp add: runtime_release_def once_finished)
next
  case (9 s c e res s')
  then show ?case using runtime_reserve_good [of s tenant c e res s'] by simp
next
  case (10 s h c a err s')
  then show ?case using runtime_commit_good [of s tenant h c a err s'] by simp
next
  case (11 s h c err s')
  then show ?case using runtime_release_good [of s tenant h c err s'] by simp
next
  case (12 s c ev err s' h)
  then show ?case by (simp add: runtime_record_event_def)
qed

end
