(* ===== verification/RuntimeQuiet.thy ===== *)
theory RuntimeQuiet
  imports RuntimeLemmas
begin

text \<open>
  The runtime budget (\<open>nexssflow/storage_backend.go\<close>) on a store that does not fail: the
  result of every call, the prompt contract, and the stores that the contracts are
  interpreted on.
\<close>

section \<open>A quiet world\<close>

definition rt_ids :: "runtime_record \<Rightarrow> string set" where
  "rt_ids r = {i. amount_of i r \<noteq> None}"

text \<open>There is a policy, and no identifier is drawn twice.\<close>

definition runtime_quiet :: "('k \<Rightarrow> string \<Rightarrow> stored option) \<Rightarrow> string \<Rightarrow> 'k backend \<Rightarrow> bool" where
  "runtime_quiet lookup tenant s \<longleftrightarrow> runtime_inv s \<and> trim_space tenant \<noteq> []
     \<and> (\<exists>r. rt_record lookup tenant s = Some r \<and> 0 \<le> rt_limit r \<and> fresh_ids (rt_ids r) s)"

lemma amount_le_used:
  assumes "good_record r" and "amount_of i r = Some x"
  shows "micros (rq_spent r) \<le> rt_used r - x" and "0 \<le> x" and "0 \<le> micros (rq_spent r)"
proof -
  note w = without_reservation_props [OF assms]
  have "0 \<le> sum_micros (reservations_of (without_reservation i r))"
    using good_reservations(3) [OF w(1)] by (rule sum_micros_nonneg)
  then show "micros (rq_spent r) \<le> rt_used r - x" using w(3,5) by (simp add: rt_used_def)
  show "0 \<le> micros (rq_spent r)" using good_reservations(4) [OF assms(1)] micros_bounds(1) by blast
  show "0 \<le> x" using assms amount_valid micros_bounds(1) by (fastforce simp: amount_of_def)
qed

lemma rt_record_stored_value:
  assumes "rt_record lookup tenant s = Some r"
  obtains v where "lookup (be_data s) (rt_key tenant) = Some v" and "decode_runtime_quota_record v = Inr r"
  using assms by (auto simp: rt_record_def split: option.splits sum.splits)

context prompt_kv
begin

lemma runtime_update_prompt:
  assumes "trim_space tenant \<noteq> []" and "runtime_update (rt_ledger tenant) background f s = (res, t)"
  shows "case f (lookup (be_data s) (rt_key tenant)) of Inl e \<Rightarrow> res = Inl e | Inr v \<Rightarrow> res = Inr ()"
proof -
  have key: "runtime_quota_key tenant = Inr (rt_key tenant)"
    using assms(1) by (simp add: runtime_quota_key_def rt_key_def Let_def)
  obtain err k where u: "update background (rt_key tenant) f (be_data s) = (err, k)" by fastforce
  then show ?thesis
    using assms(2) key update_prompt [of "rt_key tenant" f "be_data s"]
    by (auto simp: runtime_update_def split: option.splits sum.splits)
qed

lemma runtime_reserve_prompt:
  assumes quiet: "runtime_quiet lookup tenant s" and e: "0 \<le> sint e" "sint e \<le> sint MaxEstimate"
    and r: "rt_record lookup tenant s = Some r" and small: "rt_used r + sint e \<le> max_int64"
  shows "if rt_limit r < rt_used r + sint e
    then \<exists>x t. runtime_reserve (rt_ledger tenant) background e s = (Inl x, t) \<and> errors_is x ErrBudgetExceeded
    else \<exists>b t. runtime_reserve (rt_ledger tenant) background e s = (Inr (length (be_objs s)), t)
      \<and> be_random s (be_drawn s) = Some b \<and> amount_of (hex_encode b) r = None"
proof -
  obtain b where b: "be_random s (be_drawn s) = Some b" "hex_encode b \<notin> rt_ids r"
    using quiet r fresh_idsD [of "rt_ids r" s] unfolding runtime_quiet_def by fastforce
  let ?s = "s\<lparr>be_drawn := Suc (be_drawn s)\<rparr>" and ?f = "reserve_callback (hex_encode b) e"
  obtain v where v: "lookup (be_data s) (rt_key tenant) = Some v" "decode_runtime_quota_record v = Inr r"
    by (rule rt_record_stored_value [OF r])
  obtain res t where t: "runtime_update (rt_ledger tenant) background ?f ?s = (res, t)" by fastforce
  have tenant: "trim_space tenant \<noteq> []" using quiet by (simp add: runtime_quiet_def)
  have run: "runtime_reserve (rt_ledger tenant) background e s = try_do (\<lambda>_. (res, t)) (\<lambda>e. e) (\<lambda>_. add_obj (hex_encode b)) ?s"
    using e b(1) tenant t
    by (simp add: runtime_reserve_def runtime_quota_key_def try_do_def new_id_def i64_simps Let_def)
  have objs: "be_objs t = be_objs s" using runtime_update_state [OF t] by simp
  have "0 \<le> rt_limit r" using quiet r by (simp add: runtime_quiet_def)
  then show ?thesis
    using reserve_callback_result [OF v(2) e(1), of "hex_encode b"] runtime_update_prompt [OF tenant t] v(1) run small b objs
    by (auto simp: try_do_def add_obj_def rt_ids_def split: if_splits)
qed

end

text \<open>The world stays quiet, also when calls fail.\<close>

context atomic_kv
begin

lemma runtime_quietI:
  assumes "runtime_quiet lookup tenant s" and "rt_record lookup tenant s = Some r" and "rt_record lookup tenant t = Some r'"
    and "rt_limit r' = rt_limit r" and "be_random t = be_random s" and "fresh_ids (rt_ids r') t"
  shows "runtime_quiet lookup tenant t"
  using assms by (auto simp: runtime_quiet_def runtime_inv_def)

lemma runtime_reserve_quiet:
  assumes quiet: "runtime_quiet lookup tenant s" and res: "runtime_reserve (rt_ledger tenant) c e s = (res, t)"
  shows "runtime_quiet lookup tenant t"
proof (cases "t = s")
  case True
  then show ?thesis using quiet by simp
next
  case False
  then have st: "0 \<le> sint e" "be_random t = be_random s" "be_drawn t = Suc (be_drawn s)"
    using runtime_reserve_state [OF res] by auto
  obtain r where r: "rt_record lookup tenant s = Some r" "fresh_ids (rt_ids r) s"
    using quiet by (auto simp: runtime_quiet_def)
  show ?thesis
  proof (cases res)
    case (Inl x)
    then have "lookup (be_data t) = lookup (be_data s)"
      using runtime_reserve_state [OF res] False by auto
    then have "rt_record lookup tenant t = Some r" using same_record r(1) by metis
    then show ?thesis
      using st(2,3) fresh_ids_subset [OF r(2) order_refl, of t] by (intro runtime_quietI [OF quiet r(1)]) simp_all
  next
    case (Inr h)
    then obtain b where b: "be_random s (be_drawn s) = Some b"
      and new: "lookup (be_data t) = (lookup (be_data s))
        (rt_key tenant \<mapsto> Some (marshal_record (with_reservation (hex_encode b) e r)))"
      using runtime_reserve_state [OF res] False r(1) by auto
    have "b \<noteq> []" using quiet b by (auto simp: runtime_quiet_def runtime_inv_def)
    then have i: "hex_encode b \<noteq> []" by (cases b) simp_all
    note w = with_reservation_props [OF rt_record_good [OF r(1)] st(1) i]
    have "rt_ids (with_reservation (hex_encode b) e r) = insert (hex_encode b) (rt_ids r)"
      using w(5) by (auto simp: rt_ids_def split: if_splits)
    then have "fresh_ids (rt_ids (with_reservation (hex_encode b) e r)) t"
      using fresh_ids_insert [OF r(2) b st(2,3)] by simp
    moreover have "rt_record lookup tenant t = Some (with_reservation (hex_encode b) e r)"
      using w(1) new by (intro rt_record_stored) simp_all
    ultimately show ?thesis using w(2) st(2) by (intro runtime_quietI [OF quiet r(1)])
  qed
qed

lemma runtime_once_quiet:
  assumes quiet: "runtime_quiet lookup tenant s" and run: "once h (\<lambda>i. runtime_update (rt_ledger tenant) c (f i)) s = (err, t)"
    and f: "\<And>i old v. f i old = Inr v \<Longrightarrow> \<exists>w r r'. old = Some w \<and> decode_runtime_quota_record w = Inr r
        \<and> v = Some (marshal_record r') \<and> settled_record i a r r'"
  shows "runtime_quiet lookup tenant t"
proof -
  note st = runtime_terminal_state [OF run f]
  obtain r where r: "rt_record lookup tenant s = Some r" "fresh_ids (rt_ids r) s"
    using quiet by (auto simp: runtime_quiet_def)
  have "\<exists>r'. rt_record lookup tenant t = Some r' \<and> rt_limit r' = rt_limit r \<and> rt_ids r' \<subseteq> rt_ids r"
  proof (cases err)
    case (Some e)
    then show ?thesis using st same_record [of t s tenant] r(1) by auto
  next
    case None
    then consider "t = s" | r' where "rt_record lookup tenant t = Some r'" "settled_record (ro_id (be_objs s ! h)) a r r'"
      using st r(1) by auto
    then show ?thesis
    proof cases
      case 2
      then have "rt_ids r' \<subseteq> rt_ids r" by (auto simp: settled_record_def rt_ids_def split: if_split_asm)
      then show ?thesis using 2 by (auto simp: settled_record_def)
    qed (use r(1) in auto)
  qed
  then obtain r' where r': "rt_record lookup tenant t = Some r'" "rt_limit r' = rt_limit r" "rt_ids r' \<subseteq> rt_ids r" by blast
  have rand: "be_random t = be_random s" "be_drawn t = be_drawn s" using st by simp_all
  then have "fresh_ids (rt_ids r') t" using fresh_ids_subset [OF r(2) r'(3), of t] by simp
  then show ?thesis using r' rand by (intro runtime_quietI [OF quiet r(1)])
qed

lemma runtime_terminal_quiet:
  assumes quiet: "runtime_quiet lookup tenant s"
    and "runtime_commit (rt_ledger tenant) h c a s = (err, t) \<or> runtime_release (rt_ledger tenant) h c s = (err, t)"
  shows "runtime_quiet lookup tenant t"
proof (cases "ctx_check c")
  case None
  note once = runtime_once_quiet [OF quiet, where h = h and c = c and err = err and t = t]
  show ?thesis
    using assms(2)
  proof
    assume "runtime_commit (rt_ledger tenant) h c a s = (err, t)"
    then have "once h (\<lambda>i. runtime_update (rt_ledger tenant) c (commit_callback i (clamp0 a))) s = (err, t)"
      using None by (simp add: runtime_commit_def)
    then show ?thesis by (rule once) (rule commit_callback_ok [OF _ clamp0_nonneg])
  next
    assume "runtime_release (rt_ledger tenant) h c s = (err, t)"
    then have "once h (\<lambda>i. runtime_update (rt_ledger tenant) c (release_callback i)) s = (err, t)"
      using None by (simp add: runtime_release_def)
    then show ?thesis by (rule once) (rule release_callback_ok)
  qed
qed (use assms in \<open>auto simp: runtime_commit_def runtime_release_def\<close>)

end

text \<open>The result of the terminal calls.\<close>

context prompt_kv
begin

lemma runtime_terminal_prompt:
  assumes quiet: "runtime_quiet lookup tenant s" and held: "runtime_held lookup tenant s h = Some x"
  shows "runtime_used lookup tenant s - x + max 0 (sint a) \<le> max_int64 \<Longrightarrow>
      \<exists>t. runtime_commit (rt_ledger tenant) h background a s = (None, t)
        \<and> runtime_used lookup tenant t = runtime_used lookup tenant s - x + max 0 (sint a)"
    and "\<exists>t. runtime_release (rt_ledger tenant) h background s = (None, t)
        \<and> runtime_used lookup tenant t = runtime_used lookup tenant s - x"
proof -
  have tenant: "trim_space tenant \<noteq> []" and inv: "runtime_inv s" using quiet by (simp_all add: runtime_quiet_def)
  let ?i = "ro_id (be_objs s ! h)"
  obtain r where r: "rt_record lookup tenant s = Some r" and h: "\<not> ro_done (be_objs s ! h)" "amount_of ?i r = Some x"
    using held by (auto simp: runtime_held_def split: if_splits option.splits)
  obtain v where v: "lookup (be_data s) (rt_key tenant) = Some v" "decode_runtime_quota_record v = Inr r"
    by (rule rt_record_stored_value [OF r])
  have once: "\<exists>t. once h (\<lambda>i. runtime_update (rt_ledger tenant) background (f i)) s = (None, t)"
    if ok: "f ?i (Some v) = Inr w" for f w
  proof -
    obtain res u where u: "runtime_update (rt_ledger tenant) background (f ?i) s = (res, u)" by fastforce
    then have "res = Inr ()" using runtime_update_prompt [OF tenant u] ok v(1) by simp
    then show ?thesis using u h(1) by (simp add: once_def Let_def)
  qed
  show "\<exists>t. runtime_commit (rt_ledger tenant) h background a s = (None, t)
        \<and> runtime_used lookup tenant t = runtime_used lookup tenant s - x + max 0 (sint a)"
    if cap: "runtime_used lookup tenant s - x + max 0 (sint a) \<le> max_int64"
  proof -
    have "micros (rq_spent r) + sint (clamp0 a) \<le> max_int64"
      using amount_le_used(1) [OF rt_record_good [OF r] h(2)] cap r by (simp add: runtime_used_def sint_clamp0)
    then obtain w where "commit_callback ?i (clamp0 a) (Some v) = Inr w"
      using commit_callback_result [OF v(2) clamp0_nonneg, of ?i a] h(2) by auto
    from once [of "\<lambda>i. commit_callback i (clamp0 a)", OF this]
    obtain t where t: "runtime_commit (rt_ledger tenant) h background a s = (None, t)"
      by (auto simp: runtime_commit_def)
    then show ?thesis using runtime_commit_good [OF inv t] held by simp
  qed
  obtain w where "release_callback ?i (Some v) = Inr w"
    using release_callback_result [OF v(2), of ?i] h(2) by auto
  from once [of release_callback, OF this]
  obtain t where t: "runtime_release (rt_ledger tenant) h background s = (None, t)"
    by (auto simp: runtime_release_def)
  then show "\<exists>t. runtime_release (rt_ledger tenant) h background s = (None, t)
        \<and> runtime_used lookup tenant t = runtime_used lookup tenant s - x"
    using runtime_release_good [OF inv t] held by simp
qed

lemma runtime_reserve_exact:
  assumes quiet: "runtime_quiet lookup tenant s" and "0 \<le> sint e" and "sint e \<le> sint MaxEstimate"
    and "runtime_used lookup tenant s + sint e \<le> max_int64"
  shows "runtime_limit lookup tenant s < runtime_used lookup tenant s + sint e \<Longrightarrow>
      \<exists>x t. runtime_reserve (rt_ledger tenant) background e s = (Inl x, t) \<and> errors_is x ErrBudgetExceeded
        \<and> runtime_used lookup tenant t = runtime_used lookup tenant s"
    and "runtime_used lookup tenant s + sint e \<le> runtime_limit lookup tenant s \<Longrightarrow>
      \<exists>h t. runtime_reserve (rt_ledger tenant) background e s = (Inr h, t)
        \<and> runtime_used lookup tenant t = runtime_used lookup tenant s + sint e"
proof -
  obtain r where r: "rt_record lookup tenant s = Some r" using quiet by (auto simp: runtime_quiet_def)
  have inv: "runtime_inv s" using quiet by (simp add: runtime_quiet_def)
  have acc: "runtime_used lookup tenant s = rt_used r" "runtime_limit lookup tenant s = rt_limit r"
    using r by (simp_all add: runtime_used_def runtime_limit_def)
  note run = runtime_reserve_prompt [OF quiet assms(2,3) r]
  show "\<exists>x t. runtime_reserve (rt_ledger tenant) background e s = (Inl x, t) \<and> errors_is x ErrBudgetExceeded
        \<and> runtime_used lookup tenant t = runtime_used lookup tenant s"
    if "runtime_limit lookup tenant s < runtime_used lookup tenant s + sint e"
    using run that assms(4) acc runtime_reserve_good [OF inv] by fastforce
  show "\<exists>h t. runtime_reserve (rt_ledger tenant) background e s = (Inr h, t)
        \<and> runtime_used lookup tenant t = runtime_used lookup tenant s + sint e"
    if fits: "runtime_used lookup tenant s + sint e \<le> runtime_limit lookup tenant s"
  proof -
    obtain b t where t: "runtime_reserve (rt_ledger tenant) background e s = (Inr (length (be_objs s)), t)"
      and b: "be_random s (be_drawn s) = Some b" "amount_of (hex_encode b) r = None"
      using run fits assms(4) acc by fastforce
    have ne: "length (be_objs t) \<noteq> length (be_objs s)" using runtime_reserve_state [OF t] by auto
    then have new: "lookup (be_data t) = (lookup (be_data s))
        (rt_key tenant \<mapsto> Some (marshal_record (with_reservation (hex_encode b) e r)))"
      using runtime_reserve_state [OF t] r b by auto
    have "b \<noteq> []" using inv b by (auto simp: runtime_inv_def)
    then have i: "hex_encode b \<noteq> []" by (cases b) simp_all
    note w = with_reservation_props [OF rt_record_good [OF r] assms(2) i]
    have "rt_record lookup tenant t = Some (with_reservation (hex_encode b) e r)"
      using w(1) new by (intro rt_record_stored) simp_all
    then show ?thesis using t w(4) b acc by (auto simp: runtime_used_def)
  qed
qed

end

sublocale prompt_kv \<subseteq> runtime_prompt: prompt_reserver "runtime_reserver (rt_ledger tenant)" "runtime_quiet lookup tenant"
  "runtime_used lookup tenant" "runtime_limit lookup tenant" "runtime_held lookup tenant"
  "\<lambda>s. obj_finished (be_objs s)" max_int64 for tenant
proof (unfold_locales, goal_cases)
  case (1 s c e h s')
  then show ?case
    using runtime.reserve_ok [of s tenant c e h s'] runtime_reserve_quiet [of tenant s c e "Inr h" s']
    by (simp add: runtime_quiet_def)
next
  case (2 s c e x s')
  then show ?case
    using runtime.reserve_err [of s tenant c e x s'] runtime_reserve_quiet [of tenant s c e "Inl x" s']
    by (simp add: runtime_quiet_def)
next
  case (3 s h r c a s')
  then show ?case
    using runtime.commit_ok [of s tenant h r c a s'] runtime_terminal_quiet [of tenant s h c a None s']
    by (simp add: runtime_quiet_def)
next
  case (4 s h c a x s')
  then show ?case
    using runtime.commit_err [of s tenant h c a x s'] runtime_terminal_quiet [of tenant s h c a "Some x" s']
    by (simp add: runtime_quiet_def)
next
  case (5 s h r c s')
  then show ?case
    using runtime.release_ok [of s tenant h r c s'] runtime_terminal_quiet [of tenant s h c 0 None s']
    by (simp add: runtime_quiet_def)
next
  case (6 s h c x s')
  then show ?case
    using runtime.release_err [of s tenant h c x s'] runtime_terminal_quiet [of tenant s h c 0 "Some x" s']
    by (simp add: runtime_quiet_def)
next
  case (7 s h a)
  then show ?case by (rule runtime.finished_commit)
next
  case (8 s h)
  then show ?case by (rule runtime.finished_release)
next
  case (9 s c e res s')
  then show ?case using runtime.limit_fixed(1) [of s tenant c e res s'] by (simp add: runtime_quiet_def)
next
  case (10 s h c a err s')
  then show ?case using runtime.limit_fixed(2) [of s tenant h c a err s'] by (simp add: runtime_quiet_def)
next
  case (11 s h c err s')
  then show ?case using runtime.limit_fixed(3) [of s tenant h c err s'] by (simp add: runtime_quiet_def)
next
  case (12 s c ev err s' h)
  then show ?case by (simp add: runtime_record_event_def)
next
  case (13 s e)
  then show ?case using runtime_reserve_exact(2) [of tenant s e] by simp
next
  case (14 s e)
  then show ?case using runtime_reserve_exact(1) [of tenant s e] by simp
next
  case (15 s h r a)
  then show ?case using runtime_terminal_prompt(1) [of tenant s h r a] by simp
next
  case (16 s h r)
  then show ?case using runtime_terminal_prompt(2) [of tenant s h r] by simp
qed

end
