(* ===== verification/RuntimeCalls.thy ===== *)
theory RuntimeCalls
  imports RuntimeQuiet
begin

text \<open>
  Sequences of calls on the runtime budget of a tenant (\<open>nexssflow/storage_backend.go\<close>), with
  the administrator's \<open>SetRuntimeBudget\<close> among them: what every call does to the usage, the
  budget and the reservations, on any store that keeps its laws; and two such stores.
\<close>

section \<open>Two stores\<close>

text \<open>A store in memory, and one whose calls fail as its list of outcomes says.\<close>

definition mem_update :: "(string \<Rightarrow> stored option) kv_update" where
  "mem_update c key f k = (case f (k key) of Inl e \<Rightarrow> (Some e, k) | Inr v \<Rightarrow> (None, k(key \<mapsto> v)))"

fun flaky_update :: "((string \<Rightarrow> stored option) \<times> bool list) kv_update" where
  "flaky_update c key f (k, True # outs) = (Some (External ''storage''), (k, outs))"
| "flaky_update c key f (k, outs) = (case mem_update c key f k of (err, k) \<Rightarrow> (err, (k, tl outs)))"

interpretation mem: prompt_kv mem_update "\<lambda>k. k"
  by unfold_locales (auto simp: mem_update_def split: sum.splits)

interpretation flaky: atomic_kv flaky_update fst
proof (unfold_locales, goal_cases)
  case (1 c key f k k')
  then show ?case
    by (cases "(c, key, f, k)" rule: flaky_update.cases) (auto simp: mem_update_def split: sum.splits)
next
  case (2 c key f k e k')
  then show ?case
    by (cases "(c, key, f, k)" rule: flaky_update.cases) (auto simp: mem_update_def split: sum.splits)
qed

section \<open>Calls on the budget of a tenant\<close>

datatype runtime_call =
    RtReserve gctx i64
  | RtCommit nat gctx i64
  | RtRelease nat gctx
  | RtBudget gctx i64

fun runtime_step :: "'k kv_update \<Rightarrow> string \<Rightarrow> runtime_call \<Rightarrow> 'k backend \<Rightarrow> 'k backend" where
  "runtime_step update tenant (RtReserve c e) s = snd (runtime_reserve \<lparr>rt_kv = Some update, rt_tenant = tenant\<rparr> c e s)"
| "runtime_step update tenant (RtCommit h c a) s = snd (runtime_commit \<lparr>rt_kv = Some update, rt_tenant = tenant\<rparr> h c a s)"
| "runtime_step update tenant (RtRelease h c) s = snd (runtime_release \<lparr>rt_kv = Some update, rt_tenant = tenant\<rparr> h c s)"
| "runtime_step update tenant (RtBudget c limit) s = s\<lparr>be_data := snd (set_runtime_budget (Some update) c tenant limit (be_data s))\<rparr>"

definition runtime_run :: "'k kv_update \<Rightarrow> string \<Rightarrow> runtime_call list \<Rightarrow> 'k backend \<Rightarrow> 'k backend" where
  "runtime_run update tenant = fold (runtime_step update tenant)"

lemma runtime_run_simps [simp]:
  "runtime_run update tenant [] s = s"
  "runtime_run update tenant (x # xs) s = runtime_run update tenant xs (runtime_step update tenant x s)"
  by (simp_all add: runtime_run_def)

text \<open>No commit is larger than its reservation, and no budget is larger than \<open>K\<close>.\<close>

fun within :: "('k \<Rightarrow> string \<Rightarrow> stored option) \<Rightarrow> string \<Rightarrow> int \<Rightarrow> runtime_call \<Rightarrow> 'k backend \<Rightarrow> bool" where
  "within lookup tenant K (RtReserve c e) s = True"
| "within lookup tenant K (RtCommit h c a) s \<longleftrightarrow> h < length (be_objs s)
     \<and> (case runtime_held lookup tenant s h of None \<Rightarrow> True | Some x \<Rightarrow> sint a \<le> x)"
| "within lookup tenant K (RtRelease h c) s \<longleftrightarrow> h < length (be_objs s)"
| "within lookup tenant K (RtBudget c limit) s \<longleftrightarrow> sint limit \<le> K"

fun all_within :: "'k kv_update \<Rightarrow> ('k \<Rightarrow> string \<Rightarrow> stored option) \<Rightarrow> string \<Rightarrow> int \<Rightarrow> runtime_call list \<Rightarrow> 'k backend \<Rightarrow> bool" where
  "all_within update lookup tenant K [] s = True"
| "all_within update lookup tenant K (x # xs) s \<longleftrightarrow>
     within lookup tenant K x s \<and> all_within update lookup tenant K xs (runtime_step update tenant x s)"

text \<open>The identifier of a reservation is in no other object.\<close>

definition sole_owner :: "nat \<Rightarrow> 'k backend \<Rightarrow> bool" where
  "sole_owner h s \<longleftrightarrow> h < length (be_objs s)
     \<and> (\<forall>j<length (be_objs s). j \<noteq> h \<longrightarrow> ro_id (be_objs s ! j) \<noteq> ro_id (be_objs s ! h))"

text \<open>A terminal call on the reservation \<open>h\<close>, or on none that there is.\<close>

fun touches :: "nat \<Rightarrow> runtime_call \<Rightarrow> 'k backend \<Rightarrow> bool" where
  "touches h (RtCommit j c a) s \<longleftrightarrow> j = h \<or> j \<ge> length (be_objs s)"
| "touches h (RtRelease j c) s \<longleftrightarrow> j = h \<or> j \<ge> length (be_objs s)"
| "touches h _ s = False"

fun none_touches :: "'k kv_update \<Rightarrow> string \<Rightarrow> nat \<Rightarrow> runtime_call list \<Rightarrow> 'k backend \<Rightarrow> bool" where
  "none_touches update tenant h [] s = True"
| "none_touches update tenant h (x # xs) s \<longleftrightarrow>
     \<not> touches h x s \<and> none_touches update tenant h xs (runtime_step update tenant x s)"

lemma held_nonneg: "runtime_held lookup tenant s h = Some x \<Longrightarrow> 0 \<le> x"
  using amount_le_used(2) [OF rt_record_good] by (auto simp: runtime_held_def split: if_splits option.splits)

context atomic_kv
begin

lemma runtime_contract:
  "reserver_contract (runtime_reserver (rt_ledger tenant)) runtime_inv (runtime_used lookup tenant)
     (runtime_limit lookup tenant) (runtime_held lookup tenant) (\<lambda>s. obj_finished (be_objs s)) max_int64"
  by (rule runtime.reserver_contract_axioms)

text \<open>A call on a reservation that holds nothing changes no account.\<close>

lemma runtime_unheld:
  assumes "runtime_held lookup tenant s h = None" and "h < length (be_objs s)"
    and "once h (\<lambda>i. runtime_update (rt_ledger tenant) c (f i)) s = (None, t)"
    and "\<And>i old v. f i old = Inr v \<Longrightarrow> \<exists>w r r'. old = Some w \<and> decode_runtime_quota_record w = Inr r
        \<and> v = Some (marshal_record r') \<and> settled_record i a r r'"
  shows "t = s"
  using runtime_terminal_state [OF assms(3,4)] assms(1,2)
  by (auto simp: runtime_held_def settled_record_def)

lemma runtime_terminal_within:
  assumes "runtime_inv s" and "h < length (be_objs s)"
  shows "runtime_commit (rt_ledger tenant) h c a s = (err, t) \<Longrightarrow>
      (case runtime_held lookup tenant s h of None \<Rightarrow> True | Some x \<Rightarrow> sint a \<le> x) \<Longrightarrow>
      runtime_used lookup tenant t \<le> runtime_used lookup tenant s"
    and "runtime_release (rt_ledger tenant) h c s = (err, t) \<Longrightarrow>
      runtime_used lookup tenant t \<le> runtime_used lookup tenant s"
proof -
  show "runtime_used lookup tenant t \<le> runtime_used lookup tenant s"
    if "runtime_commit (rt_ledger tenant) h c a s = (err, t)"
      "case runtime_held lookup tenant s h of None \<Rightarrow> True | Some x \<Rightarrow> sint a \<le> x"
  proof (cases "runtime_held lookup tenant s h")
    case (Some x)
    then show ?thesis
      using runtime_commit_good [OF assms(1) that(1)] that(2) held_nonneg [OF Some] by (cases err) auto
  next
    case None
    have "t = s" if "err = None"
      using that \<open>runtime_commit (rt_ledger tenant) h c a s = (err, t)\<close> runtime_unheld [OF None assms(2) _ commit_callback_ok [OF _ clamp0_nonneg]]
      by (auto simp: runtime_commit_def split: option.splits)
    then show ?thesis using runtime_commit_good [OF assms(1) that(1)] by (cases err) auto
  qed
  show "runtime_used lookup tenant t \<le> runtime_used lookup tenant s"
    if rel: "runtime_release (rt_ledger tenant) h c s = (err, t)"
  proof (cases "runtime_held lookup tenant s h")
    case (Some x)
    then show ?thesis
      using runtime_release_good [OF assms(1) rel] held_nonneg [OF Some] by (cases err) auto
  next
    case None
    have "t = s" if "err = None"
      using that rel runtime_unheld [OF None assms(2) _ release_callback_ok]
      by (auto simp: runtime_release_def split: option.splits)
    then show ?thesis using runtime_release_good [OF assms(1) rel] by (cases err) auto
  qed
qed

text \<open>A new budget keeps the usage and what the reservations hold.\<close>

lemma set_budget_record:
  assumes "set_runtime_budget (Some update) c tenant limit (be_data s) = (None, k)"
  obtains r' v where "rt_record lookup tenant (s\<lparr>be_data := k\<rparr>) = Some r'" and "0 \<le> sint limit"
    and "rt_limit r' = sint limit" and "rt_used r' = runtime_used lookup tenant s"
    and "\<And>j. amount_of j r' = (case rt_record lookup tenant s of None \<Rightarrow> None | Some r \<Rightarrow> amount_of j r)"
    and "lookup k = (lookup (be_data s))(rt_key tenant \<mapsto> v)"
proof -
  have limit: "0 \<le> sint limit" and call: "update c (rt_key tenant) (budget_callback limit) (be_data s) = (None, k)"
    using assms
    by (auto simp: set_runtime_budget_def rt_key_def i64_simps split: if_splits sum.splits prod.splits option.splits)
  from update_ok [OF call] obtain v
    where v: "budget_callback limit (lookup (be_data s) (rt_key tenant)) = Inr v" "lookup k = (lookup (be_data s))(rt_key tenant \<mapsto> v)"
    by blast
  let ?t = "s\<lparr>be_data := k\<rparr>"
  have stored: "rt_record lookup tenant ?t = Some r'" if "good_record r'" "v = Some (marshal_record r')" for r'
    using that v(2) by (intro rt_record_stored) simp_all
  show ?thesis
  proof (cases "lookup (be_data s) (rt_key tenant)")
    case None
    let ?r = "new_runtime_quota_record\<lparr>rq_budget := format_int limit\<rparr>"
    have "format_int (0 :: i64) = ''0''" by (simp add: format_int_def) code_simp
    then have zero: "valid_micros ''0''" "micros ''0'' = 0" using micros_format [of 0] by simp_all
    then have "good_record ?r" by (simp add: good_record_def new_runtime_quota_record_def)
    moreover have "v = Some (marshal_record ?r)" using v(1) None by (simp add: budget_callback_def)
    ultimately have "rt_record lookup tenant ?t = Some ?r" by (rule stored)
    then show ?thesis
      by (rule that [OF _ limit _ _ _ v(2)])
        (use None limit zero in \<open>simp_all add: rt_limit_def rt_used_def runtime_used_def rt_record_def amount_of_def
          reservations_of_def sum_micros_def new_runtime_quota_record_def\<close>)
  next
    case (Some w)
    then obtain r where r: "decode_runtime_quota_record w = Inr r"
      using v(1) by (auto simp: budget_callback_def split: sum.splits)
    then have s: "rt_record lookup tenant s = Some r" using Some by (simp add: rt_record_def)
    obtain r' where r': "budget_callback limit (Some w) = Inr (Some (marshal_record r'))" "good_record r'"
      "rt_limit r' = sint limit" "rt_used r' = rt_used r" "\<forall>j. amount_of j r' = amount_of j r"
      using budget_callback_result [OF r limit] by blast
    have "v = Some (marshal_record r')" using v(1) r'(1) Some by simp
    then show ?thesis
      by (intro that [OF stored [OF r'(2)] limit r'(3) _ _ v(2)]) (use r' s in \<open>simp_all add: runtime_used_def\<close>)
  qed
qed

lemma set_budget_state:
  assumes "set_runtime_budget (Some update) c tenant limit (be_data s) = (err, k)"
  shows "case err of
      Some e \<Rightarrow> lookup k = lookup (be_data s)
    | None \<Rightarrow> 0 \<le> sint limit \<and> runtime_limit lookup tenant (s\<lparr>be_data := k\<rparr>) = sint limit
        \<and> runtime_used lookup tenant (s\<lparr>be_data := k\<rparr>) = runtime_used lookup tenant s
        \<and> (\<forall>h. runtime_held lookup tenant (s\<lparr>be_data := k\<rparr>) h = runtime_held lookup tenant s h)
        \<and> (\<forall>key. key \<noteq> rt_key tenant \<longrightarrow> lookup k key = lookup (be_data s) key)"
proof (cases err)
  case (Some e)
  then show ?thesis
    using assms update_error by (auto simp: set_runtime_budget_def split: if_splits sum.splits prod.splits option.splits)
next
  case None
  then obtain r' v where r': "rt_record lookup tenant (s\<lparr>be_data := k\<rparr>) = Some r'" "0 \<le> sint limit"
    "rt_limit r' = sint limit" "rt_used r' = runtime_used lookup tenant s"
    "\<And>j. amount_of j r' = (case rt_record lookup tenant s of None \<Rightarrow> None | Some r \<Rightarrow> amount_of j r)"
    "lookup k = (lookup (be_data s))(rt_key tenant \<mapsto> v)"
    using set_budget_record [of c tenant limit s k] assms by metis
  then have "runtime_held lookup tenant (s\<lparr>be_data := k\<rparr>) h = runtime_held lookup tenant s h" for h
    by (simp add: runtime_held_def)
  then show ?thesis
    using None r' by (simp add: runtime_limit_def) (simp add: runtime_used_def)
qed

lemma runtime_step_good:
  assumes "runtime_inv s" and "runtime_used lookup tenant s \<le> K" and "runtime_limit lookup tenant s \<le> K"
    and "within lookup tenant K x s"
  shows "runtime_inv (runtime_step update tenant x s) \<and> runtime_used lookup tenant (runtime_step update tenant x s) \<le> K
    \<and> runtime_limit lookup tenant (runtime_step update tenant x s) \<le> K"
proof (cases x)
  case (RtReserve c e)
  obtain res t where t: "runtime_reserve (rt_ledger tenant) c e s = (res, t)" by fastforce
  then show ?thesis
    using runtime_reserve_good [OF assms(1) t] assms(2,3) RtReserve by (cases res) auto
next
  case (RtCommit h c a)
  obtain err t where t: "runtime_commit (rt_ledger tenant) h c a s = (err, t)" by fastforce
  then show ?thesis
    using runtime_commit_good [OF assms(1) t] runtime_terminal_within(1) [OF assms(1) _ t] assms(2-4) RtCommit by simp
next
  case (RtRelease h c)
  obtain err t where t: "runtime_release (rt_ledger tenant) h c s = (err, t)" by fastforce
  then show ?thesis
    using runtime_release_good [OF assms(1) t] runtime_terminal_within(2) [OF assms(1) _ t] assms(2-4) RtRelease by simp
next
  case (RtBudget c limit)
  obtain err k where k: "set_runtime_budget (Some update) c tenant limit (be_data s) = (err, k)" by fastforce
  have "runtime_inv (s\<lparr>be_data := k\<rparr>)" using assms(1) by (simp add: runtime_inv_def)
  moreover have "rt_record lookup tenant (s\<lparr>be_data := k\<rparr>) = rt_record lookup tenant s" if "lookup k = lookup (be_data s)"
    using that same_record [of "s\<lparr>be_data := k\<rparr>" s tenant] by simp
  ultimately show ?thesis
    using set_budget_state [OF k] assms(2-4) RtBudget k
    by (cases err) (simp_all add: runtime_used_def runtime_limit_def)
qed

lemma runtime_run_good:
  assumes "runtime_inv s" and "runtime_used lookup tenant s \<le> K" and "runtime_limit lookup tenant s \<le> K"
    and "all_within update lookup tenant K xs s"
  shows "runtime_used lookup tenant (runtime_run update tenant xs s) \<le> K"
  using assms
proof (induction xs arbitrary: s)
  case (Cons x xs)
  then show ?case using runtime_step_good [OF Cons.prems(1-3), of x] by simp
qed simp

lemma same_held:
  "be_objs t = be_objs s \<Longrightarrow> lookup (be_data t) = lookup (be_data s) \<Longrightarrow>
     runtime_held lookup tenant t h = runtime_held lookup tenant s h"
  using same_record [of t s tenant] by (simp add: runtime_held_def split: option.split)

text \<open>Reserving, settling another reservation and a new budget leave a reservation as it is.\<close>

lemma hold_persists_reserve:
  assumes quiet: "runtime_quiet lookup tenant s" and own: "sole_owner h s" and held: "runtime_held lookup tenant s h = Some x"
    and res: "runtime_reserve (rt_ledger tenant) c e s = (res, t)"
  shows "sole_owner h t \<and> runtime_held lookup tenant t h = Some x"
proof (cases "be_objs t = be_objs s")
  case True
  then have "lookup (be_data t) = lookup (be_data s)"
    using runtime_reserve_state [OF res] by (auto split: sum.splits)
  then show ?thesis
    using True own held same_held [of t s tenant h] by (simp add: sole_owner_def)
next
  case False
  then obtain b r where e: "0 \<le> sint e" and b: "be_random s (be_drawn s) = Some b" and r: "rt_record lookup tenant s = Some r"
    and objs: "be_objs t = be_objs s @ [\<lparr>ro_id = hex_encode b, ro_done = False\<rparr>]"
    and new: "lookup (be_data t) = (lookup (be_data s))
        (rt_key tenant \<mapsto> Some (marshal_record (with_reservation (hex_encode b) e r)))"
    using runtime_reserve_state [OF res] by (auto split: sum.splits)
  have "b \<noteq> []" using quiet b by (auto simp: runtime_quiet_def runtime_inv_def)
  then have i: "hex_encode b \<noteq> []" by (cases b) simp_all
  note w = with_reservation_props [OF rt_record_good [OF r] e i]
  have rt: "rt_record lookup tenant t = Some (with_reservation (hex_encode b) e r)"
    using w(1) new by (intro rt_record_stored) simp_all
  have h: "h < length (be_objs s)" "\<not> ro_done (be_objs s ! h)" "amount_of (ro_id (be_objs s ! h)) r = Some x"
    using held r by (auto simp: runtime_held_def split: if_splits)
  have "hex_encode b \<notin> rt_ids r" using quiet r b by (auto simp: runtime_quiet_def dest!: fresh_idsD)
  then have "ro_id (be_objs s ! h) \<noteq> hex_encode b" using h(3) by (auto simp: rt_ids_def)
  then show ?thesis
    using own h rt w(5) objs by (auto simp: sole_owner_def runtime_held_def nth_append)
qed

lemma hold_persists_terminal:
  assumes "sole_owner h s" and "runtime_held lookup tenant s h = Some x" and "j \<noteq> h" and "j < length (be_objs s)"
    and "once j (\<lambda>i. runtime_update (rt_ledger tenant) c (f i)) s = (err, t)"
    and f: "\<And>i old v. f i old = Inr v \<Longrightarrow> \<exists>w r r'. old = Some w \<and> decode_runtime_quota_record w = Inr r
        \<and> v = Some (marshal_record r') \<and> settled_record i a r r'"
  shows "sole_owner h t \<and> runtime_held lookup tenant t h = Some x"
proof -
  note st = runtime_terminal_state [OF assms(5) f]
  have "t = s \<or> (lookup (be_data t) = lookup (be_data s) \<and> be_objs t = be_objs s)
    \<or> (\<exists>r r'. rt_record lookup tenant s = Some r \<and> rt_record lookup tenant t = Some r'
              \<and> settled_record (ro_id (be_objs s ! j)) a r r'
              \<and> be_objs t = (be_objs s)[j := (be_objs s ! j)\<lparr>ro_done := True\<rparr>])"
    using st by (cases err) auto
  then show ?thesis
  proof (elim disjE exE conjE)
    fix r r'
    assume r: "rt_record lookup tenant s = Some r" "rt_record lookup tenant t = Some r'"
      "settled_record (ro_id (be_objs s ! j)) a r r'"
      and objs: "be_objs t = (be_objs s)[j := (be_objs s ! j)\<lparr>ro_done := True\<rparr>]"
    have "amount_of (ro_id (be_objs s ! h)) r' = amount_of (ro_id (be_objs s ! h)) r"
      using r(3) assms(1,3,4) by (auto simp: settled_record_def sole_owner_def)
    then show ?thesis
      using assms(1-4) r objs by (auto simp: sole_owner_def runtime_held_def nth_list_update split: if_splits)
  qed (use assms(1,2) same_held [of t s tenant h] in \<open>simp_all add: sole_owner_def\<close>)
qed

lemma set_budget_quiet:
  assumes "runtime_quiet lookup tenant s" and "set_runtime_budget (Some update) c tenant limit (be_data s) = (err, k)"
  shows "runtime_quiet lookup tenant (s\<lparr>be_data := k\<rparr>)"
proof -
  obtain r where r: "rt_record lookup tenant s = Some r" "0 \<le> rt_limit r" "fresh_ids (rt_ids r) s"
    and inv: "runtime_inv s" "trim_space tenant \<noteq> []"
    using assms(1) by (auto simp: runtime_quiet_def)
  obtain r' where r': "rt_record lookup tenant (s\<lparr>be_data := k\<rparr>) = Some r'" "0 \<le> rt_limit r'" "rt_ids r' = rt_ids r"
  proof (cases err)
    case (Some e)
    then show ?thesis
      using that set_budget_state [OF assms(2)] same_record [of "s\<lparr>be_data := k\<rparr>" s tenant] r(1,2) by auto
  next
    case None
    obtain r' where "rt_record lookup tenant (s\<lparr>be_data := k\<rparr>) = Some r'" "0 \<le> rt_limit r'"
      "\<And>j. amount_of j r' = amount_of j r"
      by (rule set_budget_record [OF assms(2) [unfolded None]]) (use r(1) in simp)
    then show ?thesis by (intro that [of r']) (simp_all add: rt_ids_def)
  qed
  have "fresh_ids (rt_ids r') (s\<lparr>be_data := k\<rparr>)" using r(3) r'(3) by (simp add: fresh_ids_def)
  then show ?thesis using inv r' by (auto simp: runtime_quiet_def runtime_inv_def)
qed

lemma hold_persists_step:
  assumes "runtime_quiet lookup tenant s" and "sole_owner h s" and "runtime_held lookup tenant s h = Some x"
    and "\<not> touches h call s"
  defines "t \<equiv> runtime_step update tenant call s"
  shows "runtime_quiet lookup tenant t \<and> sole_owner h t \<and> runtime_held lookup tenant t h = Some x"
proof (cases call)
  case (RtReserve c e)
  obtain res u where "runtime_reserve (rt_ledger tenant) c e s = (res, u)" by fastforce
  then show ?thesis
    using runtime_reserve_quiet [OF assms(1)] hold_persists_reserve [OF assms(1-3)] RtReserve by (auto simp: t_def)
next
  case (RtCommit j c a)
  obtain err u where u: "runtime_commit (rt_ledger tenant) j c a s = (err, u)" by fastforce
  have "sole_owner h u \<and> runtime_held lookup tenant u h = Some x"
  proof (cases "ctx_check c")
    case None
    then have "once j (\<lambda>i. runtime_update (rt_ledger tenant) c (commit_callback i (clamp0 a))) s = (err, u)"
      using u by (simp add: runtime_commit_def)
    then show ?thesis
      using assms(4) RtCommit by (intro hold_persists_terminal [OF assms(2,3) _ _ _ commit_callback_ok [OF _ clamp0_nonneg]]) auto
  qed (use u assms(2,3) in \<open>simp add: runtime_commit_def\<close>)
  then show ?thesis using runtime_terminal_quiet [OF assms(1) disjI1 [OF u]] u RtCommit by (auto simp: t_def)
next
  case (RtRelease j c)
  obtain err u where u: "runtime_release (rt_ledger tenant) j c s = (err, u)" by fastforce
  have "sole_owner h u \<and> runtime_held lookup tenant u h = Some x"
  proof (cases "ctx_check c")
    case None
    then have "once j (\<lambda>i. runtime_update (rt_ledger tenant) c (release_callback i)) s = (err, u)"
      using u by (simp add: runtime_release_def)
    then show ?thesis
      using assms(4) RtRelease by (intro hold_persists_terminal [OF assms(2,3) _ _ _ release_callback_ok]) auto
  qed (use u assms(2,3) in \<open>simp add: runtime_release_def\<close>)
  then show ?thesis using runtime_terminal_quiet [OF assms(1) disjI2 [OF u]] u RtRelease by (auto simp: t_def)
next
  case (RtBudget c limit)
  obtain err k where k: "set_runtime_budget (Some update) c tenant limit (be_data s) = (err, k)" by fastforce
  then have "runtime_held lookup tenant (s\<lparr>be_data := k\<rparr>) h = Some x"
    using set_budget_state [OF k] same_held [of "s\<lparr>be_data := k\<rparr>" s tenant h] assms(3)
    by (cases err) simp_all
  then show ?thesis
    using set_budget_quiet [OF assms(1) k] k RtBudget assms(2) by (simp add: t_def sole_owner_def)
qed

end

end
