(* ===== verification/RuntimeSpec.thy ===== *)
theory RuntimeSpec
  imports RuntimeCalls
begin

text \<open>
  What the runtime budget promises (\<open>nexssflow/storage_backend.go\<close>): whatever the store
  does within its laws, usage stays within the budgets that were set, a new budget keeps
  the usage, reservations of a lost process stay, a missing or broken policy denies, and
  an action that fails costs nothing.
\<close>

section \<open>An example tenant\<close>

text \<open>A random source that gives no identifier twice, and a tenant with a budget of 100.\<close>

definition rt_server :: "'k \<Rightarrow> 'k backend" where
  "rt_server k = (empty_server k [])\<lparr>be_random := \<lambda>n. Some (replicate (Suc n) 0)\<rparr>"

definition acme :: "(string \<Rightarrow> stored option) backend" where
  "acme = rt_server (snd (set_runtime_budget (Some mem_update) background ''acme'' 100 Map.empty))"

lemma trim_acme [simp]: "trim_space ''acme'' = ''acme''"
  by (intro trim_space_graphic) (simp add: graphic_def less_char_def)

lemma rt_server_simps [simp]:
  "be_data (rt_server k) = k" "be_objs (rt_server k) = []" "runtime_inv (rt_server k)"
  "(rt_server k)\<lparr>be_data := k'\<rparr> = rt_server k'" "fresh_ids {} (rt_server k)"
proof -
  have "inj (\<lambda>n. Some (replicate (Suc n) 0) :: byte list option)"
    by (auto simp: inj_def dest: arg_cong [where f = length])
  then show "fresh_ids {} (rt_server k)"
    by (simp add: rt_server_def fresh_ids_def empty_server_def inj_def)
qed (simp_all add: rt_server_def empty_server_def runtime_inv_def)

lemma no_record [simp]: "rt_record (\<lambda>k. k) tenant (rt_server Map.empty) = None" "rt_record fst tenant (rt_server (Map.empty, outs)) = None"
  by (simp_all add: rt_record_def)

lemma acme_budget: "set_runtime_budget (Some mem_update) background ''acme'' 100 Map.empty = (None, be_data acme)"
  by (simp add: acme_def set_runtime_budget_def runtime_quota_key_def mem_update_def budget_callback_def i64_simps Let_def)

lemma acme_facts:
  shows "runtime_quiet (\<lambda>k. k) ''acme'' acme" and "runtime_used (\<lambda>k. k) ''acme'' acme = 0"
    and "runtime_limit (\<lambda>k. k) ''acme'' acme = 100" and "be_objs acme = []"
proof -
  have acme: "acme = rt_server (be_data acme)" "be_objs acme = []" by (simp_all add: acme_def)
  obtain r where r: "rt_record (\<lambda>k. k) ''acme'' acme = Some r" "rt_limit r = 100" "rt_used r = 0" "\<And>j. amount_of j r = None"
    by (rule mem.set_budget_record [of background "''acme''" 100 "rt_server Map.empty" "be_data acme"])
      (use acme_budget acme(1) in \<open>simp_all add: runtime_used_def\<close>)
  have "rt_ids r = {}" using r(4) by (simp add: rt_ids_def)
  then have "fresh_ids (rt_ids r) acme" by (subst acme(1)) simp
  moreover have "runtime_inv acme" by (subst acme(1)) simp
  ultimately show "runtime_quiet (\<lambda>k. k) ''acme'' acme" using r(1,2) by (simp add: runtime_quiet_def)
  show "runtime_used (\<lambda>k. k) ''acme'' acme = 0" "runtime_limit (\<lambda>k. k) ''acme'' acme = 100" "be_objs acme = []"
    using r acme(2) by (simp_all add: runtime_used_def runtime_limit_def)
qed

text \<open>A reservation of 60.\<close>

lemma acme_taken:
  obtains s where "runtime_reserve \<lparr>rt_kv = Some mem_update, rt_tenant = ''acme''\<rparr> background 60 acme = (Inr 0, s)"
    and "runtime_quiet (\<lambda>k. k) ''acme'' s" and "runtime_held (\<lambda>k. k) ''acme'' s 0 = Some 60"
    and "runtime_used (\<lambda>k. k) ''acme'' s = 60" and "runtime_limit (\<lambda>k. k) ''acme'' s = 100" and "length (be_objs s) = 1"
proof -
  obtain h s where s: "Reserve (runtime_reserver \<lparr>rt_kv = Some mem_update, rt_tenant = ''acme''\<rparr>) background 60 acme = (Inr h, s)"
    "runtime_quiet (\<lambda>k. k) ''acme'' s" "runtime_held (\<lambda>k. k) ''acme'' s h = Some 60"
    "runtime_used (\<lambda>k. k) ''acme'' s = 60" "runtime_limit (\<lambda>k. k) ''acme'' s = 100"
    by (rule mem.runtime_prompt.reserve_exact [OF acme_facts(1), of 60])
      (use acme_facts(2,3) in \<open>simp_all add: sint_MaxEstimate\<close>)
  then have "h = 0 \<and> length (be_objs s) = 1"
    using mem.runtime_reserve_state [of "''acme''" background 60 acme "Inr h" s] acme_facts(4) by auto
  then show ?thesis using that s by simp
qed

section \<open>Usage and budgets\<close>

text \<open>
  C26.  The budget.  On every store that keeps the laws of an atomic store, whatever calls
  fail, no sequence of calls whose commits stay within their reservations brings the usage
  of a tenant above \<open>K\<close>, when it starts at most there and \<open>K\<close> is at least every budget the
  administrator sets meanwhile.
\<close>

theorem runtime_limit_kept:
  assumes "atomic_kv update lookup" and "runtime_inv s" and "runtime_used lookup tenant s \<le> K"
    and "runtime_limit lookup tenant s \<le> K" and "all_within update lookup tenant K xs s"
  shows "runtime_used lookup tenant (runtime_run update tenant xs s) \<le> K"
  by (rule atomic_kv.runtime_run_good [OF assms])

text \<open>The budget is set, work is done, and the budget is lowered; the third call fails in the store.\<close>

theorem runtime_limit_kept_witness:
  "runtime_used fst ''acme'' (runtime_run flaky_update ''acme''
     [RtBudget background 100, RtReserve background 60, RtReserve background 30, RtBudget background 50, RtReserve background 30]
     (rt_server (Map.empty, [False, False, True, False]))) \<le> 100"
  by (rule runtime_limit_kept [OF flaky.atomic_kv_axioms])
    (simp_all add: runtime_used_def runtime_limit_def)

text \<open>
  C27.  A new budget.  When \<open>SetRuntimeBudget\<close> succeeds, the budget of the tenant is the new
  one, and its usage, what every open reservation holds and the records of all other
  tenants are as before; when it fails, on any store that keeps the laws, nothing has
  changed.  A negative budget is never stored.
\<close>

theorem runtime_budget_keeps_usage:
  assumes "atomic_kv update lookup" and "set_runtime_budget (Some update) c tenant limit (be_data s) = (err, k)"
  shows "case err of
      Some e \<Rightarrow> lookup k = lookup (be_data s)
    | None \<Rightarrow> 0 \<le> sint limit \<and> runtime_limit lookup tenant (s\<lparr>be_data := k\<rparr>) = sint limit
        \<and> runtime_used lookup tenant (s\<lparr>be_data := k\<rparr>) = runtime_used lookup tenant s
        \<and> (\<forall>h. runtime_held lookup tenant (s\<lparr>be_data := k\<rparr>) h = runtime_held lookup tenant s h)
        \<and> (\<forall>key. key \<noteq> rt_key tenant \<longrightarrow> lookup k key = lookup (be_data s) key)"
  by (rule atomic_kv.set_budget_state [OF assms])

text \<open>The budget is lowered to 10 while 60 are reserved.\<close>

theorem runtime_budget_keeps_usage_witness:
  "\<exists>s k. set_runtime_budget (Some mem_update) background ''acme'' 10 (be_data s) = (None, k)
     \<and> runtime_used (\<lambda>k. k) ''acme'' (s\<lparr>be_data := k\<rparr>) = 60 \<and> runtime_limit (\<lambda>k. k) ''acme'' (s\<lparr>be_data := k\<rparr>) = 10"
proof -
  obtain s where s: "runtime_quiet (\<lambda>k. k) ''acme'' s" "runtime_used (\<lambda>k. k) ''acme'' s = 60"
    using acme_taken by metis
  obtain v r where v: "be_data s (rt_key ''acme'') = Some v" "decode_runtime_quota_record v = Inr r"
    using s(1) by (auto simp: runtime_quiet_def elim: rt_record_stored_value)
  obtain k where k: "set_runtime_budget (Some mem_update) background ''acme'' 10 (be_data s) = (None, k)"
    using v by (auto simp: set_runtime_budget_def rt_key_def runtime_quota_key_def mem_update_def budget_callback_def i64_simps Let_def)
  then show ?thesis using runtime_budget_keeps_usage [OF mem.atomic_kv_axioms k] s(2) by auto
qed

text \<open>
  C28.  A reservation of a lost process.  When only \<open>h\<close> has its identifier, no reservation
  of other work, no settling of other reservations and no new budget ends it: as long as no
  terminal call is made on \<open>h\<close> itself, its amount stays in use.  Nothing expires.
\<close>

theorem runtime_hold_persists:
  assumes "atomic_kv update lookup" and "runtime_quiet lookup tenant s" and "sole_owner h s"
    and "runtime_held lookup tenant s h = Some x" and "none_touches update tenant h xs s"
  shows "runtime_held lookup tenant (runtime_run update tenant xs s) h = Some x
    \<and> x \<le> runtime_used lookup tenant (runtime_run update tenant xs s)"
  using assms(2-5)
proof (induction xs arbitrary: s)
  case Nil
  then obtain r where "rt_record lookup tenant s = Some r" "amount_of (ro_id (be_objs s ! h)) r = Some x"
    by (auto simp: runtime_held_def split: if_splits option.splits)
  then show ?case
    using Nil(3) amount_le_used(1,3) [OF rt_record_good, of lookup tenant s r] by (fastforce simp: runtime_used_def)
next
  case (Cons call xs)
  then show ?case using atomic_kv.hold_persists_step [OF assms(1) Cons.prems(1-3), of call] by simp
qed

theorem runtime_hold_persists_witness:
  "\<exists>s. runtime_held (\<lambda>k. k) ''acme'' s 0 = Some 60
     \<and> 60 \<le> runtime_used (\<lambda>k. k) ''acme'' (runtime_run mem_update ''acme''
        [RtReserve background 30, RtBudget background 10, RtReserve background 30] s)"
proof -
  obtain s where s: "runtime_quiet (\<lambda>k. k) ''acme'' s" "runtime_held (\<lambda>k. k) ''acme'' s 0 = Some 60" "length (be_objs s) = 1"
    using acme_taken by metis
  then have "sole_owner 0 s" by (simp add: sole_owner_def)
  from runtime_hold_persists [OF mem.atomic_kv_axioms s(1) this s(2), of "[RtReserve background 30, RtBudget background 10, RtReserve background 30]"]
  show ?thesis using s(2) by auto
qed

text \<open>
  C29.  The record.  Whatever value is in the store, decoding it either fails, or gives a
  record with valid amounts and distinct identifiers that reads the same when it is
  marshalled and decoded again.
\<close>

theorem runtime_record_roundtrip:
  assumes "decode_runtime_quota_record v = Inr r"
  shows "good_record r \<and> decode_runtime_quota_record (Some (marshal_record r)) = Inr r"
  using decode_good [OF assms] decode_marshal by blast

text \<open>A record without a version, with keys in upper case and an identifier given twice.\<close>

theorem runtime_record_roundtrip_witness:
  "\<exists>r. decode_runtime_quota_record (Some (JObj [(''BUDGET_MICROS'', JStr ''100''),
       (''reservations'', JObj [(''a'', JStr ''5''), (''b'', JStr ''7''), (''a'', JStr ''6'')])])) = Inr r
     \<and> decode_runtime_quota_record (Some (marshal_record r)) = Inr r
     \<and> rq_reservations r = Some [(''a'', ''6''), (''b'', ''7'')] \<and> rq_version r = 1"
proof -
  let ?v = "Some (JObj [(''BUDGET_MICROS'', JStr ''100''),
       (''reservations'', JObj [(''a'', JStr ''5''), (''b'', JStr ''7''), (''a'', JStr ''6'')])])"
  let ?r = "\<lparr>rq_version = 1, rq_budget = ''100'', rq_spent = ''0'', rq_reservations = Some [(''a'', ''6''), (''b'', ''7'')]\<rparr>"
  have "fold_name ''BUDGET_MICROS'' = ''budget_micros''" by code_simp
  moreover have "digit_char 0 = CHR ''0''" "digit_char 6 = CHR ''6''" "digit_char 7 = CHR ''7''" by code_simp+
  then have "valid_micros ''0''" "valid_micros ''6''" "valid_micros ''7''"
    using micros_format(2) [of 0] micros_format(2) [of 6] micros_format(2) [of 7]
    by (simp_all add: format_int_def nat_digits.simps i64_simps)
  ultimately have "decode_runtime_quota_record ?v = Inr ?r"
    by (simp add: decode_runtime_quota_record_def unmarshal_field_def zero_record_def parse_micros_cases Let_def)
  with runtime_record_roundtrip [OF this] show ?thesis by auto
qed

section \<open>The middleware\<close>

text \<open>What the middleware does once the reservation is granted.\<close>

lemma runtime_granted:
  assumes "resolve spec (flow_gval input) = Inr est" and "trim_space tenant \<noteq> []"
    and "runtime_reserve \<lparr>rt_kv = Some update, rt_tenant = trim_space tenant\<rparr> ctx est s = (Inr h, s1)"
    and "runtime_middleware update spec name act tenant ctx input s = ((res, log), t)"
  defines "R \<equiv> runtime_reserver \<lparr>rt_kv = Some update, rt_tenant = trim_space tenant\<rparr>"
  obtains res0 settled s2
  where "quota_body (wrapf ''cost: settle runtime tenant reservation: %w'') (runtime_finish name R ctx) R h est act ctx input s1
      = ((res0, settled), s2)"
    and "quota_deferred R ctx h (wrapf ''cost: release runtime tenant reservation: %w'')
      ''release runtime tenant reservation after panic'' res0 settled s2 = ((res, log), t)"
proof -
  obtain res0 settled s2
    where "quota_body (wrapf ''cost: settle runtime tenant reservation: %w'') (runtime_finish name R ctx) R h est act ctx input s1
      = ((res0, settled), s2)"
    by (metis prod.collapse)
  with that assms show ?thesis by (simp add: runtime_middleware_def R_def Let_def)
qed

lemma runtime_finish_state [simp]:
  "snd (runtime_finish name (runtime_reserver l) ctx out actual s) = s"
  by (simp add: runtime_finish_def runtime_record_event_def accounting_ctx_def split: prod.split)

lemma runtime_finish_result:
  "fst (runtime_finish name (runtime_reserver l) ctx out actual s) = return_result (set_quota_state out True ''runtime_reserved'')"
  by (simp add: runtime_finish_def runtime_record_event_def accounting_ctx_def split: prod.split)

text \<open>
  C30.  A protected action that fails or panics costs nothing, on every store that keeps
  the laws and whatever other requests did meanwhile: when the middleware ends the way the
  action did and logs nothing, the reservation is finished and the estimate is free again;
  else the failed cleanup is in the error or in the log, and no more is in use than when
  the action ended.
\<close>

theorem runtime_failure_costs_nothing:
  assumes "atomic_kv update lookup" and "runtime_inv s"
    and "resolve spec (flow_gval input) = Inr est" and "trim_space tenant \<noteq> []"
    and "runtime_reserve \<lparr>rt_kv = Some update, rt_tenant = trim_space tenant\<rparr> ctx est s = (Inr h, s1)"
    and "act ctx input s1 = (x, s2)" and "action_failed x" and "runtime_inv s2"
    and "runtime_held lookup (trim_space tenant) s2 h = runtime_held lookup (trim_space tenant) s1 h"
    and "runtime_middleware update spec name act tenant ctx input s = ((res, log), t)"
  shows "if res = x \<and> log = []
    then obj_finished (be_objs t) h
      \<and> runtime_used lookup (trim_space tenant) t \<le> runtime_used lookup (trim_space tenant) s2 - sint est
    else runtime_used lookup (trim_space tenant) t \<le> runtime_used lookup (trim_space tenant) s2"
proof -
  note contract = atomic_kv.runtime_contract [OF assms(1)]
  have "runtime_held lookup (trim_space tenant) s2 h = Some (sint est)"
    using atomic_kv.runtime_reserve_good [OF assms(1,2,5)] assms(9) by simp
  from runtime_granted [OF assms(3-5,10)]
    reserver_contract.quota_failure [where act = act and ctx = ctx and input = input, OF contract assms(8) this assms(6,7)]
  show ?thesis by metis
qed

text \<open>The action panics, and the budget is as it was.\<close>

theorem runtime_failure_costs_nothing_witness:
  "\<exists>t. runtime_middleware mem_update \<lparr>es_literal = 60, es_path = []\<rparr> ''support.draft'' (\<lambda>c i s. (Panics, s)) ''acme''
      background flow_nil acme = ((Panics, []), t) \<and> runtime_used (\<lambda>k. k) ''acme'' t \<le> 0"
proof -
  let ?act = "\<lambda>c i s. (Panics, s)" and ?spec = "\<lparr>es_literal = 60, es_path = []\<rparr>"
  let ?l = "\<lparr>rt_kv = Some mem_update, rt_tenant = ''acme''\<rparr>"
  obtain s where s: "runtime_reserve ?l background 60 acme = (Inr 0, s)" "runtime_quiet (\<lambda>k. k) ''acme'' s"
    "runtime_held (\<lambda>k. k) ''acme'' s 0 = Some 60" "runtime_used (\<lambda>k. k) ''acme'' s = 60"
    by (rule acme_taken)
  have est: "resolve ?spec (flow_gval flow_nil) = Inr 60" by (simp add: resolve_def dynamic_def)
  obtain t where t: "runtime_release ?l 0 background s = (None, t)"
    using mem.runtime_terminal_prompt(2) [OF s(2,3)] by auto
  have run: "runtime_middleware mem_update ?spec ''support.draft'' ?act ''acme'' background flow_nil acme = ((Panics, []), t)"
    using s(1) t est
    by (simp add: runtime_middleware_def quota_body_def quota_deferred_def finish_reservation_def accounting_ctx_def)
  have inv: "runtime_inv acme" "runtime_inv s" using acme_facts(1) s(2) by (simp_all add: runtime_quiet_def)
  have "runtime_used (\<lambda>k. k) ''acme'' t \<le> 0"
    using runtime_failure_costs_nothing [where act = ?act and ctx = background and input = flow_nil and tenant = "''acme''" and ?s1.0 = s
        and h = 0 and est = 60, OF mem.atomic_kv_axioms inv(1) est _ _ refl _ inv(2) refl run] s(1,4)
    by simp
  then show ?thesis using run by blast
qed

text \<open>
  A protected action that succeeds is charged once, and never refused for its cost.  On
  a store that does not fail, what its result reports, or else the estimate, is in use in
  place of the reservation, also beyond the budget, and the reservation is finished.  The
  flow gets the object of the action, marked as reserved, or an error for a result that is
  no object.
\<close>

theorem runtime_success_charges:
  assumes "prompt_kv update lookup" and "runtime_inv s"
    and "resolve spec (flow_gval input) = Inr est" and "trim_space tenant \<noteq> []"
    and "runtime_reserve \<lparr>rt_kv = Some update, rt_tenant = trim_space tenant\<rparr> ctx est s = (Inr h, s1)"
    and "act ctx input s1 = (Returns out None, s2)" and "runtime_quiet lookup (trim_space tenant) s2"
    and "runtime_held lookup (trim_space tenant) s2 h = runtime_held lookup (trim_space tenant) s1 h"
    and "actual = (case reported_cost out of Some c \<Rightarrow> clamp0 c | None \<Rightarrow> est)"
    and "runtime_used lookup (trim_space tenant) s2 - sint est + max 0 (sint actual) \<le> max_int64"
    and "runtime_middleware update spec name act tenant ctx input s = ((res, log), t)"
  shows "obj_finished (be_objs t) h \<and> log = []
    \<and> runtime_used lookup (trim_space tenant) t = runtime_used lookup (trim_space tenant) s2 - sint est + max 0 (sint actual)
    \<and> res = return_result (set_quota_state out True ''runtime_reserved'')"
proof -
  let ?l = "\<lparr>rt_kv = Some update, rt_tenant = trim_space tenant\<rparr>"
  note kv = prompt_kv.axioms(1) [OF assms(1)]
  note contract = atomic_kv.runtime_contract [OF kv, of "trim_space tenant"]
  have held: "runtime_held lookup (trim_space tenant) s2 h = Some (sint est)"
    using atomic_kv.runtime_reserve_good [OF kv assms(2,5)] assms(8) by simp
  have inv: "runtime_inv s2" using assms(7) by (simp add: runtime_quiet_def)
  obtain s3 where commit: "runtime_commit ?l h background actual s2 = (None, s3)"
    and used: "runtime_used lookup (trim_space tenant) s3 = runtime_used lookup (trim_space tenant) s2 - sint est + max 0 (sint actual)"
    using prompt_kv.runtime_terminal_prompt(1) [OF assms(1,7) held assms(10)] by blast
  obtain res0 settled s4 where run:
    "quota_body (wrapf ''cost: settle runtime tenant reservation: %w'') (runtime_finish name (runtime_reserver ?l) ctx)
      (runtime_reserver ?l) h est act ctx input s1 = ((res0, settled), s4)"
    "quota_deferred (runtime_reserver ?l) ctx h (wrapf ''cost: release runtime tenant reservation: %w'')
      ''release runtime tenant reservation after panic'' res0 settled s4 = ((res, log), t)"
    by (rule runtime_granted [OF assms(3-5,11)])
  have "runtime_inv t \<and> obj_finished (be_objs t) h \<and> runtime_used lookup (trim_space tenant) t = runtime_used lookup (trim_space tenant) s3
      \<and> log = [] \<and> runtime_finish name (runtime_reserver ?l) ctx out actual s3 = (res, t)"
    by (rule reserver_contract.quota_success [where act = act and ctx = ctx and input = input,
          OF contract inv held assms(6,9,10) _ _ run])
      (use commit runtime_finish_state in \<open>auto dest: arg_cong [where f = snd]\<close>)
  then show ?thesis
    using used runtime_finish_result [of name ?l ctx out actual s3] by (auto dest: arg_cong [where f = fst])
qed

text \<open>The action reports nothing: the estimate of 60 is charged.\<close>

theorem runtime_success_charges_witness:
  "\<exists>t. runtime_middleware mem_update \<lparr>es_literal = 60, es_path = []\<rparr> ''support.draft''
      (\<lambda>c i s. (Returns (FMap [(''draft'', GString ''Hello'')]) None, s)) ''acme'' background flow_nil acme
    = ((Returns (FMap [(''draft'', GString ''Hello''), (''quota_reserved'', GBool True),
          (''quota_state'', GString ''runtime_reserved'')]) None, []), t)
    \<and> runtime_used (\<lambda>k. k) ''acme'' t = 60"
proof -
  let ?out = "FMap [(''draft'', GString ''Hello'')]"
  let ?act = "\<lambda>c i s. (Returns ?out None, s)" and ?spec = "\<lparr>es_literal = 60, es_path = []\<rparr>"
  obtain s where s: "runtime_reserve \<lparr>rt_kv = Some mem_update, rt_tenant = ''acme''\<rparr> background 60 acme = (Inr 0, s)"
    "runtime_quiet (\<lambda>k. k) ''acme'' s" "runtime_used (\<lambda>k. k) ''acme'' s = 60"
    by (rule acme_taken)
  have est: "resolve ?spec (flow_gval flow_nil) = Inr 60" by (simp add: resolve_def dynamic_def)
  have inv: "runtime_inv acme" using acme_facts(1) by (simp add: runtime_quiet_def)
  obtain res log t where run: "runtime_middleware mem_update ?spec ''support.draft'' ?act ''acme'' background flow_nil acme = ((res, log), t)"
    by (metis prod.collapse)
  have "log = [] \<and> runtime_used (\<lambda>k. k) ''acme'' t = 60 \<and> res = return_result (set_quota_state ?out True ''runtime_reserved'')"
    using runtime_success_charges [where act = ?act and ctx = background and input = flow_nil and tenant = "''acme''" and ?s1.0 = s
        and h = 0 and est = 60 and out = ?out and actual = 60, OF mem.prompt_kv_axioms inv est _ _ refl _ refl _ _ run] s
    by simp
  then show ?thesis using run by (simp add: set_quota_state_def)
qed

text \<open>
  Without room in a valid policy no action runs.  Whatever the action is, the result
  is the same: an error that says that the policy is missing or invalid, or, when the
  budget is exceeded, the input object with its denial; and no record has changed.
\<close>

theorem runtime_denial_skips:
  assumes "prompt_kv update lookup" and "trim_space tenant \<noteq> []" and "resolve spec (flow_gval input) = Inr est"
    and "0 \<le> sint est" and "sint est \<le> sint MaxEstimate" and "be_random s (be_drawn s) \<noteq> None"
    and "policy = lookup (be_data s) (rt_key (trim_space tenant))"
    and "\<not> (\<exists>w r. policy = Some w \<and> decode_runtime_quota_record w = Inr r \<and> rt_used r + sint est \<le> rt_limit r)"
  shows "\<exists>res t. (\<forall>act. runtime_middleware update spec name act tenant background input s = ((res, []), t))
    \<and> lookup (be_data t) = lookup (be_data s)
    \<and> (case policy of
         None \<Rightarrow> \<exists>e. res = Returns flow_nil (Some e) \<and> errors_is e ErrRuntimePolicyMissing
       | Some w \<Rightarrow>
           (case decode_runtime_quota_record w of
              Inl x \<Rightarrow> \<exists>e. res = Returns flow_nil (Some e) \<and> errors_is e ErrRuntimePolicyInvalid
            | Inr r \<Rightarrow> if rt_limit r < 0 \<or> max_int64 < rt_used r + sint est
                then \<exists>e. res = Returns flow_nil (Some e) \<and> errors_is e ErrRuntimePolicyInvalid
                else res = return_result (set_quota_state input False ''runtime_budget_exceeded'')))"
proof -
  let ?l = "\<lparr>rt_kv = Some update, rt_tenant = trim_space tenant\<rparr>"
  obtain b where b: "be_random s (be_drawn s) = Some b" using assms(6) by blast
  have tenant: "trim_space (trim_space tenant) \<noteq> []" using assms(2) by simp
  let ?s = "s\<lparr>be_drawn := Suc (be_drawn s)\<rparr>" and ?f = "reserve_callback (hex_encode b) est"
  have denied: "\<exists>x. ?f policy = Inl x
      \<and> (case policy of
           None \<Rightarrow> errors_is x ErrRuntimePolicyMissing \<and> \<not> errors_is x ErrBudgetExceeded
         | Some w \<Rightarrow>
             (case decode_runtime_quota_record w of
                Inl y \<Rightarrow> errors_is x ErrRuntimePolicyInvalid \<and> \<not> errors_is x ErrBudgetExceeded
              | Inr r \<Rightarrow> if rt_limit r < 0 \<or> max_int64 < rt_used r + sint est
                  then errors_is x ErrRuntimePolicyInvalid \<and> \<not> errors_is x ErrBudgetExceeded
                  else errors_is x ErrBudgetExceeded))"
  proof (cases policy)
    case (Some w)
    then show ?thesis
      using assms(8) reserve_callback_result [of w _ est "hex_encode b", OF _ assms(4)] decode_error [of w]
      by (cases "decode_runtime_quota_record w") (auto simp: reserve_callback_def not_le split: if_splits)
  qed (simp add: reserve_callback_def)
  then obtain x where x: "?f policy = Inl x" by blast
  obtain res t where t: "runtime_update ?l background ?f ?s = (res, t)" by fastforce
  have "res = Inl x" using prompt_kv.runtime_update_prompt [OF assms(1) tenant t] x assms(7) by simp
  moreover have "lookup (be_data t) = lookup (be_data s)"
    using atomic_kv.runtime_update_state [OF prompt_kv.axioms(1) [OF assms(1)] t] calculation by simp
  moreover have "runtime_reserve ?l background est s = (Inl x, t)"
    using assms(4,5) b tenant t calculation(1)
    by (simp add: runtime_reserve_def runtime_quota_key_def try_do_def new_id_def i64_simps Let_def)
  ultimately show ?thesis
    using denied x assms(2,3)
    by (auto simp: runtime_middleware_def wrapf_def split: option.splits sum.splits if_splits)
qed

text \<open>A tenant without a policy.\<close>

theorem runtime_denial_skips_witness:
  "\<exists>e t. (\<forall>act. runtime_middleware mem_update forty ''support.draft'' act ''acme'' background flow_nil (rt_server Map.empty)
      = ((Returns flow_nil (Some e), []), t)) \<and> errors_is e ErrRuntimePolicyMissing"
proof -
  have "be_random (rt_server Map.empty) n \<noteq> None" for n by (simp add: rt_server_def)
  from runtime_denial_skips [OF mem.prompt_kv_axioms _ resolve_forty _ _ this refl, where tenant = "''acme''" and input = flow_nil and name = "''support.draft''"]
  show ?thesis by (auto simp: sint_MaxEstimate)
qed

end
