(* ===== verification/BackendsAgree.thy ===== *)
theory BackendsAgree
  imports Agreement PostgresSpec WalletSpec RedisSpec RuntimeSpec
begin

text \<open>
  The ledgers of \<open>adapters/postgres\<close>, \<open>adapters/redis\<close>, \<open>nexssflow/wallet.go\<close> and
  \<open>nexssflow/storage_backend.go\<close> tell their reservations apart, each call touches only its own,
  and so all five ledgers give the same answers to every client.
\<close>

section \<open>Reservation objects and the amounts stored under their identifiers\<close>

text \<open>
  \<open>amt s i\<close> is the amount that the server stores under the identifier \<open>i\<close>; \<open>name n b\<close> is
  the identifier that is made of the bytes \<open>b\<close> of the \<open>n\<close>-th draw.
\<close>

definition stored_held :: "('d backend \<Rightarrow> string \<Rightarrow> int option) \<Rightarrow> 'd backend \<Rightarrow> nat \<Rightarrow> int option" where
  "stored_held amt s h =
     (if h < length (be_objs s) \<and> \<not> ro_done (be_objs s ! h) then amt s (ro_id (be_objs s ! h)) else None)"

text \<open>No two objects share an identifier, and none of them will be drawn again.\<close>

definition ids_apart :: "(nat \<Rightarrow> byte list \<Rightarrow> string) \<Rightarrow> 'd backend \<Rightarrow> bool" where
  "ids_apart name s \<longleftrightarrow> distinct (map ro_id (be_objs s))
     \<and> (\<forall>n b. be_drawn s \<le> n \<longrightarrow> be_random s n = Some b \<longrightarrow> name n b \<notin> ro_id ` set (be_objs s))
     \<and> (\<forall>m n b c. be_drawn s \<le> m \<longrightarrow> m < n \<longrightarrow> be_random s m = Some b \<longrightarrow> be_random s n = Some c
          \<longrightarrow> name m b \<noteq> name n c)"

text \<open>A call that may add one reservation, and one that ends the reservation \<open>k\<close>.\<close>

definition may_add :: "(nat \<Rightarrow> byte list \<Rightarrow> string) \<Rightarrow> ('d backend \<Rightarrow> string \<Rightarrow> int option) \<Rightarrow> 'd backend \<Rightarrow> 'd backend \<Rightarrow> bool" where
  "may_add name amt s t \<longleftrightarrow> be_random t = be_random s \<and> be_drawn s \<le> be_drawn t
     \<and> (be_objs t = be_objs s \<and> (\<forall>i. amt t i = amt s i)
        \<or> (\<exists>b. be_drawn t = Suc (be_drawn s) \<and> be_random s (be_drawn s) = Some b
             \<and> be_objs t = be_objs s @ [\<lparr>ro_id = name (be_drawn s) b, ro_done = False\<rparr>]
             \<and> (\<forall>i. i \<noteq> name (be_drawn s) b \<longrightarrow> amt t i = amt s i)))"

definition ends_one :: "('d backend \<Rightarrow> string \<Rightarrow> int option) \<Rightarrow> nat \<Rightarrow> 'd backend \<Rightarrow> 'd backend \<Rightarrow> bool" where
  "ends_one amt k s t \<longleftrightarrow> be_random t = be_random s \<and> be_drawn s \<le> be_drawn t \<and> k < length (be_objs s)
     \<and> be_objs t = (be_objs s)[k := (be_objs s ! k)\<lparr>ro_done := True\<rparr>]
     \<and> (\<forall>i. i \<noteq> ro_id (be_objs s ! k) \<longrightarrow> amt t i = amt s i)"

lemma may_add_apart:
  assumes "ids_apart name s" and "may_add name amt s t"
  shows "ids_apart name t"
proof -
  note ap = assms(1) [unfolded ids_apart_def]
  have r: "be_random t = be_random s" "be_drawn s \<le> be_drawn t" using assms(2) by (simp_all add: may_add_def)
  from assms(2) show ?thesis
    unfolding may_add_def
  proof (elim conjE disjE exE)
    fix b
    assume b: "be_drawn t = Suc (be_drawn s)" "be_random s (be_drawn s) = Some b"
      "be_objs t = be_objs s @ [\<lparr>ro_id = name (be_drawn s) b, ro_done = False\<rparr>]"
    have "name n c \<noteq> name (be_drawn s) b" if "be_drawn t \<le> n" "be_random s n = Some c" for n c
    proof -
      have "be_drawn s < n" using that b(1) by simp
      then show ?thesis using ap b(2) that(2) by (metis order_refl)
    qed
    then show ?thesis
      using ap r b by (auto simp: ids_apart_def)
  qed (use ap r in \<open>auto simp: ids_apart_def\<close>)
qed

lemma may_add_others:
  assumes "ids_apart name s" and "may_add name amt s t"
  shows "stored_held amt s h = Some r \<Longrightarrow> stored_held amt t h = Some r"
    and "obj_finished (be_objs s) h \<Longrightarrow> obj_finished (be_objs t) h"
proof -
  have same: "h < length (be_objs t) \<and> be_objs t ! h = be_objs s ! h
      \<and> amt t (ro_id (be_objs s ! h)) = amt s (ro_id (be_objs s ! h))" if h: "h < length (be_objs s)"
    using assms(2) unfolding may_add_def
  proof (elim conjE disjE exE)
    fix b
    assume b: "be_random s (be_drawn s) = Some b" "\<forall>i. i \<noteq> name (be_drawn s) b \<longrightarrow> amt t i = amt s i"
      "be_objs t = be_objs s @ [\<lparr>ro_id = name (be_drawn s) b, ro_done = False\<rparr>]"
    have "ro_id (be_objs s ! h) \<in> ro_id ` set (be_objs s)" using h by simp
    then have "ro_id (be_objs s ! h) \<noteq> name (be_drawn s) b"
      using assms(1) b(1) unfolding ids_apart_def by (metis order_refl)
    then show ?thesis using b h by (simp add: nth_append)
  qed (use h in simp)
  show "stored_held amt t h = Some r" if "stored_held amt s h = Some r"
    using that same by (simp add: stored_held_def split: if_splits)
  show "obj_finished (be_objs t) h" if "obj_finished (be_objs s) h"
    using that same by (simp add: obj_finished_def)
qed

lemma ends_one_apart:
  assumes "ids_apart name s" and "ends_one amt k s t"
  shows "ids_apart name t"
proof -
  have k: "k < length (be_objs s)" "be_objs t = (be_objs s)[k := (be_objs s ! k)\<lparr>ro_done := True\<rparr>]"
    using assms(2) by (simp_all add: ends_one_def)
  then have "map ro_id (be_objs t) = map ro_id (be_objs s)"
    by (simp add: map_update list_update_same_conv)
  moreover from this have "ro_id ` set (be_objs t) = ro_id ` set (be_objs s)"
    by (metis list.set_map)
  ultimately show ?thesis
    using assms by (auto simp: ids_apart_def ends_one_def)
qed

lemma ends_one_others:
  assumes "ids_apart name s" and "ends_one amt k s t" and "h \<noteq> k"
  shows "stored_held amt s h = Some r \<Longrightarrow> stored_held amt t h = Some r"
    and "obj_finished (be_objs s) h \<Longrightarrow> obj_finished (be_objs t) h"
proof -
  have "ro_id (be_objs s ! h) \<noteq> ro_id (be_objs s ! k)" if "h < length (be_objs s)" "k < length (be_objs s)"
    using assms(1,3) that nth_eq_iff_index_eq [of "map ro_id (be_objs s)" h k] by (simp add: ids_apart_def)
  then show "stored_held amt s h = Some r \<Longrightarrow> stored_held amt t h = Some r"
    and "obj_finished (be_objs s) h \<Longrightarrow> obj_finished (be_objs t) h"
    using assms(2,3) by (auto simp: ends_one_def stored_held_def obj_finished_def split: if_splits)
qed

lemma fresh_object [simp]: "stored_held amt s (length (be_objs s)) = None" "\<not> obj_finished (be_objs s) (length (be_objs s))"
  by (simp_all add: stored_held_def obj_finished_def)

lemma lease_of_drop: "i \<noteq> j \<Longrightarrow> lease_of i (filter (\<lambda>x. le_id x \<noteq> j) rows) = lease_of i rows"
  by (induction rows) auto

text \<open>The identifiers of \<open>adapters/postgres\<close>, \<open>wallet.go\<close> and \<open>storage_backend.go\<close>.\<close>

abbreviation hex_name :: "nat \<Rightarrow> byte list \<Rightarrow> string" where
  "hex_name \<equiv> \<lambda>_. hex_encode"

section \<open>PostgreSQL\<close>

definition pg_stored :: "pg_db backend \<Rightarrow> string \<Rightarrow> int option" where
  "pg_stored s i = map_option (\<lambda>r. sint (le_amount r)) (lease_of i (pg_leases (be_data s)))"

lemma pg_held_stored: "pg_held s = stored_held pg_stored s"
  by (simp add: fun_eq_iff pg_held_def held_lease_def stored_held_def pg_stored_def)

lemma pg_reserve_may_add:
  assumes "pg_quiet l s" and "pg_reserve l background e s = (res, t)"
  shows "may_add hex_name pg_stored s t \<and> (\<forall>h. res = Inr h \<longrightarrow> h = length (be_objs s))"
proof (cases "0 \<le> sint e \<and> sint e \<le> sint MaxEstimate")
  case False
  then have "t = s \<and> (\<exists>x. res = Inl x)"
    using assms by (auto simp: pg_reserve_def pg_quiet_def i64_simps split: if_splits)
  then show ?thesis by (auto simp: may_add_def)
next
  case True
  obtain row where row: "pg_budgets (be_data s) (pl_scope l) = Some row"
    using assms(1) by (rule pg_quiet_row)
  note run = pg_reserve_quiet [OF assms(1) row, of e]
  show ?thesis
    using run True assms(2)
    by (auto simp: may_add_def pg_stored_def Let_def sql_set_used_effect(2) lease_of_append new_lease_def split: if_splits option.splits)
qed

lemma pg_once_ends:
  assumes "pg_held s k = Some q" and "once k oper s = (None, t)" and "pg_settles l oper delta"
  shows "ends_one pg_stored k s t"
proof -
  let ?x = "be_objs s ! k"
  have k: "k < length (be_objs s)" "\<not> ro_done ?x"
    using held_leaseD [of "pg_leases (be_data s)" "be_objs s" k q] assms(1) by (auto simp: pg_held_def)
  obtain u where u: "oper (ro_id ?x) s = (Inr (), u)"
    and t: "t = u\<lparr>be_objs := (be_objs u)[k := ?x\<lparr>ro_done := True\<rparr>]\<rparr>"
    using once_open [OF k(2) assms(2)] by auto
  then have same: "same_client s u" and "pg_settled (pl_scope l) (ro_id ?x) delta (be_now s) (be_data s) (be_data u)"
    using assms(3) unfolding pg_settles_def by blast+
  from pg_settled_drop [OF this(2)] show ?thesis
    using k t same by (simp add: ends_one_def same_client_def pg_stored_def lease_of_drop)
qed

interpretation pg_isolated: isolated_reserver "pg_reserver l" "pg_quiet l"
  "\<lambda>s. pg_used (pl_scope l) (be_data s)" "\<lambda>s. pg_limit (pl_scope l) (be_data s)"
  pg_held "\<lambda>s. obj_finished (be_objs s)" max_int64 "ids_apart hex_name" for l
proof (unfold_locales, goal_cases)
  case (1 s e res s')
  note add = pg_reserve_may_add [OF 1(1) 1(3) [simplified]]
  have "pg_held s h = None \<and> \<not> obj_finished (be_objs s) h" if "res = Inr h" for h
    using add that by (simp add: pg_held_stored)
  then show ?case using may_add_apart [OF 1(2) conjunct1 [OF add]] by blast
next
  case (2 s e res s' h r)
  note add = pg_reserve_may_add [OF 2(1) 2(3) [simplified]]
  show ?case
    using may_add_others [OF 2(2) conjunct1 [OF add], where h = h] by (simp add: pg_held_stored)
next
  case (3 s k q a s' h r)
  have "once k (pg_commit_tx l (clamp0 a)) s = (None, s')"
    using 3(5) pg_commit_cases [of l k background a s None s'] by simp
  note ends = pg_once_ends [OF 3(3) this pg_settles_commit [of "clamp0 a", simplified]]
  show ?case
    using ends_one_apart [OF 3(2) ends] ends_one_others [OF 3(2) ends, where h = h] by (simp add: pg_held_stored)
next
  case (4 s k q s' h r)
  have "once k (pg_release_tx l) s = (None, s')"
    using 4(5) pg_release_cases [of l k background s None s'] by simp
  note ends = pg_once_ends [OF 4(3) this pg_settles_release]
  show ?case
    using ends_one_apart [OF 4(2) ends] ends_one_others [OF 4(2) ends, where h = h] by (simp add: pg_held_stored)
qed

section \<open>Wallets\<close>

definition wallet_stored :: "wallet_db backend \<Rightarrow> string \<Rightarrow> int option" where
  "wallet_stored s i = map_option (\<lambda>r. sint (le_amount r)) (lease_of i (wd_leases (be_data s)))"

lemma wallet_held_stored: "wallet_held s = stored_held wallet_stored s"
  by (simp add: fun_eq_iff wallet_held_def held_lease_def stored_held_def wallet_stored_def)

lemma wallet_reserve_may_add:
  assumes quiet: "wallet_quiet l s" and res: "wallet_reserve l background e s = (res, t)"
  shows "may_add hex_name wallet_stored s t \<and> (\<forall>h. res = Inr h \<longrightarrow> h = length (be_objs s))"
proof (cases "0 \<le> sint e \<and> sint e \<le> sint MaxEstimate")
  case False
  then have "t = s \<and> (\<exists>x. res = Inl x)"
    using assms
    by (auto simp: wallet_reserve_def begin_reservation_def validate_wallet_context_def validate_estimate_def
        i64_simps try_do_def split: option.splits if_splits)
  then show ?thesis by (auto simp: may_add_def)
next
  case True
  note ok = wallet_quietD(4) [OF quiet] and run = wallet_reserve_quiet [OF quiet, of e]
  show ?thesis
  proof (cases "bal (wl_wallet l) (be_data s) - hold (wl_wallet l) (be_data s) < sint e")
    case deny: True
    then obtain x where "res = Inl x" "t = s\<lparr>be_drawn := Suc (be_drawn s), be_data := be_data s\<rparr>"
      using run True res by auto
    then show ?thesis by (simp add: may_add_def wallet_stored_def)
  next
    case False
    then obtain b db where b: "be_random s (be_drawn s) = Some b" and h: "res = Inr (length (be_objs s))"
      and t: "t = s\<lparr>be_drawn := Suc (be_drawn s), be_data := db,
               be_objs := be_objs s @ [\<lparr>ro_id = hex_encode b, ro_done = False\<rparr>]\<rparr>"
      using run True res by auto
    obtain db' where f: "wallet_freed (wl_wallet l) (be_now s) (be_data s) db'"
      and p: "wallet_leased (wl_wallet l) (wallet_lease l (hex_encode b) e (be_now s)) db' (be_data t)"
      using wallet_reserve_state [OF res ok] h t by auto
    have "filter (\<lambda>r. \<not> lease_expired (wl_wallet l) (be_now s) r) (wd_leases (be_data s)) = wd_leases (be_data s)"
      using quiet by (simp add: wallet_quiet_def filter_id_conv)
    then have "wd_leases (be_data t) = wd_leases (be_data s) @ [wallet_lease l (hex_encode b) e (be_now s)]"
      using f p by (simp add: wallet_freed_def wallet_leased_def)
    then have "wallet_stored t i = wallet_stored s i" if "i \<noteq> hex_encode b" for i
      using that by (simp add: wallet_stored_def lease_of_append split: option.split)
    then show ?thesis
      using b h t by (simp add: may_add_def)
  qed
qed

lemma wallet_once_ends:
  assumes "wallet_held s k = Some q" and "once k oper s = (None, t)"
    and "\<And>i res u. oper i s = (res, u) \<Longrightarrow> settles_as s res u (wallet_settled l i charge live now (rows i) (be_data s))"
  shows "ends_one wallet_stored k s t"
proof -
  let ?x = "be_objs s ! k"
  have k: "k < length (be_objs s)" "\<not> ro_done ?x"
    using held_leaseD [of "wd_leases (be_data s)" "be_objs s" k q] assms(1) by (auto simp: wallet_held_def)
  obtain u where u: "oper (ro_id ?x) s = (Inr (), u)"
    and t: "t = u\<lparr>be_objs := (be_objs u)[k := ?x\<lparr>ro_done := True\<rparr>]\<rparr>"
    using once_open [OF k(2) assms(2)] by auto
  from assms(3) [OF u] have "same_client s u" and "wd_leases (be_data u) = filter (\<lambda>x. le_id x \<noteq> ro_id ?x) (wd_leases (be_data s))"
    by (auto simp: settles_as_def wallet_settled_def)
  then show ?thesis
    using k t by (simp add: ends_one_def same_client_def wallet_stored_def lease_of_drop)
qed

interpretation wallet_isolated: isolated_reserver "wallet_reserver l" "wallet_quiet l" "wallet_used (int k) l"
  "\<lambda>_. int k" wallet_held "\<lambda>s. obj_finished (be_objs s)" max_int64 "ids_apart hex_name" for k l
proof (unfold_locales, goal_cases)
  case (1 s e res s')
  note add = wallet_reserve_may_add [OF 1(1) 1(3) [simplified]]
  have "wallet_held s h = None \<and> \<not> obj_finished (be_objs s) h" if "res = Inr h" for h
    using add that by (simp add: wallet_held_stored)
  then show ?case using may_add_apart [OF 1(2) conjunct1 [OF add]] by blast
next
  case (2 s e res s' h r)
  note add = wallet_reserve_may_add [OF 2(1) 2(3) [simplified]]
  show ?case
    using may_add_others [OF 2(2) conjunct1 [OF add], where h = h] by (simp add: wallet_held_stored)
next
  case (3 s j q a s' h r)
  have "once j (wallet_commit_tx l (clamp0 a)) s = (None, s')"
    using 3(5) wallet_commit_cases [of l j background a s None s'] by simp
  note ends = wallet_once_ends [OF 3(3) this wallet_commit_tx_state [OF _ wallet_quietD(4) [OF 3(1)]]]
  show ?case
    using ends_one_apart [OF 3(2) ends] ends_one_others [OF 3(2) ends, where h = h] by (simp add: wallet_held_stored)
next
  case (4 s j q s' h r)
  have "once j (wallet_release_tx l) s = (None, s')"
    using 4(5) wallet_release_cases [of l j background s None s'] by simp
  note ends = wallet_once_ends [OF 4(3) this wallet_release_tx_state [OF _ wallet_quietD(4) [OF 4(1)]]]
  show ?case
    using ends_one_apart [OF 4(2) ends] ends_one_others [OF 4(2) ends, where h = h] by (simp add: wallet_held_stored)
qed

section \<open>Redis\<close>

definition redis_stored :: "redis_db backend \<Rightarrow> string \<Rightarrow> int option" where
  "redis_stored s i = map_option fst (rd_values (be_data s) i)"

lemma redis_held_stored: "redis_held s = stored_held redis_stored s"
  by (simp add: fun_eq_iff redis_held_def stored_held_def redis_stored_def)

text \<open>The identifiers of \<open>adapters/redis\<close> hold the time of the draw as well.\<close>

abbreviation redis_name :: "(nat \<Rightarrow> i64) \<Rightarrow> nat \<Rightarrow> byte list \<Rightarrow> string" where
  "redis_name clock \<equiv> \<lambda>n. redis_id (clock n)"

lemma redis_reserve_may_add:
  assumes quiet: "redis_quiet l s" and res: "redis_reserve clock l background e s = (res, t)"
  shows "may_add (redis_name clock) redis_stored s t \<and> (\<forall>h. res = Inr h \<longrightarrow> h = length (be_objs s))"
proof (cases "0 \<le> sint e \<and> sint e \<le> sint MaxEstimate")
  case False
  then have "t = s \<and> (\<exists>x. res = Inl x)"
    using res by (auto simp: redis_reserve_def i64_simps split: if_splits)
  then show ?thesis by (auto simp: may_add_def)
next
  case True
  have q: "redis_inv l s" "redis_calm l s" "redis_serves l s"
    using quiet by (simp_all add: redis_quiet_def redis_calm_def)
  show ?thesis
    by (rule redis_reserve_serves [OF q(1,3) _ _ calm_reclaim [OF q(2)], of e clock])
      (use True res in \<open>auto simp: may_add_def redis_stored_def redis_put_def Let_def split: if_splits\<close>)
qed

lemma redis_once_ends:
  assumes calm: "redis_calm l s" and "redis_held s k = Some q"
    and "once k (redis_settle fmt (\<lambda>now. settle_script f now)) s = (None, t)"
  shows "ends_one redis_stored k s t"
proof -
  let ?x = "be_objs s ! k"
  have k: "k < length (be_objs s)" "\<not> ro_done ?x"
    using redis_heldD [OF assms(2)] by simp_all
  then show ?thesis
    using assms(3) unfolding once_def redis_settle_calm [OF calm]
    by (auto simp: ends_one_def redis_stored_def drop_id_def redis_del_def Let_def split: if_splits)
qed

interpretation redis_isolated: isolated_reserver "redis_reserver clock l" "redis_quiet l" redis_used
  "\<lambda>_. sint (rl_limit l)" redis_held "\<lambda>s. obj_finished (be_objs s)" redis_cap "ids_apart (redis_name clock)" for clock l
proof (unfold_locales, goal_cases)
  case (1 s e res s')
  note add = redis_reserve_may_add [OF 1(1) 1(3) [simplified]]
  have "redis_held s h = None \<and> \<not> obj_finished (be_objs s) h" if "res = Inr h" for h
    using add that by (simp add: redis_held_stored)
  then show ?case using may_add_apart [OF 1(2) conjunct1 [OF add]] by blast
next
  case (2 s e res s' h r)
  note add = redis_reserve_may_add [OF 2(1) 2(3) [simplified]]
  show ?case
    using may_add_others [OF 2(2) conjunct1 [OF add], where h = h] by (simp add: redis_held_stored)
next
  case (3 s k q a s' h r)
  have calm: "redis_calm l s" using 3(1) by (simp add: redis_quiet_def)
  note ends = redis_once_ends [OF calm 3(3) 3(5) [simplified, unfolded redis_commit_fold]]
  show ?case
    using ends_one_apart [OF 3(2) ends] ends_one_others [OF 3(2) ends, where h = h] by (simp add: redis_held_stored)
next
  case (4 s k q s' h r)
  have calm: "redis_calm l s" using 4(1) by (simp add: redis_quiet_def)
  note ends = redis_once_ends [OF calm 4(3) 4(5) [simplified, unfolded redis_commit_fold]]
  show ?case
    using ends_one_apart [OF 4(2) ends] ends_one_others [OF 4(2) ends, where h = h] by (simp add: redis_held_stored)
qed

section \<open>The runtime budget\<close>

definition runtime_stored :: "('k \<Rightarrow> string \<Rightarrow> stored option) \<Rightarrow> string \<Rightarrow> 'k backend \<Rightarrow> string \<Rightarrow> int option" where
  "runtime_stored lookup tenant s i =
     (case rt_record lookup tenant s of None \<Rightarrow> None | Some r \<Rightarrow> amount_of i r)"

lemma runtime_held_stored: "runtime_held lookup tenant s = stored_held (runtime_stored lookup tenant) s"
  by (simp add: fun_eq_iff runtime_held_def stored_held_def runtime_stored_def)

context prompt_kv
begin

lemma runtime_reserve_may_add:
  assumes quiet: "runtime_quiet lookup tenant s" and res: "runtime_reserve (rt_ledger tenant) background e s = (res, t)"
  shows "may_add hex_name (runtime_stored lookup tenant) s t \<and> (\<forall>h. res = Inr h \<longrightarrow> h = length (be_objs s))"
proof (cases res)
  case (Inl x)
  then have "be_random t = be_random s" "be_drawn s \<le> be_drawn t" "be_objs t = be_objs s"
    "lookup (be_data t) = lookup (be_data s)"
    using runtime_reserve_state [OF res] by auto
  then show ?thesis
    using Inl same_record [of t s tenant] by (simp add: may_add_def runtime_stored_def)
next
  case (Inr h)
  then obtain b r where e: "0 \<le> sint e" and h: "h = length (be_objs s)"
    and b: "be_random s (be_drawn s) = Some b" and r: "rt_record lookup tenant s = Some r"
    and objs: "be_objs t = be_objs s @ [\<lparr>ro_id = hex_encode b, ro_done = False\<rparr>]"
    and rand: "be_random t = be_random s" "be_drawn t = Suc (be_drawn s)"
    and new: "lookup (be_data t) = (lookup (be_data s))
        (rt_key tenant \<mapsto> Some (marshal_record (with_reservation (hex_encode b) e r)))"
    using runtime_reserve_state [OF res] by auto
  have "b \<noteq> []" using quiet b by (auto simp: runtime_quiet_def runtime_inv_def)
  then have i: "hex_encode b \<noteq> []" by (cases b) simp_all
  note w = with_reservation_props [OF rt_record_good [OF r] e i]
  have "rt_record lookup tenant t = Some (with_reservation (hex_encode b) e r)"
    using w(1) new by (intro rt_record_stored) simp_all
  then have "runtime_stored lookup tenant t i = runtime_stored lookup tenant s i" if "i \<noteq> hex_encode b" for i
    using r w(5) that by (simp add: runtime_stored_def)
  then show ?thesis
    using Inr h b rand objs by (simp add: may_add_def)
qed

lemma runtime_once_ends:
  assumes "runtime_held lookup tenant s k = Some q"
    and "once k (\<lambda>i. runtime_update (rt_ledger tenant) c (f i)) s = (None, t)"
    and f: "\<And>i old v. f i old = Inr v \<Longrightarrow> \<exists>w r r'. old = Some w \<and> decode_runtime_quota_record w = Inr r
        \<and> v = Some (marshal_record r') \<and> settled_record i a r r'"
  shows "ends_one (runtime_stored lookup tenant) k s t"
proof -
  have k: "k < length (be_objs s)" "\<not> ro_done (be_objs s ! k)"
    using assms(1) by (auto simp: runtime_held_def split: if_splits)
  obtain r r' where r: "rt_record lookup tenant s = Some r" "rt_record lookup tenant t = Some r'"
      "settled_record (ro_id (be_objs s ! k)) a r r'" "be_random t = be_random s" "be_drawn t = be_drawn s"
      "be_objs t = (be_objs s)[k := (be_objs s ! k)\<lparr>ro_done := True\<rparr>]"
    using runtime_terminal_state [OF assms(2) f] k by auto
  then show ?thesis
    using k by (simp add: ends_one_def runtime_stored_def settled_record_def)
qed

end

sublocale prompt_kv \<subseteq> runtime_isolated: isolated_reserver "runtime_reserver (rt_ledger tenant)" "runtime_quiet lookup tenant"
  "runtime_used lookup tenant" "runtime_limit lookup tenant" "runtime_held lookup tenant"
  "\<lambda>s. obj_finished (be_objs s)" max_int64 "ids_apart hex_name" for tenant
proof (unfold_locales, goal_cases)
  case (1 s e res s')
  note add = runtime_reserve_may_add [OF 1(1) 1(3) [simplified]]
  have "runtime_held lookup tenant s h = None \<and> \<not> obj_finished (be_objs s) h" if "res = Inr h" for h
    using add that by (simp add: runtime_held_stored)
  then show ?case using may_add_apart [OF 1(2) conjunct1 [OF add]] by blast
next
  case (2 s e res s' h r)
  note add = runtime_reserve_may_add [OF 2(1) 2(3) [simplified]]
  show ?case
    using may_add_others [OF 2(2) conjunct1 [OF add], where h = h] by (simp add: runtime_held_stored)
next
  case (3 s k q a s' h r)
  have "once k (\<lambda>i. runtime_update (rt_ledger tenant) background (commit_callback i (clamp0 a))) s = (None, s')"
    using 3(5) by (simp add: runtime_commit_def)
  note ends = runtime_once_ends [OF 3(3) this commit_callback_ok [OF _ clamp0_nonneg]]
  show ?case
    using ends_one_apart [OF 3(2) ends] ends_one_others [OF 3(2) ends, where h = h] by (simp add: runtime_held_stored)
next
  case (4 s k q s' h r)
  have "once k (\<lambda>i. runtime_update (rt_ledger tenant) background (release_callback i)) s = (None, s')"
    using 4(5) by (simp add: runtime_release_def)
  note ends = runtime_once_ends [OF 4(3) this release_callback_ok]
  show ?case
    using ends_one_apart [OF 4(2) ends] ends_one_others [OF 4(2) ends, where h = h] by (simp add: runtime_held_stored)
qed

section \<open>All ledgers agree\<close>

text \<open>A client of the ledger gets the answers of the abstract budget, and uses as much.\<close>

definition agrees :: "('s, 'h) reserver \<Rightarrow> ('s \<Rightarrow> int) \<Rightarrow> 's \<Rightarrow> call list \<Rightarrow> int \<Rightarrow> bool" where
  "agrees R used s cs k \<longleftrightarrow> client_answers R cs s = spec_answers cs (new_budget k)
     \<and> used (client_state R cs s) = bg_used (spec_run cs (new_budget k))"

lemma ids_apart_new:
  assumes "fresh_ids used s" and "be_objs s = []"
  shows "ids_apart hex_name s"
  using assms by (auto simp: ids_apart_def fresh_ids_def hex_encode_inj) (metis less_imp_le order_trans less_irrefl)

lemma pg_quiet_apart: "pg_quiet l s \<Longrightarrow> be_objs s = [] \<Longrightarrow> ids_apart hex_name s"
  unfolding pg_quiet_def by (elim conjE) (rule ids_apart_new)

lemma wallet_quiet_apart: "wallet_quiet l s \<Longrightarrow> be_objs s = [] \<Longrightarrow> ids_apart hex_name s"
  unfolding wallet_quiet_def by (elim conjE) (rule ids_apart_new)

lemma runtime_quiet_apart: "runtime_quiet lookup tenant s \<Longrightarrow> be_objs s = [] \<Longrightarrow> ids_apart hex_name s"
  unfolding runtime_quiet_def by (elim conjE exE) (rule ids_apart_new)

lemma local_new_agrees:
  assumes "modest_run max_int64 cs (new_budget k)" and "sint lim = k" and "0 \<le> k"
  shows "agrees local_ledger local_used (new_local lim c now) cs k"
  unfolding agrees_def using assms by (intro local_isolated.fresh_agrees) simp_all

lemma pg_new_agrees:
  assumes "modest_run max_int64 cs (new_budget k)" and "pg_quiet l s" and "be_objs s = []"
    and "pg_used (pl_scope l) (be_data s) = 0" and "pg_limit (pl_scope l) (be_data s) = k" and "0 \<le> k"
  shows "agrees (pg_reserver l) (\<lambda>s. pg_used (pl_scope l) (be_data s)) s cs k"
  unfolding agrees_def using assms pg_quiet_apart by (intro pg_isolated.fresh_agrees) simp_all

lemma wallet_new_agrees:
  assumes "modest_run max_int64 cs (new_budget (int k))" and "wallet_quiet l s" and "be_objs s = []"
    and "bal (wl_wallet l) (be_data s) - hold (wl_wallet l) (be_data s) = int k"
  shows "agrees (wallet_reserver l) (wallet_used (int k) l) s cs (int k)"
  unfolding agrees_def
  using assms wallet_quiet_apart by (intro wallet_isolated.fresh_agrees) (simp_all add: wallet_used_def)

lemma redis_new_agrees:
  assumes "modest_run redis_cap cs (new_budget k)" and "redis_quiet l s" and "ids_apart (redis_name clock) s"
    and "redis_used s = 0" and "sint (rl_limit l) = k" and "0 \<le> k"
  shows "agrees (redis_reserver clock l) redis_used s cs k"
  unfolding agrees_def using assms by (intro redis_isolated.fresh_agrees) simp_all

context prompt_kv
begin

lemma runtime_new_agrees:
  assumes "modest_run max_int64 cs (new_budget k)" and "runtime_quiet lookup tenant s" and "be_objs s = []"
    and "runtime_used lookup tenant s = 0" and "runtime_limit lookup tenant s = k" and "0 \<le> k"
  shows "agrees (runtime_reserver (rt_ledger tenant)) (runtime_used lookup tenant) s cs k"
  unfolding agrees_def using assms runtime_quiet_apart by (intro runtime_isolated.fresh_agrees) simp_all

end

text \<open>
  C3.  The five ledgers agree.  A client that reserves, commits and releases in any order,
  on any of its reservations and as often as it likes, gets the same answers from the local
  ledger, PostgreSQL, a wallet, Redis and the runtime budget, when each is fresh, has the
  same limit and a server on which nothing fails or expires: the answers of the abstract
  budget, whose use is also the use of each ledger in the end.  The client's estimates are
  above zero and at most \<open>MaxInt64 / 2\<close>; the use plus each estimate, also one that is denied,
  is within 2 to the 52, which Redis counts exactly; and no commit brings the use above the
  limit, which a wallet would refuse and the others accept.
\<close>

theorem backends_agree:
  assumes "modest_run redis_cap cs (new_budget (int k))" and "sint lim = int k"
    and pg: "pg_quiet pl p" "be_objs p = []" "pg_used (pl_scope pl) (be_data p) = 0"
      "pg_limit (pl_scope pl) (be_data p) = int k"
    and wallet: "wallet_quiet wl w" "be_objs w = []"
      "bal (wl_wallet wl) (be_data w) - hold (wl_wallet wl) (be_data w) = int k"
    and redis: "redis_quiet rl r" "ids_apart (redis_name clock) r" "redis_used r = 0" "sint (rl_limit rl) = int k"
    and runtime: "prompt_kv update lookup" "runtime_quiet lookup tenant v" "be_objs v = []"
      "runtime_used lookup tenant v = 0" "runtime_limit lookup tenant v = int k"
  shows "agrees local_ledger local_used (new_local lim c now) cs (int k)
    \<and> agrees (pg_reserver pl) (\<lambda>s. pg_used (pl_scope pl) (be_data s)) p cs (int k)
    \<and> agrees (wallet_reserver wl) (wallet_used (int k) wl) w cs (int k)
    \<and> agrees (redis_reserver clock rl) redis_used r cs (int k)
    \<and> agrees (runtime_reserver \<lparr>rt_kv = Some update, rt_tenant = tenant\<rparr>) (runtime_used lookup tenant) v cs (int k)"
proof -
  have modest: "modest_run max_int64 cs (new_budget (int k))"
    using assms(1) by (rule modest_run_mono) simp
  show ?thesis
    using assms(1,2) modest
    by (intro conjI local_new_agrees pg_new_agrees [OF _ pg] wallet_new_agrees [OF _ wallet]
        redis_new_agrees [OF _ redis] prompt_kv.runtime_new_agrees [OF runtime(1) _ runtime(2-5)]) simp_all
qed

text \<open>
  A limit of 100: an estimate that is refused and fits after a commit, terminal calls
  that are repeated or follow each other, and a reservation nobody was given.
\<close>

definition agreement_calls :: "call list" where
  "agreement_calls = [CallReserve 60, CallReserve 50, CallCommit 0 40, CallReserve 50, CallRelease 0, CallRelease 1,
     CallCommit 1 90, CallReserve 61, CallReserve 60, CallRelease 5, CallCommit 2 50]"

definition distinct_server :: "'d \<Rightarrow> 'd backend" where
  "distinct_server d = (empty_server d [])\<lparr>be_random := \<lambda>n. Some (replicate n 0 @ [1])\<rparr>"

lemma distinct_server_apart: "ids_apart (redis_name (\<lambda>_. 0)) (distinct_server d)"
  using le_uint64_distinct
  by (auto simp: ids_apart_def distinct_server_def empty_server_def redis_id_def
      dest: arg_cong [where f = length] simp: length_hex_nat)

lemma agreement_budget:
  "modest_run redis_cap agreement_calls (new_budget 100)"
  "spec_answers agreement_calls (new_budget 100)
     = [True, False, True, True, True, True, True, False, True, False, True]"
  "bg_used (spec_run agreement_calls (new_budget 100)) = 90"
  by (simp_all add: agreement_calls_def new_budget_def spec_fits_def sint_MaxEstimate)

lemma sample_pg_quiet: "pg_quiet sample_ledger (empty_server sample_db [])"
proof -
  have "currency_string USD = ''USD''" by code_simp
  then show ?thesis
    by (simp add: pg_quiet_def pg_inv_def pg_valid_def good_leases_def pg_limit_def pg_used_def no_lost_def objs_owned_def
        fresh_counting)
qed

lemma distinct_redis_quiet: "redis_quiet sample_redis (distinct_server empty_redis)"
  using empty_redis_quiet
  by (simp add: redis_quiet_def redis_inv_def redis_calm_def redis_serves_def distinct_server_def no_lost_def)

theorem backends_agree_witness:
  "client_answers local_ledger agreement_calls (new_local 100 USD 0)
     = [True, False, True, True, True, True, True, False, True, False, True]
   \<and> client_answers (pg_reserver sample_ledger) agreement_calls (empty_server sample_db [])
     = [True, False, True, True, True, True, True, False, True, False, True]
   \<and> wallet_used 100 sample_wallet (client_state (wallet_reserver sample_wallet) agreement_calls (sample_server [])) = 90
   \<and> redis_used (client_state (redis_reserver (\<lambda>_. 0) sample_redis) agreement_calls (distinct_server empty_redis)) = 90
   \<and> runtime_used (\<lambda>k. k) ''acme'' (client_state (runtime_reserver \<lparr>rt_kv = Some mem_update, rt_tenant = ''acme''\<rparr>)
       agreement_calls acme) = 90"
proof -
  have "agrees local_ledger local_used (new_local 100 USD 0) agreement_calls (int 100)
    \<and> agrees (pg_reserver sample_ledger) (\<lambda>s. pg_used (pl_scope sample_ledger) (be_data s)) (empty_server sample_db [])
        agreement_calls (int 100)
    \<and> agrees (wallet_reserver sample_wallet) (wallet_used (int 100) sample_wallet) (sample_server []) agreement_calls (int 100)
    \<and> agrees (redis_reserver (\<lambda>_. 0) sample_redis) redis_used (distinct_server empty_redis) agreement_calls (int 100)
    \<and> agrees (runtime_reserver \<lparr>rt_kv = Some mem_update, rt_tenant = ''acme''\<rparr>) (runtime_used (\<lambda>k. k) ''acme'') acme
        agreement_calls (int 100)"
    by (rule backends_agree)
      (use agreement_budget(1) sample_pg_quiet sample_quiet distinct_redis_quiet distinct_server_apart acme_facts mem.prompt_kv_axioms in
        \<open>simp_all add: pg_used_def pg_limit_def bal_def hold_def sample_wallet_db_def empty_redis_ok
          distinct_server_def sample_redis_def redis_new_def\<close>)
  then show ?thesis
    using agreement_budget(2,3) by (simp add: agrees_def)
qed

end
