(* ===== verification/PgConcurrent.thy ===== *)
theory PgConcurrent
  imports PostgresSpec
begin

text \<open>
  Clients that share one scope of the PostgreSQL ledger (\<open>adapters/postgres/ledger.go\<close>), one
  SQL statement at a time.  A transaction of PostgreSQL at its default level reads what is
  committed, locks the rows that it writes or selects \<open>FOR UPDATE\<close> until it ends, and waits for
  a row that another one has locked: a step that needs a row is possible only while no other
  transaction has it.  Any transaction may be rolled back at any time, by an error, a
  cancelled context, a lost connection, or as the victim of a deadlock.
\<close>

section \<open>Transactions\<close>

text \<open>
  What \<open>Reserve\<close> knows: the start of the transaction, which is \<open>CURRENT_TIMESTAMP\<close> in all of
  its statements, the identifier and the estimate, what it has read of the budget row, and
  the expired reservations that its \<open>DELETE\<close> has found so far.
\<close>

record reserve_tx =
  rs_now :: int
  rs_id :: string
  rs_estimate :: i64
  rs_used :: i64
  rs_limit :: i64
  rs_deleted :: "lease list"

text \<open>
  Where a client is.  \<open>Reserve\<close>: before the \<open>SELECT ... FOR UPDATE\<close>, in the \<open>DELETE\<close> of the
  expired reservations, before the check of the limit, and before \<open>COMMIT\<close>.  A terminal call
  (\<open>Some\<close> actual cost for \<open>Commit\<close>, \<open>None\<close> for \<open>Release\<close>): before the \<open>DELETE\<close>, before the
  \<open>UPDATE\<close> of the budget, and before \<open>COMMIT\<close>.
\<close>

datatype txn =
    NoTx
  | Loading int string i64
  | Reclaiming reserve_tx
  | Deciding reserve_tx
  | Inserted reserve_tx
  | Taking int string "i64 option"
  | Taken int lease "i64 option"
  | Settled int lease "i64 option" i64

text \<open>The locks: the reservations a transaction has deleted, and the budget row.\<close>

fun tx_deleted :: "txn \<Rightarrow> lease list" where
  "tx_deleted (Reclaiming r) = rs_deleted r"
| "tx_deleted (Deciding r) = rs_deleted r"
| "tx_deleted (Inserted r) = rs_deleted r"
| "tx_deleted (Taken t x a) = [x]"
| "tx_deleted (Settled t x a v) = [x]"
| "tx_deleted _ = []"

fun tx_budget :: "txn \<Rightarrow> bool" where
  "tx_budget (Reclaiming r) = True"
| "tx_budget (Deciding r) = True"
| "tx_budget (Inserted r) = True"
| "tx_budget (Settled t x a v) = True"
| "tx_budget _ = False"

text \<open>
  The committed data, the clock, the transactions of the clients, and for the proofs only
  what all committed terminal calls have charged and whether one charged more than its
  reservation.
\<close>

record pg_conc =
  pc_db :: pg_db
  pc_now :: int
  pc_txs :: "txn list"
  pc_charged :: int
  pc_overrun :: bool

abbreviation set_tx :: "nat \<Rightarrow> txn \<Rightarrow> pg_conc \<Rightarrow> pg_conc" where
  "set_tx i p s \<equiv> s\<lparr>pc_txs := (pc_txs s)[i := p]\<rparr>"

definition budget_free :: "pg_conc \<Rightarrow> bool" where
  "budget_free s \<longleftrightarrow> list_all (\<lambda>p. \<not> tx_budget p) (pc_txs s)"

definition lease_free :: "lease \<Rightarrow> pg_conc \<Rightarrow> bool" where
  "lease_free x s \<longleftrightarrow> list_all (\<lambda>p. x \<notin> set (tx_deleted p)) (pc_txs s)"

section \<open>What a transaction writes\<close>

definition drop_leases :: "lease list \<Rightarrow> pg_db \<Rightarrow> pg_db" where
  "drop_leases xs db = db\<lparr>pg_leases := filter (\<lambda>x. x \<notin> set xs) (pg_leases db)\<rparr>"

text \<open>The reclaim of \<open>loadBudgetAndReclaim\<close>, with \<open>used\<close> after the subtraction.\<close>

definition reclaim_write :: "string \<Rightarrow> reserve_tx \<Rightarrow> pg_db \<Rightarrow> pg_db" where
  "reclaim_write scope r db =
     (let db = drop_leases (rs_deleted r) db in
      if 0 < sum_leases (rs_deleted r) then sql_set_used scope (rs_used r) (rs_now r) db else db)"

definition reserve_write :: "pg_ledger \<Rightarrow> reserve_tx \<Rightarrow> pg_db \<Rightarrow> pg_db" where
  "reserve_write l r db =
     (let db = reclaim_write (pl_scope l) r db;
          db = db\<lparr>pg_leases := pg_leases db @ [new_lease l (rs_id r) (rs_estimate r) (rs_now r)]\<rparr> in
      sql_set_used (pl_scope l) (rs_used r + rs_estimate r) (rs_now r) db)"

definition settle_write :: "string \<Rightarrow> int \<Rightarrow> lease \<Rightarrow> i64 \<Rightarrow> pg_db \<Rightarrow> pg_db" where
  "settle_write scope t x v db = sql_set_used scope v t (drop_leases [x] db)"

text \<open>What a terminal call adds to the counter, and what it charges.\<close>

definition settle_delta :: "lease \<Rightarrow> i64 option \<Rightarrow> int" where
  "settle_delta x a = (case a of Some c \<Rightarrow> sint (clamp0 c - le_amount x) | None \<Rightarrow> - sint (le_amount x))"

definition settle_charge :: "i64 option \<Rightarrow> int" where
  "settle_charge a = (case a of Some c \<Rightarrow> max 0 (sint c) | None \<Rightarrow> 0)"

text \<open>\<open>used\<close> after the reclaim.\<close>

definition reclaimed_used :: "reserve_tx \<Rightarrow> i64" where
  "reclaimed_used r = (let reclaimed = sum_leases (rs_deleted r) in
     if 0 < reclaimed then rs_used r - word_of_int reclaimed else rs_used r)"

text \<open>The check of the limit.\<close>

definition over_limit :: "reserve_tx \<Rightarrow> bool" where
  "over_limit r \<longleftrightarrow> 0 \<le>s rs_limit r \<and> rs_limit r - rs_estimate r <s rs_used r"

section \<open>Steps\<close>

inductive pg_step :: "pg_ledger \<Rightarrow> pg_conc \<Rightarrow> pg_conc \<Rightarrow> bool" for l :: pg_ledger where
  begin_reserve:
    "i < length (pc_txs s) \<Longrightarrow> pc_txs s ! i = NoTx \<Longrightarrow> \<not> e <s 0 \<Longrightarrow> \<not> MaxEstimate <s e \<Longrightarrow>
     pg_step l s (set_tx i (Loading (pc_now s) k e) s)"
| load:
    "i < length (pc_txs s) \<Longrightarrow> pc_txs s ! i = Loading t k e \<Longrightarrow> budget_free s \<Longrightarrow>
     pg_budgets (pc_db s) (pl_scope l) = Some row \<Longrightarrow> br_currency row = currency_string (pl_currency l) \<Longrightarrow>
     pg_step l s (set_tx i (Reclaiming \<lparr>rs_now = t, rs_id = k, rs_estimate = e, rs_used = br_used row,
       rs_limit = br_limit row, rs_deleted = []\<rparr>) s)"
| reclaim_row:
    "i < length (pc_txs s) \<Longrightarrow> pc_txs s ! i = Reclaiming r \<Longrightarrow> x \<in> set (pg_leases (pc_db s)) \<Longrightarrow>
     lease_expired (pl_scope l) (rs_now r) x \<Longrightarrow> lease_free x s \<Longrightarrow>
     pg_step l s (set_tx i (Reclaiming (r\<lparr>rs_deleted := rs_deleted r @ [x]\<rparr>)) s)"
| reclaim_end:
    "i < length (pc_txs s) \<Longrightarrow> pc_txs s ! i = Reclaiming r \<Longrightarrow>
     list_all (\<lambda>x. lease_expired (pl_scope l) (rs_now r) x \<longrightarrow> x \<in> set (rs_deleted r)) (pg_leases (pc_db s)) \<Longrightarrow>
     in_int64 (sum_leases (rs_deleted r)) \<Longrightarrow>
     pg_step l s (set_tx i (Deciding (r\<lparr>rs_used := reclaimed_used r\<rparr>)) s)"
| deny:
    "i < length (pc_txs s) \<Longrightarrow> pc_txs s ! i = Deciding r \<Longrightarrow>
     over_limit r \<Longrightarrow>
     pg_step l s (set_tx i NoTx (s\<lparr>pc_db := reclaim_write (pl_scope l) r (pc_db s)\<rparr>))"
| insert:
    "i < length (pc_txs s) \<Longrightarrow> pc_txs s ! i = Deciding r \<Longrightarrow>
     \<not> over_limit r \<Longrightarrow>
     list_all (\<lambda>x. le_id x = rs_id r \<longrightarrow> x \<in> set (rs_deleted r)) (pg_leases (pc_db s)) \<Longrightarrow>
     pg_step l s (set_tx i (Inserted r) s)"
| commit_reserve:
    "i < length (pc_txs s) \<Longrightarrow> pc_txs s ! i = Inserted r \<Longrightarrow>
     pg_step l s (set_tx i NoTx (s\<lparr>pc_db := reserve_write l r (pc_db s)\<rparr>))"
| begin_terminal:
    "i < length (pc_txs s) \<Longrightarrow> pc_txs s ! i = NoTx \<Longrightarrow>
     pg_step l s (set_tx i (Taking (pc_now s) k a) s)"
| take_row:
    "i < length (pc_txs s) \<Longrightarrow> pc_txs s ! i = Taking t k a \<Longrightarrow> x \<in> set (pg_leases (pc_db s)) \<Longrightarrow>
     le_id x = k \<Longrightarrow> le_owner x = pl_scope l \<Longrightarrow> lease_free x s \<Longrightarrow>
     pg_step l s (set_tx i (Taken t x a) s)"
| settle_budget:
    "i < length (pc_txs s) \<Longrightarrow> pc_txs s ! i = Taken t x a \<Longrightarrow> budget_free s \<Longrightarrow>
     pg_budgets (pc_db s) (pl_scope l) = Some row \<Longrightarrow> in_int64 (sint (br_used row) + settle_delta x a) \<Longrightarrow>
     pg_step l s (set_tx i (Settled t x a (word_of_int (sint (br_used row) + settle_delta x a))) s)"
| commit_terminal:
    "i < length (pc_txs s) \<Longrightarrow> pc_txs s ! i = Settled t x a v \<Longrightarrow>
     pg_step l s (set_tx i NoTx (s\<lparr>pc_db := settle_write (pl_scope l) t x v (pc_db s),
       pc_charged := pc_charged s + settle_charge a,
       pc_overrun := (pc_overrun s \<or> sint (le_amount x) < settle_charge a)\<rparr>))"
| rollback:
    "i < length (pc_txs s) \<Longrightarrow> pg_step l s (set_tx i NoTx s)"
| tick:
    "pg_step l s (s\<lparr>pc_now := pc_now s + int n\<rparr>)"

inductive_cases pg_stepE: "pg_step l s t"

inductive pg_reach :: "pg_ledger \<Rightarrow> pg_conc \<Rightarrow> pg_conc \<Rightarrow> bool" for l s where
  start: "pg_reach l s s"
| step: "pg_reach l s t \<Longrightarrow> pg_step l t u \<Longrightarrow> pg_reach l s u"

text \<open>\<open>n\<close> clients on a database whose counter is what its open reservations hold and \<open>charged\<close>.\<close>

definition pg_conc_init :: "pg_db \<Rightarrow> int \<Rightarrow> int \<Rightarrow> nat \<Rightarrow> pg_conc" where
  "pg_conc_init db now charged n =
     \<lparr>pc_db = db, pc_now = now, pc_txs = replicate n NoTx, pc_charged = charged, pc_overrun = False\<rparr>"

section \<open>The invariant\<close>

text \<open>The rows a transaction has locked are committed rows of the scope; no other can remove them.\<close>

definition deleted_ok :: "string \<Rightarrow> pg_db \<Rightarrow> lease list \<Rightarrow> bool" where
  "deleted_ok scope db xs \<longleftrightarrow> distinct xs \<and> set xs \<subseteq> set (pg_leases db) \<and> (\<forall>x\<in>set xs. le_owner x = scope)"

definition reserve_ok :: "string \<Rightarrow> pg_db \<Rightarrow> reserve_tx \<Rightarrow> bool" where
  "reserve_ok scope db r \<longleftrightarrow> 0 \<le> sint (rs_estimate r) \<and> sint (rs_limit r) = pg_limit scope db
     \<and> deleted_ok scope db (rs_deleted r)"

fun tx_ok :: "string \<Rightarrow> pg_db \<Rightarrow> txn \<Rightarrow> bool" where
  "tx_ok scope db (Loading t k e) \<longleftrightarrow> 0 \<le> sint e"
| "tx_ok scope db (Reclaiming r) \<longleftrightarrow> reserve_ok scope db r \<and> sint (rs_used r) = pg_used scope db"
| "tx_ok scope db (Deciding r) \<longleftrightarrow> reserve_ok scope db r
     \<and> sint (rs_used r) = pg_used scope db - sum_leases (rs_deleted r)"
| "tx_ok scope db (Inserted r) \<longleftrightarrow> reserve_ok scope db r
     \<and> sint (rs_used r) = pg_used scope db - sum_leases (rs_deleted r)
     \<and> sint (rs_used r) + sint (rs_estimate r) \<le> pg_limit scope db
     \<and> (\<forall>x\<in>set (pg_leases db). le_id x = rs_id r \<longrightarrow> x \<in> set (rs_deleted r))"
| "tx_ok scope db (Taken t x a) \<longleftrightarrow> deleted_ok scope db [x]"
| "tx_ok scope db (Settled t x a v) \<longleftrightarrow> deleted_ok scope db [x] \<and> sint v = pg_used scope db + settle_delta x a"
| "tx_ok scope db _ \<longleftrightarrow> True"

text \<open>Two transactions hold no lock in common.\<close>

definition apart_txs :: "txn \<Rightarrow> txn \<Rightarrow> bool" where
  "apart_txs p q \<longleftrightarrow> \<not> (tx_budget p \<and> tx_budget q) \<and> set (tx_deleted p) \<inter> set (tx_deleted q) = {}"

definition books_ok :: "string \<Rightarrow> pg_db \<Rightarrow> int \<Rightarrow> bool \<Rightarrow> bool" where
  "books_ok scope db charged overrun \<longleftrightarrow> pg_valid scope db \<and> 0 \<le> charged
     \<and> pg_used scope db = charged + owed scope (pg_leases db)
     \<and> (\<not> overrun \<longrightarrow> pg_used scope db \<le> pg_limit scope db)"

definition conc_inv :: "string \<Rightarrow> pg_conc \<Rightarrow> bool" where
  "conc_inv scope s \<longleftrightarrow> books_ok scope (pc_db s) (pc_charged s) (pc_overrun s)
     \<and> (\<forall>i<length (pc_txs s). tx_ok scope (pc_db s) (pc_txs s ! i))
     \<and> (\<forall>i<length (pc_txs s). \<forall>j<length (pc_txs s). i \<noteq> j \<longrightarrow> apart_txs (pc_txs s ! i) (pc_txs s ! j))"

lemma apart_sym: "apart_txs p q \<longleftrightarrow> apart_txs q p"
  by (auto simp: apart_txs_def)

lemma apart_NoTx [simp]: "apart_txs NoTx q" "apart_txs q NoTx"
  by (simp_all add: apart_txs_def)

text \<open>A step that changes only the state of its own transaction.\<close>

lemma conc_inv_set_tx:
  assumes inv: "conc_inv scope s" and i: "i < length (pc_txs s)" and ok: "tx_ok scope (pc_db s) p"
    and b: "tx_budget p \<Longrightarrow> tx_budget (pc_txs s ! i) \<or> budget_free s"
    and d: "\<And>x. x \<in> set (tx_deleted p) \<Longrightarrow> x \<in> set (tx_deleted (pc_txs s ! i)) \<or> lease_free x s"
  shows "conc_inv scope (set_tx i p s)"
proof -
  have "apart_txs p (pc_txs s ! j)" if j: "j < length (pc_txs s)" "j \<noteq> i" for j
  proof -
    have "apart_txs (pc_txs s ! i) (pc_txs s ! j)" using inv i j by (simp add: conc_inv_def)
    then show ?thesis
      using b d j(1) by (fastforce simp: apart_txs_def budget_free_def lease_free_def list_all_length)
  qed
  then show ?thesis
    using inv i ok by (auto simp: conc_inv_def nth_list_update apart_sym)
qed

text \<open>A step that commits: the other transactions do not hold the budget row.\<close>

lemma conc_inv_commit:
  assumes inv: "conc_inv scope s" and i: "i < length (pc_txs s)" and b: "tx_budget (pc_txs s ! i)"
    and books: "books_ok scope db charged overrun"
    and keep: "\<And>x. x \<in> set (pg_leases (pc_db s)) \<Longrightarrow> x \<notin> set (tx_deleted (pc_txs s ! i)) \<Longrightarrow> x \<in> set (pg_leases db)"
  shows "conc_inv scope (set_tx i NoTx (s\<lparr>pc_db := db, pc_charged := charged, pc_overrun := overrun\<rparr>))"
proof -
  have "tx_ok scope db (pc_txs s ! j)" if j: "j < length (pc_txs s)" "j \<noteq> i" for j
  proof -
    have ap: "apart_txs (pc_txs s ! i) (pc_txs s ! j)" and ok: "tx_ok scope (pc_db s) (pc_txs s ! j)"
      using inv i j by (simp_all add: conc_inv_def)
    then show ?thesis
      using b keep by (cases "pc_txs s ! j") (auto simp: apart_txs_def deleted_ok_def)
  qed
  then show ?thesis
    using inv i books by (auto simp: conc_inv_def nth_list_update)
qed

section \<open>What the writes do to the books\<close>

lemma drop_leases_simps [simp]:
  "pg_leases (drop_leases xs db) = filter (\<lambda>x. x \<notin> set xs) (pg_leases db)"
  "pg_budgets (drop_leases xs db) = pg_budgets db"
  "pg_used scope (drop_leases xs db) = pg_used scope db" "pg_limit scope (drop_leases xs db) = pg_limit scope db"
  by (simp_all add: drop_leases_def pg_used_def pg_limit_def)

lemma sum_leases_filter:
  "sum_leases rows = sum_leases (filter p rows) + sum_leases (filter (\<lambda>x. \<not> p x) rows)"
  by (induction rows) (auto simp: sum_leases_def)

lemma owed_drop:
  assumes "deleted_ok scope db xs" and "good_leases (pg_leases db)"
  shows "owed scope (filter (\<lambda>x. x \<notin> set xs) (pg_leases db)) = owed scope (pg_leases db) - sum_leases xs"
    and "0 \<le> sum_leases xs" and "sum_leases xs \<le> owed scope (pg_leases db)"
proof -
  let ?rows = "owned scope (pg_leases db)"
  have dist: "distinct (pg_leases db)" using assms(2) by (simp add: good_leases_def distinct_map)
  have "set (filter (\<lambda>x. x \<in> set xs) ?rows) = set xs"
    using assms(1) by (auto simp: deleted_ok_def owned_def)
  then have "sum_leases (filter (\<lambda>x. x \<in> set xs) ?rows) = sum_leases xs"
    using assms(1) dist
    by (simp add: sum_leases_def sum_list_distinct_conv_sum_set owned_def deleted_ok_def)
  moreover have "owed scope (filter (\<lambda>x. x \<notin> set xs) (pg_leases db)) = sum_leases (filter (\<lambda>x. x \<notin> set xs) ?rows)"
    by (simp add: owed_def owned_def conj_commute)
  ultimately show eq: "owed scope (filter (\<lambda>x. x \<notin> set xs) (pg_leases db)) = owed scope (pg_leases db) - sum_leases xs"
    using sum_leases_filter [of ?rows "\<lambda>x. x \<in> set xs"] by (simp add: owed_def)
  show "0 \<le> sum_leases xs"
    using assms unfolding sum_leases_def
    by (intro sum_list_nonneg_int) (auto simp: deleted_ok_def good_leases_def)
  show "sum_leases xs \<le> owed scope (pg_leases db)"
    using eq owed_nonneg [OF good_leases_filter [OF assms(2)], of scope "\<lambda>x. x \<notin> set xs"] by simp
qed

text \<open>The counter and the leases after a write, on a scope that has a row.\<close>

lemma set_used_books:
  assumes "pg_budgets db scope \<noteq> None"
  shows "pg_used scope (sql_set_used scope v t db) = sint v"
    and "pg_limit scope (sql_set_used scope v t db) = pg_limit scope db"
    and "pg_leases (sql_set_used scope v t db) = pg_leases db"
    and "pg_budgets (sql_set_used scope v t db) scope \<noteq> None"
  using assms by (auto simp: sql_set_used_def pg_used_def pg_limit_def split: option.split)

lemma books_okI:
  assumes "books_ok scope db c ov" and "pg_budgets db' scope \<noteq> None" and "pg_limit scope db' = pg_limit scope db"
    and "good_leases (pg_leases db')" and "pg_used scope db' = c' + owed scope (pg_leases db')" and "0 \<le> c'"
    and "\<not> ov' \<Longrightarrow> pg_used scope db' \<le> pg_limit scope db"
  shows "books_ok scope db' c' ov'"
  using assms by (auto simp: books_ok_def pg_valid_def)

lemma reclaim_write_books:
  assumes books: "books_ok scope db c ov" and del: "deleted_ok scope db (rs_deleted r)"
    and used: "sint (rs_used r) = pg_used scope db - sum_leases (rs_deleted r)"
  defines "db' \<equiv> reclaim_write scope r db"
  shows "books_ok scope db' c ov" and "pg_used scope db' = sint (rs_used r)"
    and "pg_leases db' = filter (\<lambda>x. x \<notin> set (rs_deleted r)) (pg_leases db)"
    and "pg_limit scope db' = pg_limit scope db" and "pg_budgets db' scope \<noteq> None"
proof -
  have good: "good_leases (pg_leases db)" and row: "pg_budgets (drop_leases (rs_deleted r) db) scope \<noteq> None"
    using books by (auto simp: books_ok_def pg_valid_def)
  note d = owed_drop [OF del good] and set = set_used_books [OF row]
  show u: "pg_used scope db' = sint (rs_used r)"
    using set used d(2) by (auto simp: db'_def reclaim_write_def Let_def)
  show l: "pg_leases db' = filter (\<lambda>x. x \<notin> set (rs_deleted r)) (pg_leases db)"
    using set by (simp add: db'_def reclaim_write_def Let_def)
  show lim: "pg_limit scope db' = pg_limit scope db" and b: "pg_budgets db' scope \<noteq> None"
    using set row by (simp_all add: db'_def reclaim_write_def Let_def)
  show "books_ok scope db' c ov"
    by (rule books_okI [OF books b lim])
      (use books u l d used good_leases_filter [OF good] in \<open>auto simp: books_ok_def\<close>)
qed

lemma reserve_write_books:
  assumes books: "books_ok (pl_scope l) db c ov" and ok: "tx_ok (pl_scope l) db (Inserted r)"
  shows "books_ok (pl_scope l) (reserve_write l r db) c ov"
    and "pg_leases (reserve_write l r db) = filter (\<lambda>x. x \<notin> set (rs_deleted r)) (pg_leases db)
      @ [new_lease l (rs_id r) (rs_estimate r) (rs_now r)]"
proof -
  let ?scope = "pl_scope l" and ?x = "new_lease l (rs_id r) (rs_estimate r) (rs_now r)"
  have r: "reserve_ok ?scope db r" "sint (rs_used r) = pg_used ?scope db - sum_leases (rs_deleted r)"
    "sint (rs_used r) + sint (rs_estimate r) \<le> pg_limit ?scope db"
    "\<forall>x\<in>set (pg_leases db). le_id x = rs_id r \<longrightarrow> x \<in> set (rs_deleted r)"
    using ok by simp_all
  have del: "deleted_ok ?scope db (rs_deleted r)" and e: "0 \<le> sint (rs_estimate r)"
    using r(1) by (simp_all add: reserve_ok_def)
  define db1 where "db1 = reclaim_write ?scope r db"
  define db2 where "db2 = db1\<lparr>pg_leases := pg_leases db1 @ [?x]\<rparr>"
  note rec = reclaim_write_books [OF books del r(2), folded db1_def]
  have row: "pg_budgets db2 ?scope \<noteq> None" using rec(5) by (simp add: db2_def)
  note set = set_used_books [OF row, of "rs_used r + rs_estimate r" "rs_now r"]
  have eq: "reserve_write l r db = sql_set_used ?scope (rs_used r + rs_estimate r) (rs_now r) db2"
    by (simp add: reserve_write_def db1_def db2_def Let_def)
  show leases: "pg_leases (reserve_write l r db) = filter (\<lambda>x. x \<notin> set (rs_deleted r)) (pg_leases db) @ [?x]"
    using set(3) rec(3) by (simp add: eq) (simp add: db2_def)
  have good: "good_leases (pg_leases db1)" and owed: "pg_used ?scope db1 = c + owed ?scope (pg_leases db1)"
    using rec(1) by (simp_all add: books_ok_def pg_valid_def)
  have "0 \<le> sint (rs_used r)"
    using rec(1,2) owed_nonneg [OF good, of ?scope] by (auto simp: books_ok_def)
  moreover have "pg_limit ?scope db \<le> max_int64"
    using sint_upper by (auto simp: pg_limit_def split: option.split)
  ultimately have sum: "sint (rs_used r + rs_estimate r) = sint (rs_used r) + sint (rs_estimate r)"
    using r(3) e by (intro sint_add_i64) simp_all
  have "good_leases (pg_leases (reserve_write l r db))"
    using good e r(4) by (auto simp: leases rec(3) good_leases_def)
  moreover have "pg_limit ?scope (reserve_write l r db) = pg_limit ?scope db"
    using set(2) rec(4) by (simp add: eq) (simp add: db2_def pg_limit_def)
  moreover have "pg_used ?scope (reserve_write l r db) = sint (rs_used r) + sint (rs_estimate r)"
    "pg_budgets (reserve_write l r db) ?scope \<noteq> None"
    using set(1,4) sum by (simp_all add: eq)
  moreover have "owed ?scope (pg_leases (reserve_write l r db)) = owed ?scope (pg_leases db1) + sint (rs_estimate r)"
    by (simp add: leases rec(3))
  ultimately show "books_ok ?scope (reserve_write l r db) c ov"
    using owed rec(2) books r(3) by (intro books_okI [OF books]) (simp_all add: books_ok_def)
qed

lemma settle_write_books:
  assumes books: "books_ok scope db c ov" and del: "deleted_ok scope db [x]"
    and v: "sint v = pg_used scope db + settle_delta x a"
  shows "books_ok scope (settle_write scope t x v db) (c + settle_charge a) (ov \<or> sint (le_amount x) < settle_charge a)"
    and "pg_leases (settle_write scope t x v db) = filter (\<lambda>y. y \<noteq> x) (pg_leases db)"
proof -
  have good: "good_leases (pg_leases db)" and row: "pg_budgets (drop_leases [x] db) scope \<noteq> None"
    using books by (auto simp: books_ok_def pg_valid_def)
  note d = owed_drop [OF del good] and set = set_used_books [OF row]
  have amount: "0 \<le> sint (le_amount x)" using del good by (auto simp: deleted_ok_def good_leases_def)
  then have delta: "settle_delta x a = settle_charge a - sint (le_amount x)" "0 \<le> settle_charge a"
    by (auto simp: settle_delta_def settle_charge_def sint_diff_nonneg sint_clamp0 split: option.split)
  have sum: "sum_leases [x] = sint (le_amount x)" by (simp add: sum_leases_def)
  show l: "pg_leases (settle_write scope t x v db) = filter (\<lambda>y. y \<noteq> x) (pg_leases db)"
    using set(3) by (simp add: settle_write_def)
  show "books_ok scope (settle_write scope t x v db) (c + settle_charge a) (ov \<or> sint (le_amount x) < settle_charge a)"
    by (rule books_okI [OF books])
      (use set books l d(1) sum v delta good_leases_filter [OF good] in \<open>auto simp: settle_write_def books_ok_def\<close>)
qed

section \<open>Every step keeps the invariant\<close>

lemma conc_inv_tx:
  assumes "conc_inv scope s" and "i < length (pc_txs s)"
  shows "tx_ok scope (pc_db s) (pc_txs s ! i)" and "books_ok scope (pc_db s) (pc_charged s) (pc_overrun s)"
  using assms by (simp_all add: conc_inv_def)

lemma conc_inv_step:
  assumes "pg_step l s t" and inv: "conc_inv (pl_scope l) s"
  shows "conc_inv (pl_scope l) t"
  using assms(1)
proof cases
  case (begin_reserve i e k)
  then show ?thesis
    unfolding begin_reserve(1) by (intro conc_inv_set_tx [OF inv begin_reserve(2)]) (simp_all add: i64_simps)
next
  case (load i time k e row)
  note ok = conc_inv_tx [OF inv load(2)]
  have "pg_used (pl_scope l) (pc_db s) = sint (br_used row)" "pg_limit (pl_scope l) (pc_db s) = sint (br_limit row)"
    using load(5) by (simp_all add: pg_used_def pg_limit_def)
  then show ?thesis
    unfolding load(1) using ok load(3,4)
    by (intro conc_inv_set_tx [OF inv load(2)]) (simp_all add: reserve_ok_def deleted_ok_def)
next
  case (reclaim_row i r x)
  note ok = conc_inv_tx [OF inv reclaim_row(2)]
  have "x \<notin> set (rs_deleted r)"
    using reclaim_row(2,3,6) by (auto simp: lease_free_def list_all_length)
  then show ?thesis
    unfolding reclaim_row(1) using ok reclaim_row(3-6)
    by (intro conc_inv_set_tx [OF inv reclaim_row(2)]) (auto simp: reserve_ok_def deleted_ok_def lease_expired_def)
next
  case (reclaim_end i r)
  note ok = conc_inv_tx [OF inv reclaim_end(2)]
  have r: "deleted_ok (pl_scope l) (pc_db s) (rs_deleted r)" "sint (rs_used r) = pg_used (pl_scope l) (pc_db s)"
    using ok(1) reclaim_end(3) by (simp_all add: reserve_ok_def)
  have good: "good_leases (pg_leases (pc_db s))" and u: "owed (pl_scope l) (pg_leases (pc_db s)) \<le> sint (rs_used r)"
    using ok(2) r(2) by (simp_all add: books_ok_def pg_valid_def)
  have "sint (rs_used r - word_of_int (sum_leases (rs_deleted r))) = sint (rs_used r) - sum_leases (rs_deleted r)"
    using owed_drop(2,3) [OF r(1) good] u sint_upper [of "rs_used r"] reclaim_end(5)
    by (subst sint_diff_i64) (simp_all add: sint_of_in_int64)
  then have "sint (reclaimed_used r) = sint (rs_used r) - sum_leases (rs_deleted r)"
    using owed_drop(2) [OF r(1) good] by (auto simp: reclaimed_used_def Let_def)
  then show ?thesis
    unfolding reclaim_end(1) using ok(1) reclaim_end(3)
    by (intro conc_inv_set_tx [OF inv reclaim_end(2)]) (simp_all add: reserve_ok_def)
next
  case (deny i r)
  note ok = conc_inv_tx [OF inv deny(2)]
  have "books_ok (pl_scope l) (reclaim_write (pl_scope l) r (pc_db s)) (pc_charged s) (pc_overrun s)"
    "pg_leases (reclaim_write (pl_scope l) r (pc_db s)) = filter (\<lambda>x. x \<notin> set (rs_deleted r)) (pg_leases (pc_db s))"
    using reclaim_write_books(1,3) [OF ok(2)] ok(1) deny(3) by (simp_all add: reserve_ok_def)
  from conc_inv_commit [OF inv deny(2) _ this(1)] this(2) show ?thesis
    unfolding deny(1) using deny(3) by simp
next
  case (insert i r)
  note ok = conc_inv_tx [OF inv insert(2)]
  have r: "reserve_ok (pl_scope l) (pc_db s) r" using ok(1) insert(3) by simp
  have lim: "0 \<le> sint (rs_limit r)" using r ok(2) by (simp add: reserve_ok_def books_ok_def pg_valid_def)
  then have "sint (rs_limit r - rs_estimate r) = sint (rs_limit r) - sint (rs_estimate r)"
    using r by (intro sint_diff_nonneg) (simp_all add: reserve_ok_def)
  then have "sint (rs_used r) + sint (rs_estimate r) \<le> pg_limit (pl_scope l) (pc_db s)"
    using insert(4) lim r by (simp add: i64_simps over_limit_def reserve_ok_def)
  then show ?thesis
    unfolding insert(1) using ok(1) insert(3,5)
    by (intro conc_inv_set_tx [OF inv insert(2)]) (simp_all add: list_all_iff)
next
  case (commit_reserve i r)
  note ok = conc_inv_tx [OF inv commit_reserve(2)]
  note w = reserve_write_books [OF ok(2) ok(1) [unfolded commit_reserve(3)]]
  from conc_inv_commit [OF inv commit_reserve(2) _ w(1)] w(2) show ?thesis
    unfolding commit_reserve(1) using commit_reserve(3) by simp
next
  case (begin_terminal i k a)
  show ?thesis
    unfolding begin_terminal(1) by (intro conc_inv_set_tx [OF inv begin_terminal(2)]) simp_all
next
  case (take_row i time k a x)
  then show ?thesis
    unfolding take_row(1) by (intro conc_inv_set_tx [OF inv take_row(2)]) (simp_all add: deleted_ok_def)
next
  case (settle_budget i time x a row)
  note ok = conc_inv_tx [OF inv settle_budget(2)]
  have "pg_used (pl_scope l) (pc_db s) = sint (br_used row)"
    using settle_budget(5) by (simp add: pg_used_def)
  then show ?thesis
    unfolding settle_budget(1) using ok(1) settle_budget(3,4,6)
    by (intro conc_inv_set_tx [OF inv settle_budget(2)]) (simp_all add: sint_of_in_int64 del: of_int_add)
next
  case (commit_terminal i time x a v)
  note ok = conc_inv_tx [OF inv commit_terminal(2)]
  have "deleted_ok (pl_scope l) (pc_db s) [x]" "sint v = pg_used (pl_scope l) (pc_db s) + settle_delta x a"
    using ok(1) commit_terminal(3) by simp_all
  note w = settle_write_books [OF ok(2) this, of time]
  from conc_inv_commit [OF inv commit_terminal(2) _ w(1)] w(2) show ?thesis
    unfolding commit_terminal(1) using commit_terminal(3) by simp
next
  case (rollback i)
  show ?thesis
    unfolding rollback(1) by (intro conc_inv_set_tx [OF inv rollback(2)]) simp_all
next
  case (tick n)
  then show ?thesis
    using inv by (simp add: conc_inv_def)
qed

lemma conc_inv_reach: "pg_reach l s t \<Longrightarrow> conc_inv (pl_scope l) s \<Longrightarrow> conc_inv (pl_scope l) t"
  by (induction rule: pg_reach.induct) (auto intro: conc_inv_step)

lemma conc_inv_init:
  assumes "pg_valid scope db" and "charged = pg_used scope db - owed scope (pg_leases db)"
    and "pg_used scope db \<le> pg_limit scope db"
  shows "conc_inv scope (pg_conc_init db now charged n)"
  using assms by (simp add: conc_inv_def pg_conc_init_def books_ok_def pg_valid_def)

lemma pg_reach_trans: "pg_reach l t u \<Longrightarrow> pg_reach l s t \<Longrightarrow> pg_reach l s u"
  by (induction rule: pg_reach.induct) (auto intro: pg_reach.step)

lemma pg_reach_one: "pg_step l s t \<Longrightarrow> pg_reach l s t"
  by (rule pg_reach.step [OF pg_reach.start])

lemma writes_keep_limit [simp]:
  "pg_limit scope (sql_set_used scope v t db) = pg_limit scope db"
  "pg_limit scope (reclaim_write scope r db) = pg_limit scope db"
  "pg_limit (pl_scope l) (reserve_write l r db) = pg_limit (pl_scope l) db"
  "pg_limit scope (settle_write scope t x v db) = pg_limit scope db"
  by (simp_all add: pg_limit_frame [OF sql_set_used_effect(1)] reclaim_write_def reserve_write_def settle_write_def Let_def)

lemma pg_reach_limit: "pg_reach l s t \<Longrightarrow> pg_limit (pl_scope l) (pc_db t) = pg_limit (pl_scope l) (pc_db s)"
  by (induction rule: pg_reach.induct) (auto elim!: pg_stepE)

section \<open>Who waits for whom\<close>

text \<open>
  The row that the next statement of a transaction wants is locked by another transaction.  A
  \<open>DELETE\<close> of expired reservations waits for the one that somebody else has deleted, and an
  \<open>INSERT\<close> for the one that has its identifier.
\<close>

fun reserve_wants :: "pg_ledger \<Rightarrow> txn \<Rightarrow> lease \<Rightarrow> bool" where
  "reserve_wants l (Reclaiming r) x = lease_expired (pl_scope l) (rs_now r) x"
| "reserve_wants l (Deciding r) x = (\<not> over_limit r \<and> le_id x = rs_id r)"
| "reserve_wants l _ x = False"

fun blocked_by :: "pg_ledger \<Rightarrow> txn \<Rightarrow> txn \<Rightarrow> bool" where
  "blocked_by l (Loading t k e) q = tx_budget q"
| "blocked_by l (Taking t k a) q = list_ex (\<lambda>x. le_id x = k) (tx_deleted q)"
| "blocked_by l (Taken t x a) q = tx_budget q"
| "blocked_by l p q = list_ex (reserve_wants l p) (tx_deleted q)"

definition waits_for :: "pg_ledger \<Rightarrow> pg_conc \<Rightarrow> nat \<Rightarrow> nat \<Rightarrow> bool" where
  "waits_for l s i j \<longleftrightarrow> i < length (pc_txs s) \<and> j < length (pc_txs s) \<and> i \<noteq> j
     \<and> blocked_by l (pc_txs s ! i) (pc_txs s ! j)"

text \<open>A \<open>Reserve\<close> wants the row that a terminal call has deleted before it updates the budget.\<close>

definition crossed :: "pg_ledger \<Rightarrow> pg_conc \<Rightarrow> nat \<Rightarrow> nat \<Rightarrow> bool" where
  "crossed l s i j \<longleftrightarrow> i < length (pc_txs s) \<and> j < length (pc_txs s)
     \<and> (case pc_txs s ! j of Taken t x a \<Rightarrow> reserve_wants l (pc_txs s ! i) x | _ \<Rightarrow> False)"

lemma crossed_waits: "crossed l s i j \<Longrightarrow> waits_for l s i j \<and> waits_for l s j i"
  by (cases "pc_txs s ! i"; cases "pc_txs s ! j") (auto simp: crossed_def waits_for_def)

lemma blocked_needs_lock: "blocked_by l p q \<Longrightarrow> tx_budget q \<or> (\<exists>t x a. q = Taken t x a)"
  by (cases p; cases q) auto

lemma budget_waits:
  assumes "blocked_by l p q" and "tx_budget p" and "\<not> tx_budget q"
  shows "\<exists>t x a. q = Taken t x a \<and> reserve_wants l p x"
  using assms by (cases p; cases q) auto

lemma cycle_onward: "R\<^sup>+\<^sup>+ i i \<Longrightarrow> \<exists>j. R i j \<and> R\<^sup>+\<^sup>+ j j"
  by (meson rtranclp_into_tranclp1 tranclpD)

lemma cycle_crossed:
  assumes inv: "conc_inv scope s" and cyc: "(waits_for l s)\<^sup>+\<^sup>+ i i"
  shows "\<exists>j k. crossed l s j k"
proof -
  have onward: "\<exists>j k. crossed l s j k" if c: "(waits_for l s)\<^sup>+\<^sup>+ j j" and b: "tx_budget (pc_txs s ! j)" for j
  proof -
    obtain k where k: "waits_for l s j k" using cycle_onward [OF c] by blast
    then have "apart_txs (pc_txs s ! j) (pc_txs s ! k)" using inv by (simp add: conc_inv_def waits_for_def)
    then show ?thesis
      using k b budget_waits [of l "pc_txs s ! j" "pc_txs s ! k"]
      by (fastforce simp: waits_for_def crossed_def apart_txs_def)
  qed
  obtain j where j: "waits_for l s i j" "(waits_for l s)\<^sup>+\<^sup>+ j j" using cycle_onward [OF cyc] by blast
  show ?thesis
  proof (cases "tx_budget (pc_txs s ! j)")
    case False
    then obtain t x a where q: "pc_txs s ! j = Taken t x a"
      using j(1) blocked_needs_lock by (fastforce simp: waits_for_def)
    obtain k where "waits_for l s j k" "(waits_for l s)\<^sup>+\<^sup>+ k k" using cycle_onward [OF j(2)] by blast
    then show ?thesis using q onward by (auto simp: waits_for_def)
  qed (use j(2) onward in blast)
qed


section \<open>The calls are runs\<close>

text \<open>A client that runs while the others are between calls.\<close>

definition solo :: "pg_db \<Rightarrow> int \<Rightarrow> int \<Rightarrow> bool \<Rightarrow> nat \<Rightarrow> txn \<Rightarrow> pg_conc" where
  "solo db now charged overrun n p =
     \<lparr>pc_db = db, pc_now = now, pc_txs = p # replicate n NoTx, pc_charged = charged, pc_overrun = overrun\<rparr>"

lemma solo_simps [simp]:
  "pc_db (solo db now c ov n p) = db" "pc_now (solo db now c ov n p) = now"
  "pc_charged (solo db now c ov n p) = c" "pc_overrun (solo db now c ov n p) = ov"
  "length (pc_txs (solo db now c ov n p)) = Suc n" "pc_txs (solo db now c ov n p) ! 0 = p"
  "set_tx 0 q (solo db now c ov n p) = solo db now c ov n q"
  "solo db now c ov n p\<lparr>pc_db := db', pc_txs := (pc_txs (solo db now c ov n p))[0 := q]\<rparr> = solo db' now c ov n q"
  "solo db now c ov n p\<lparr>pc_db := db', pc_charged := c', pc_overrun := ov',
     pc_txs := (pc_txs (solo db now c ov n p))[0 := q]\<rparr> = solo db' now c' ov' n q"
  "budget_free (solo db now c ov n p) \<longleftrightarrow> \<not> tx_budget p"
  "lease_free x (solo db now c ov n p) \<longleftrightarrow> x \<notin> set (tx_deleted p)"
  by (auto simp: solo_def budget_free_def lease_free_def list_all_iff)

lemma solo_txs: "pc_txs (solo db now c ov n p) = p # replicate n NoTx"
  by (simp add: solo_def)

lemma pg_conc_init_solo: "pg_conc_init db now c (Suc n) = solo db now c False n NoTx"
  by (simp add: pg_conc_init_def solo_def)

lemma solo_reclaim:
  assumes "rs_deleted r = []" and "distinct xs" and "\<And>x. x \<in> set xs \<Longrightarrow> x \<in> set (pg_leases db) \<and> lease_expired (pl_scope l) (rs_now r) x"
  shows "pg_reach l (solo db now c ov n (Reclaiming r)) (solo db now c ov n (Reclaiming (r\<lparr>rs_deleted := xs\<rparr>)))"
  using assms(2,3)
proof (induction xs rule: rev_induct)
  case Nil
  have "r\<lparr>rs_deleted := []\<rparr> = r" using assms(1) by simp
  then show ?case by (simp add: pg_reach.start)
next
  case (snoc x xs)
  let ?s = "solo db now c ov n (Reclaiming (r\<lparr>rs_deleted := xs\<rparr>))"
  have "pg_step l ?s (solo db now c ov n (Reclaiming (r\<lparr>rs_deleted := xs @ [x]\<rparr>)))"
    using snoc.prems pg_step.reclaim_row [of 0 ?s "r\<lparr>rs_deleted := xs\<rparr>" x l] by simp
  then show ?case
    using snoc by (auto intro: pg_reach.step)
qed

text \<open>\<open>Reserve\<close> up to the check of the limit, and what it knows there.\<close>

definition solo_tx :: "pg_ledger \<Rightarrow> int \<Rightarrow> string \<Rightarrow> i64 \<Rightarrow> budget_row \<Rightarrow> pg_db \<Rightarrow> reserve_tx" where
  "solo_tx l now k e row db = (let xs = filter (lease_expired (pl_scope l) now) (pg_leases db);
     r = \<lparr>rs_now = now, rs_id = k, rs_estimate = e, rs_used = br_used row, rs_limit = br_limit row, rs_deleted = xs\<rparr> in
     r\<lparr>rs_used := reclaimed_used r\<rparr>)"

lemma solo_load:
  assumes "\<not> e <s 0" and "\<not> MaxEstimate <s e" and "distinct (pg_leases db)"
    and "pg_budgets db (pl_scope l) = Some row" and "br_currency row = currency_string (pl_currency l)"
    and "in_int64 (sum_leases (filter (lease_expired (pl_scope l) now) (pg_leases db)))"
  shows "pg_reach l (solo db now c ov n NoTx) (solo db now c ov n (Deciding (solo_tx l now k e row db)))"
proof -
  let ?s = "solo db now c ov n" and ?xs = "filter (lease_expired (pl_scope l) now) (pg_leases db)"
  define r where "r = \<lparr>rs_now = now, rs_id = k, rs_estimate = e, rs_used = br_used row,
    rs_limit = br_limit row, rs_deleted = []\<rparr>"
  have "pg_step l (?s NoTx) (?s (Loading now k e))"
    using assms(1,2) pg_step.begin_reserve [of 0 "?s NoTx" e l k] by simp
  moreover have "pg_step l (?s (Loading now k e)) (?s (Reclaiming r))"
    using assms(4,5) pg_step.load [of 0 "?s (Loading now k e)" now k e l row] by (simp add: r_def)
  moreover have "pg_reach l (?s (Reclaiming r)) (?s (Reclaiming (r\<lparr>rs_deleted := ?xs\<rparr>)))"
    using assms(3) by (intro solo_reclaim) (auto simp: r_def)
  moreover have "pg_step l (?s (Reclaiming (r\<lparr>rs_deleted := ?xs\<rparr>))) (?s (Deciding (solo_tx l now k e row db)))"
    using assms(6) pg_step.reclaim_end [of 0 "?s (Reclaiming (r\<lparr>rs_deleted := ?xs\<rparr>))" "r\<lparr>rs_deleted := ?xs\<rparr>" l]
    by (simp add: r_def solo_tx_def Let_def list_all_iff)
  ultimately show ?thesis
    by (meson pg_reach_one pg_reach_trans)
qed


lemma freed_is_reclaim:
  fixes k :: string and e :: i64
  assumes "pg_freed (pl_scope l) now db db1" and "pg_budgets db (pl_scope l) = Some row"
  defines "r \<equiv> solo_tx l now k e row db"
  shows "in_int64 (sum_leases (filter (lease_expired (pl_scope l) now) (pg_leases db)))"
    and "reclaim_write (pl_scope l) r db = db1"
    and "\<exists>row1. pg_budgets db1 (pl_scope l) = Some row1 \<and> br_used row1 = rs_used r \<and> br_limit row1 = rs_limit r"
    and "pg_leases db1 = filter (\<lambda>x. x \<notin> set (rs_deleted r)) (pg_leases db)"
proof -
  let ?xs = "filter (lease_expired (pl_scope l) now) (pg_leases db)"
  obtain n rows where rec: "sql_reclaim (pl_scope l) now (pg_leases db) = Inr (n, rows)"
    and db1: "db1 = (if 0 <s n then sql_set_used (pl_scope l) (br_used row - n) now (db\<lparr>pg_leases := rows\<rparr>)
                else db\<lparr>pg_leases := rows\<rparr>)"
    using assms(1,2) by (auto simp: pg_freed_def)
  show t: "in_int64 (sum_leases ?xs)"
    using rec by (auto simp: sql_reclaim_def Let_def split: if_splits)
  then have n: "n = word_of_int (sum_leases ?xs)" "rows = filter (\<lambda>x. x \<notin> set ?xs) (pg_leases db)"
    "0 <s n \<longleftrightarrow> 0 < sum_leases ?xs"
    using rec by (auto simp: sql_reclaim_def word_sless_alt sint_of_in_int64 intro: filter_cong)
  show "reclaim_write (pl_scope l) r db = db1"
    using n db1 by (simp add: r_def solo_tx_def reclaim_write_def reclaimed_used_def drop_leases_def Let_def)
  show "\<exists>row1. pg_budgets db1 (pl_scope l) = Some row1 \<and> br_used row1 = rs_used r \<and> br_limit row1 = rs_limit r"
    using n db1 assms(2) by (simp add: r_def solo_tx_def reclaimed_used_def sql_set_used_def Let_def)
  show "pg_leases db1 = filter (\<lambda>x. x \<notin> set (rs_deleted r)) (pg_leases db)"
    using n db1 by (simp add: r_def solo_tx_def sql_set_used_effect(2) Let_def)
qed

lemma solo_tx_simps [simp]:
  "rs_now (solo_tx l now k e row db) = now" "rs_id (solo_tx l now k e row db) = k"
  "rs_estimate (solo_tx l now k e row db) = e" "rs_limit (solo_tx l now k e row db) = br_limit row"
  by (simp_all add: solo_tx_def Let_def)

text \<open>What \<open>Reserve\<close> of \<open>Postgres\<close> does to the data, with the conditions of each outcome.\<close>

lemma load_currency:
  assumes "load_budget_and_reclaim l tx s = (Inr x, t)"
  shows "\<exists>row. pg_budgets tx (pl_scope l) = Some row \<and> br_currency row = currency_string (pl_currency l)"
  using assms [unfolded load_budget_and_reclaim_def Let_def]
  by (elim try_doE) (auto dest!: load_budget_state tx_call_state)

lemma pg_reserve_outcome:
  assumes "pg_reserve l c e s = (res, t)" and "be_data t \<noteq> be_data s"
  shows "\<not> e <s 0 \<and> \<not> MaxEstimate <s e
    \<and> (\<exists>row. pg_budgets (be_data s) (pl_scope l) = Some row \<and> br_currency row = currency_string (pl_currency l))
    \<and> (\<exists>db row. pg_freed (pl_scope l) (be_now s) (be_data s) db \<and> pg_budgets db (pl_scope l) = Some row
      \<and> (be_data t = db \<and> 0 \<le>s br_limit row \<and> br_limit row - e <s br_used row
        \<or> (\<exists>i. pg_leased (pl_scope l) (new_lease l i e (be_now s)) (be_now s) db (be_data t))))"
proof (cases "ctx_check c = None \<and> pl_db l \<and> \<not> e <s 0 \<and> \<not> MaxEstimate <s e")
  case False
  then have "t = s"
    using assms(1) by (auto simp: pg_reserve_def split: option.splits if_splits)
  then show ?thesis using assms(2) by simp
next
  case True
  from assms True have "try_do new_id (wrapf ''postgres: reservation id: %w'') (\<lambda>i.
            try_do begin_tx (wrapf ''postgres: begin: %w'') (\<lambda>tx.
            try_do (load_budget_and_reclaim l tx) (\<lambda>e. e) (\<lambda>(used, limit, tx).
              if 0 \<le>s limit \<and> limit - e <s used
              then pg_deny used e limit tx else pg_hold l i used e tx))) s = (res, t)"
    by (simp add: pg_reserve_def)
  then show ?thesis
  proof (elim try_doE)
    fix i s1 tx s2 a s3
    assume 1: "new_id s = (Inr i, s1)" and 2: "begin_tx s1 = (Inr tx, s2)"
      and 3: "load_budget_and_reclaim l tx s2 = (Inr a, s3)"
      and 4: "(case a of (used, limit, tx) \<Rightarrow> if 0 \<le>s limit \<and> limit - e <s used
              then pg_deny used e limit tx else pg_hold l i used e tx) s3 = (res, t)"
    obtain used limit db where a: "a = (used, limit, db)" by (cases a)
    have st: "be_data s3 = be_data s" "tx = be_data s" "be_now s2 = be_now s" "be_now s3 = be_now s"
      using new_id_state [OF 1] begin_tx_state [OF 2] load_budget_freed [OF 3]
      by (auto simp: same_client_def)
    have freed: "pg_freed (pl_scope l) (be_now s) (be_data s) db"
      using load_budget_freed [OF 3] st a by auto
    obtain row where r: "pg_budgets db (pl_scope l) = Some row" "br_used row = used" "br_limit row = limit"
      using load_budget_freed [OF 3] a by auto
    have "be_data t = db \<and> 0 \<le>s br_limit row \<and> br_limit row - e <s br_used row
        \<or> (\<exists>i. pg_leased (pl_scope l) (new_lease l i e (be_now s)) (be_now s) db (be_data t))"
    proof (cases "0 \<le>s limit \<and> limit - e <s used")
      case True
      then have "pg_deny used e limit db s3 = (res, t)" using 4 a by simp
      from pg_deny_state [OF this] show ?thesis using True r st(1) assms(2) by auto
    next
      case False
      then have d: "pg_hold l i used e db s3 = (res, t)"
        using 4 [unfolded a prod.case] by (simp only: False if_False)
      have lim: "br_limit row <s 0 \<or> used \<le>s br_limit row - e"
        using False r by (auto simp: i64_simps)
      show ?thesis
        using pg_hold_state [OF d r(1,2) lim] st assms(2) by (auto split: sum.splits)
    qed
    then show ?thesis
      using True freed r(1) load_currency [OF 3 [unfolded a]] st(2) by blast
  qed (use assms(2) in \<open>auto simp: same_client_def dest!: new_id_state begin_tx_state load_budget_freed\<close>)
qed

lemma pg_reserve_run:
  assumes "pg_reserve l c e s = (res, t)" and "good_leases (pg_leases (be_data s))"
  shows "pg_reach l (solo (be_data s) (be_now s) ch ov n NoTx) (solo (be_data t) (be_now s) ch ov n NoTx)"
proof (cases "be_data t = be_data s")
  case True
  then show ?thesis by (simp add: pg_reach.start)
next
  case False
  let ?scope = "pl_scope l" and ?s = "\<lambda>db. solo db (be_now s) ch ov n" and ?r = "\<lambda>k row. solo_tx l (be_now s) k e row (be_data s)"
  obtain row db row1 where e: "\<not> e <s 0" "\<not> MaxEstimate <s e"
    and row: "pg_budgets (be_data s) ?scope = Some row" "br_currency row = currency_string (pl_currency l)"
    and freed: "pg_freed ?scope (be_now s) (be_data s) db" and row1: "pg_budgets db ?scope = Some row1"
    and out: "be_data t = db \<and> 0 \<le>s br_limit row1 \<and> br_limit row1 - e <s br_used row1
        \<or> (\<exists>i. pg_leased ?scope (new_lease l i e (be_now s)) (be_now s) db (be_data t))"
    using pg_reserve_outcome [OF assms(1) False] by blast
  have dist: "distinct (pg_leases (be_data s))" using assms(2) by (simp add: good_leases_def distinct_map)
  note f = freed_is_reclaim [OF freed row(1)]
  have load: "pg_reach l (?s (be_data s) NoTx) (?s (be_data s) (Deciding (?r k row)))" for k
    by (rule solo_load [OF e dist row f(1)])
  have r1: "br_used row1 = rs_used (?r k row)" "br_limit row1 = br_limit row" for k
    using f(3) [where k = k and e = e] row1 by auto
  from out show ?thesis
  proof (elim disjE exE)
    assume d: "be_data t = db \<and> 0 \<le>s br_limit row1 \<and> br_limit row1 - e <s br_used row1"
    then have "pg_step l (?s (be_data s) (Deciding (?r [] row))) (?s (be_data t) NoTx)"
      using pg_step.deny [of 0 "?s (be_data s) (Deciding (?r [] row))" "?r [] row" l] r1(1) [of "[]"] r1(2) f(2) [where k = "[]" and e = e]
      by (simp add: over_limit_def)
    then show ?thesis using load by (blast intro: pg_reach.step)
  next
    fix i assume "pg_leased ?scope (new_lease l i e (be_now s)) (be_now s) db (be_data t)"
    then have lim: "br_limit row1 <s 0 \<or> br_used row1 \<le>s br_limit row1 - e"
      and ins: "i \<notin> le_id ` set (pg_leases db)"
      and data: "be_data t = sql_set_used ?scope (br_used row1 + e) (be_now s)
        (db\<lparr>pg_leases := pg_leases db @ [new_lease l i e (be_now s)]\<rparr>)"
      using row1 by (auto simp: pg_leased_def dest!: sql_insert_lease_Inr)
    have "\<not> over_limit (?r i row)"
      using r1(1) [of i] r1(2) lim by (auto simp: over_limit_def i64_simps)
    moreover have "list_all (\<lambda>x. le_id x = i \<longrightarrow> x \<in> set (rs_deleted (?r i row))) (pg_leases (be_data s))"
      using ins f(4) [where k = i and e = e] by (auto simp: list_all_iff image_iff)
    ultimately have "pg_step l (?s (be_data s) (Deciding (?r i row))) (?s (be_data s) (Inserted (?r i row)))"
      using pg_step.insert [of 0 "?s (be_data s) (Deciding (?r i row))" "?r i row" l] by simp
    moreover have "pg_step l (?s (be_data s) (Inserted (?r i row))) (?s (be_data t) NoTx)"
      using pg_step.commit_reserve [of 0 "?s (be_data s) (Inserted (?r i row))" "?r i row" l] f(2) [where k = i and e = e] r1(1) [of i] r1(2) data
      by (simp add: reserve_write_def Let_def)
    ultimately show ?thesis using load by (blast intro: pg_reach.step)
  qed
qed


text \<open>The terminal calls of \<open>Postgres\<close>, for a reservation of the scope.\<close>

lemma pg_settled_run:
  assumes settled: "pg_settled (pl_scope l) k (\<lambda>x. settle_delta x a) now db db'"
    and good: "good_leases (pg_leases db)" and owner: "\<And>x. lease_of k (pg_leases db) = Some x \<Longrightarrow> le_owner x = pl_scope l"
    and row: "pg_budgets db (pl_scope l) = Some row"
  shows "\<exists>ch' ov'. pg_reach l (solo db now ch ov n NoTx) (solo db' now ch' ov' n NoTx)"
proof -
  let ?s = "solo db now ch ov n"
  obtain x where x: "lease_of k (pg_leases db) = Some x"
    and add: "sql_add_used (pl_scope l) (settle_delta x a) now
      (db\<lparr>pg_leases := filter (\<lambda>y. le_id y \<noteq> k) (pg_leases db)\<rparr>) = Inr db'"
    using settled by (auto simp: pg_settled_def)
  have mem: "x \<in> set (pg_leases db)" "le_id x = k" using lease_of_Some [OF x] by simp_all
  define v :: i64 where "v = word_of_int (sint (br_used row) + settle_delta x a)"
  have "filter (\<lambda>y. le_id y \<noteq> k) (pg_leases db) = filter (\<lambda>y. y \<notin> set [x]) (pg_leases db)"
    using good mem by (intro filter_cong) (auto simp: good_leases_def distinct_map inj_on_def)
  then have rng: "in_int64 (sint (br_used row) + settle_delta x a)"
    and db': "db' = settle_write (pl_scope l) now x v db"
    using add row by (auto simp: sql_add_used_def Let_def settle_write_def drop_leases_def v_def
        simp del: of_int_add split: if_splits)
  have "pg_step l (?s NoTx) (?s (Taking now k a))"
    using pg_step.begin_terminal [of 0 "?s NoTx" l k a] by simp
  moreover have "pg_step l (?s (Taking now k a)) (?s (Taken now x a))"
    using mem owner [OF x] pg_step.take_row [of 0 "?s (Taking now k a)" now k a x l] by simp
  moreover have "pg_step l (?s (Taken now x a)) (?s (Settled now x a v))"
    using rng row pg_step.settle_budget [of 0 "?s (Taken now x a)" now x a l row] by (simp add: v_def)
  moreover have "pg_step l (?s (Settled now x a v))
      (solo db' now (ch + settle_charge a) (ov \<or> sint (le_amount x) < settle_charge a) n NoTx)"
    using pg_step.commit_terminal [of 0 "?s (Settled now x a v)" now x a v l] by (simp add: db')
  ultimately show ?thesis
    by (meson pg_reach_one pg_reach.step)
qed

lemma once_data:
  assumes "once h oper s = (err, t)"
  shows "be_data t = be_data s \<or> (\<exists>res u. \<not> ro_done (be_objs s ! h) \<and> oper (ro_id (be_objs s ! h)) s = (res, u) \<and> be_data t = be_data u)"
  using assms by (auto simp: once_def Let_def split: if_splits prod.splits sum.splits)

lemma pg_terminal_run:
  assumes base: "pg_base l s" and h: "h < length (be_objs s)" and once: "once h oper s = (err, t)"
    and oper: "\<And>k res u. oper k s = (res, u) \<Longrightarrow>
      be_data u = be_data s \<or> pg_settled (pl_scope l) k (\<lambda>x. settle_delta x a) (be_now s) (be_data s) (be_data u)"
  shows "\<exists>ch' ov'. pg_reach l (solo (be_data s) (be_now s) ch ov n NoTx) (solo (be_data t) (be_now s) ch' ov' n NoTx)"
proof (cases "be_data t = be_data s")
  case True
  then show ?thesis by (auto intro: pg_reach.start)
next
  case False
  let ?x = "be_objs s ! h"
  have open_obj: "\<not> ro_done ?x" and set: "pg_settled (pl_scope l) (ro_id ?x) (\<lambda>x. settle_delta x a) (be_now s) (be_data s) (be_data t)"
    using once_data [OF once] oper False by metis+
  obtain row where row: "pg_budgets (be_data s) (pl_scope l) = Some row"
    using base by (auto simp: pg_base_def pg_valid_def)
  show ?thesis
    by (rule pg_settled_run [OF set _ _ row])
      (use base h open_obj in \<open>auto simp: pg_base_def pg_valid_def objs_owned_def\<close>)
qed

lemma pg_commit_run:
  assumes "pg_base l s" and "h < length (be_objs s)" and "pg_commit l h c actual s = (err, t)"
  shows "\<exists>ch' ov'. pg_reach l (solo (be_data s) (be_now s) ch ov n NoTx) (solo (be_data t) (be_now s) ch' ov' n NoTx)"
proof (cases "ctx_check c")
  case None
  then have once: "once h (pg_commit_tx l (clamp0 actual)) s = (err, t)" using assms(3) by (simp add: pg_commit_def)
  show ?thesis
    by (rule pg_terminal_run [OF assms(1,2) once, of "Some actual"])
      (use pg_commit_tx_state in \<open>fastforce simp: settle_delta_def\<close>)
next
  case (Some e)
  then show ?thesis using assms(3) by (auto simp: pg_commit_def intro: pg_reach.start)
qed

lemma pg_release_run:
  assumes "pg_base l s" and "h < length (be_objs s)" and "pg_release l h c s = (err, t)"
  shows "\<exists>ch' ov'. pg_reach l (solo (be_data s) (be_now s) ch ov n NoTx) (solo (be_data t) (be_now s) ch' ov' n NoTx)"
proof (cases "ctx_check c")
  case None
  then have once: "once h (pg_release_tx l) s = (err, t)" using assms(3) by (simp add: pg_release_def)
  show ?thesis
    by (rule pg_terminal_run [OF assms(1,2) once, of None])
      (use pg_release_tx_state in \<open>fastforce simp: settle_delta_def\<close>)
next
  case (Some e)
  then show ?thesis using assms(3) by (auto simp: pg_release_def intro: pg_reach.start)
qed


definition pg_runs :: "pg_ledger \<Rightarrow> nat \<Rightarrow> pg_db backend \<Rightarrow> pg_db backend \<Rightarrow> bool" where
  "pg_runs l n s t \<longleftrightarrow> (\<exists>u. pg_reach l (pg_conc_init (be_data s) (be_now s) (pg_charged l s) (Suc n)) u
     \<and> pc_db u = be_data t \<and> pc_txs u = replicate (Suc n) NoTx)"

section \<open>Examples: two clients\<close>

definition pair :: "pg_db \<Rightarrow> int \<Rightarrow> txn \<Rightarrow> txn \<Rightarrow> pg_conc" where
  "pair db now p q = \<lparr>pc_db = db, pc_now = now, pc_txs = [p, q], pc_charged = 0, pc_overrun = False\<rparr>"

lemma pair_simps [simp]:
  "pc_db (pair db now p q) = db" "pc_now (pair db now p q) = now" "pc_txs (pair db now p q) = [p, q]"
  "pc_charged (pair db now p q) = 0" "pc_overrun (pair db now p q) = False"
  "pair db now p q\<lparr>pc_txs := [p', q']\<rparr> = pair db now p' q'"
  "pair db now p q\<lparr>pc_db := db', pc_txs := [p', q']\<rparr> = pair db' now p' q'"
  "budget_free (pair db now p q) \<longleftrightarrow> \<not> tx_budget p \<and> \<not> tx_budget q"
  "lease_free x (pair db now p q) \<longleftrightarrow> x \<notin> set (tx_deleted p) \<and> x \<notin> set (tx_deleted q)"
  by (simp_all add: pair_def budget_free_def lease_free_def)

lemma pair_init: "pg_conc_init db now 0 2 = pair db now NoTx NoTx"
  by (simp add: pair_def pg_conc_init_def numeral_2_eq_2)

text \<open>Two reservations of 60 under a limit of 100: the second one waits, then sees the first one's.\<close>

definition loaded :: "string \<Rightarrow> i64 \<Rightarrow> reserve_tx" where
  "loaded k used = \<lparr>rs_now = 0, rs_id = k, rs_estimate = 60, rs_used = used, rs_limit = 100, rs_deleted = []\<rparr>"

lemma loaded_simps [simp]:
  "rs_now (loaded k u) = 0" "rs_id (loaded k u) = k" "rs_estimate (loaded k u) = 60" "rs_used (loaded k u) = u"
  "rs_limit (loaded k u) = 100" "rs_deleted (loaded k u) = []" "loaded k u\<lparr>rs_used := v\<rparr> = loaded k v"
  "reclaimed_used (loaded k u) = u" "over_limit (loaded k u) \<longleftrightarrow> 40 <s u"
  by (simp_all add: loaded_def reclaimed_used_def sum_leases_def over_limit_def i64_simps)

definition race_db :: pg_db where
  "race_db = reserve_write sample_ledger (loaded ''a'' 0) sample_db"

lemma race_db_simps [simp]:
  "pg_leases race_db = [\<lparr>le_id = ''a'', le_owner = ''checkout'', le_amount = 60, le_expires = 30000000\<rparr>]"
  "pg_budgets race_db ''checkout'' = Some \<lparr>br_limit = 100, br_used = 60, br_currency = ''USD'', br_updated = 0\<rparr>"
  by (simp_all add: race_db_def reserve_write_def reclaim_write_def sum_leases_def sql_set_used_def new_lease_def
      ttl_seconds_def i64_simps)


lemma race_load:
  "pg_reach sample_ledger (pair sample_db 0 NoTx NoTx) (pair sample_db 0 (Reclaiming (loaded ''a'' 0)) (Loading 0 ''b'' 60))"
proof -
  let ?s = "pair sample_db 0"
  have "pg_step sample_ledger (?s NoTx NoTx) (?s (Loading 0 ''a'' 60) NoTx)"
    using pg_step.begin_reserve [of 0 "?s NoTx NoTx" 60 sample_ledger "''a''"] by (simp add: i64_simps sint_MaxEstimate)
  moreover have "pg_step sample_ledger (?s (Loading 0 ''a'' 60) NoTx) (?s (Loading 0 ''a'' 60) (Loading 0 ''b'' 60))"
    using pg_step.begin_reserve [of 1 "?s (Loading 0 ''a'' 60) NoTx" 60 sample_ledger "''b''"]
    by (simp add: i64_simps sint_MaxEstimate)
  moreover have "pg_step sample_ledger (?s (Loading 0 ''a'' 60) (Loading 0 ''b'' 60))
      (?s (Reclaiming (loaded ''a'' 0)) (Loading 0 ''b'' 60))"
    using pg_step.load [of 0 "?s (Loading 0 ''a'' 60) (Loading 0 ''b'' 60)" 0 "''a''" 60 sample_ledger]
    by (simp add: USD_def loaded_def)
  ultimately show ?thesis by (meson pg_reach_one pg_reach.step)
qed

lemma race_first:
  "pg_reach sample_ledger (pair sample_db 0 (Reclaiming (loaded ''a'' 0)) (Loading 0 ''b'' 60))
     (pair race_db 0 NoTx (Loading 0 ''b'' 60))"
proof -
  let ?s = "\<lambda>p. pair sample_db 0 p (Loading 0 ''b'' 60)" and ?r = "loaded ''a'' 0"
  have "pg_step sample_ledger (?s (Reclaiming ?r)) (?s (Deciding ?r))"
    using pg_step.reclaim_end [of 0 "?s (Reclaiming ?r)" ?r sample_ledger] by (simp add: in_int64_def)
  moreover have "pg_step sample_ledger (?s (Deciding ?r)) (?s (Inserted ?r))"
    using pg_step.insert [of 0 "?s (Deciding ?r)" ?r sample_ledger] by (simp add: i64_simps)
  moreover have "pg_step sample_ledger (?s (Inserted ?r)) (pair race_db 0 NoTx (Loading 0 ''b'' 60))"
    using pg_step.commit_reserve [of 0 "?s (Inserted ?r)" ?r sample_ledger] by (simp add: race_db_def)
  ultimately show ?thesis by (meson pg_reach_one pg_reach.step)
qed

lemma race_second:
  "pg_reach sample_ledger (pair race_db 0 NoTx (Loading 0 ''b'' 60)) (pair race_db 0 NoTx (Deciding (loaded ''b'' 60)))"
proof -
  let ?s = "pair race_db 0 NoTx" and ?r = "loaded ''b'' 60"
  have "pg_step sample_ledger (?s (Loading 0 ''b'' 60)) (?s (Reclaiming ?r))"
    using pg_step.load [of 1 "?s (Loading 0 ''b'' 60)" 0 "''b''" 60 sample_ledger] by (simp add: USD_def loaded_def)
  moreover have "pg_step sample_ledger (?s (Reclaiming ?r)) (?s (Deciding ?r))"
    using pg_step.reclaim_end [of 1 "?s (Reclaiming ?r)" ?r sample_ledger] by (simp add: in_int64_def lease_expired_def)
  ultimately show ?thesis by (meson pg_reach_one pg_reach.step)
qed

text \<open>
  A reservation of 60 that has expired: its \<open>Commit\<close> has deleted it and wants the budget,
  which a \<open>Reserve\<close> holds that wants the reservation.
\<close>

definition stale :: lease where
  "stale = \<lparr>le_id = ''aa'', le_owner = ''checkout'', le_amount = 60, le_expires = 30000000\<rparr>"

definition circle :: pg_conc where
  "circle = pair (be_data abandoned) 30000000
     (Reclaiming \<lparr>rs_now = 30000000, rs_id = ''b'', rs_estimate = 50, rs_used = 60, rs_limit = 100, rs_deleted = []\<rparr>)
     (Taken 30000000 stale (Some 45))"

lemma abandoned_data:
  "pg_leases (be_data abandoned) = [stale]"
  "pg_budgets (be_data abandoned) ''checkout'' = Some \<lparr>br_limit = 100, br_used = 60, br_currency = ''USD'', br_updated = 0\<rparr>"
  "be_now abandoned = 30000000" "be_objs abandoned = [\<lparr>ro_id = ''aa'', ro_done = False\<rparr>]"
  by (simp_all add: abandoned_def empty_server_def sql_set_used_def stale_def)

lemma circle_reached: "pg_reach sample_ledger (pair (be_data abandoned) 30000000 NoTx NoTx) circle"
proof -
  let ?s = "pair (be_data abandoned) 30000000" and ?q = "Taken 30000000 stale (Some 45)"
  have "pg_step sample_ledger (?s NoTx NoTx) (?s NoTx (Taking 30000000 ''aa'' (Some 45)))"
    using pg_step.begin_terminal [of 1 "?s NoTx NoTx" sample_ledger "''aa''" "Some 45"] by simp
  moreover have "pg_step sample_ledger (?s NoTx (Taking 30000000 ''aa'' (Some 45))) (?s NoTx ?q)"
    using pg_step.take_row [of 1 "?s NoTx (Taking 30000000 ''aa'' (Some 45))" 30000000 "''aa''" "Some 45" stale sample_ledger]
    by (simp add: abandoned_data stale_def)
  moreover have "pg_step sample_ledger (?s NoTx ?q) (?s (Loading 30000000 ''b'' 50) ?q)"
    using pg_step.begin_reserve [of 0 "?s NoTx ?q" 50 sample_ledger "''b''"] by (simp add: i64_simps sint_MaxEstimate)
  moreover have "pg_step sample_ledger (?s (Loading 30000000 ''b'' 50) ?q) circle"
    using pg_step.load [of 0 "?s (Loading 30000000 ''b'' 50) ?q" 30000000 "''b''" 50 sample_ledger]
    by (simp add: abandoned_data USD_def circle_def)
  ultimately show ?thesis by (meson pg_reach_one pg_reach.step)
qed

section \<open>Properties\<close>

text \<open>
  C4.  The limit with concurrent clients.  Any number of clients work on one scope of the
  database, statement by statement and in any order, with any transaction rolled back at any
  point: at every moment the counter is what the terminal calls have charged and what the
  open reservations hold, the limit is what it was, and the counter is above it only when
  some commit charged more than its reservation.
\<close>

theorem pg_concurrent_limit:
  assumes "pg_valid (pl_scope l) db" and "pg_used (pl_scope l) db \<le> pg_limit (pl_scope l) db"
    and "pg_reach l (pg_conc_init db now (pg_used (pl_scope l) db - owed (pl_scope l) (pg_leases db)) n) s"
  shows "pg_used (pl_scope l) (pc_db s) = pc_charged s + owed (pl_scope l) (pg_leases (pc_db s))
    \<and> pg_limit (pl_scope l) (pc_db s) = pg_limit (pl_scope l) db \<and> good_leases (pg_leases (pc_db s))
    \<and> (\<not> pc_overrun s \<longrightarrow> pg_used (pl_scope l) (pc_db s) \<le> pg_limit (pl_scope l) db)"
proof -
  have "conc_inv (pl_scope l) s"
    by (rule conc_inv_reach [OF assms(3) conc_inv_init]) (use assms in simp_all)
  moreover have "pg_limit (pl_scope l) (pc_db s) = pg_limit (pl_scope l) db"
    using pg_reach_limit [OF assms(3)] by (simp add: pg_conc_init_def)
  ultimately show ?thesis
    by (auto simp: conc_inv_def books_ok_def pg_valid_def)
qed

theorem pg_concurrent_limit_witness:
  "pg_reach sample_ledger (pg_conc_init sample_db 0 0 2) (pair race_db 0 NoTx (Deciding (loaded ''b'' 60)))
   \<and> pg_used ''checkout'' race_db = 60 \<and> pg_used ''checkout'' race_db \<le> pg_limit ''checkout'' sample_db"
proof -
  have run: "pg_reach sample_ledger (pg_conc_init sample_db 0 0 2) (pair race_db 0 NoTx (Deciding (loaded ''b'' 60)))"
    unfolding pair_init by (rule pg_reach_trans [OF pg_reach_trans [OF race_second race_first] race_load])
  have db: "pg_valid ''checkout'' sample_db" "pg_used ''checkout'' sample_db = 0" "pg_limit ''checkout'' sample_db = 100"
    by (simp_all add: pg_valid_def good_leases_def pg_used_def pg_limit_def)
  show ?thesis
    using pg_concurrent_limit [of sample_ledger sample_db 0 2] run db by (simp add: pg_used_def)
qed

text \<open>
  C10.  The calls of the ledger are runs of these steps.  Whatever \<open>Reserve\<close>, \<open>Commit\<close> and
  \<open>Release\<close> do to the data, with errors and lost answers, one client among \<open>n + 1\<close> does in the
  step relation while the others are between calls.
\<close>

theorem pg_calls_are_runs:
  assumes "pg_base l s" and "h < length (be_objs s)"
  shows "pg_runs l n s (snd (pg_reserve l c e s)) \<and> pg_runs l n s (snd (pg_commit l h c e s))
    \<and> pg_runs l n s (snd (pg_release l h c s))"
proof -
  have runs: "pg_runs l n s t" if "\<exists>ch' ov'. pg_reach l (solo (be_data s) (be_now s) (pg_charged l s) False n NoTx)
      (solo (be_data t) (be_now s) ch' ov' n NoTx)" for t
    using that unfolding pg_runs_def pg_conc_init_solo
    by (metis (no_types) replicate_Suc solo_simps(1) solo_txs)
  have "good_leases (pg_leases (be_data s))" using assms(1) by (simp add: pg_base_def pg_valid_def)
  then show ?thesis
    using pg_reserve_run [of l c e s] pg_commit_run [OF assms(1,2), of c e] pg_release_run [OF assms(1,2), of c]
    by (metis prod.collapse runs)
qed

theorem pg_calls_are_runs_witness:
  "pg_runs sample_ledger 1 abandoned (snd (pg_commit sample_ledger 0 background 45 abandoned))
   \<and> pg_used ''checkout'' (be_data (snd (pg_commit sample_ledger 0 background 45 abandoned))) = 45"
proof -
  have "pg_base sample_ledger abandoned"
    by (simp add: pg_base_def pg_valid_def good_leases_def pg_limit_def pg_used_def objs_owned_def abandoned_data
        stale_def)
  moreover have "pg_used ''checkout'' (be_data (snd (pg_commit sample_ledger 0 background 45 abandoned))) = 45"
    by (simp add: abandoned_def empty_server_def pg_commit_def once_def pg_commit_tx_def try_do_def begin_tx_def
        next_outcome_def pg_take_def tx_call_def sql_take_def sql_add_used_def sql_set_used_def commit_tx_def
        in_int64_def clamp0_def i64_simps pg_used_def Let_def)
  ultimately show ?thesis
    using pg_calls_are_runs [of sample_ledger abandoned 0 1 background 45] by (simp add: abandoned_data)
qed

text \<open>
  C11.  When clients deadlock.  In a reachable state, transactions wait for each other in a
  circle exactly when a \<open>Reserve\<close>, which holds the row of the budget, wants the row of a
  reservation that a \<open>Commit\<close> or a \<open>Release\<close> has deleted and whose next statement is the
  update of the budget: it has expired in between, or has the identifier that the \<open>Reserve\<close> has
  drawn.  As long as nothing expires under a terminal call, somebody can always go on.
\<close>

theorem pg_deadlock_iff:
  assumes "pg_valid (pl_scope l) db" and "pg_used (pl_scope l) db \<le> pg_limit (pl_scope l) db"
    and "pg_reach l (pg_conc_init db now (pg_used (pl_scope l) db - owed (pl_scope l) (pg_leases db)) n) s"
  shows "(\<exists>i. (waits_for l s)\<^sup>+\<^sup>+ i i) \<longleftrightarrow> (\<exists>i j. crossed l s i j)"
proof
  have inv: "conc_inv (pl_scope l) s"
    by (rule conc_inv_reach [OF assms(3) conc_inv_init]) (use assms in simp_all)
  show "\<exists>i j. crossed l s i j" if "\<exists>i. (waits_for l s)\<^sup>+\<^sup>+ i i"
    using that cycle_crossed [OF inv] by blast
  show "\<exists>i. (waits_for l s)\<^sup>+\<^sup>+ i i" if "\<exists>i j. crossed l s i j"
    using that crossed_waits by (metis tranclp.r_into_trancl tranclp.trancl_into_trancl)
qed


theorem pg_deadlock_iff_witness: "\<exists>i. (waits_for sample_ledger circle)\<^sup>+\<^sup>+ i i"
proof -
  have db: "pg_valid ''checkout'' (be_data abandoned)" "pg_used ''checkout'' (be_data abandoned) = 60"
    "pg_limit ''checkout'' (be_data abandoned) = 100" "owed ''checkout'' (pg_leases (be_data abandoned)) = 60"
    by (simp_all add: pg_valid_def good_leases_def pg_used_def pg_limit_def abandoned_data stale_def)
  have "crossed sample_ledger circle 0 1"
    by (simp add: crossed_def circle_def stale_def lease_expired_def)
  then show ?thesis
    using pg_deadlock_iff [of sample_ledger "be_data abandoned" 30000000 2 circle] circle_reached db
    by (auto simp: pair_init)
qed

end
