(* ===== verification/Spec2Isabelle.thy ===== *)
theory Spec2Isabelle
  imports LocalConcurrency Guard DurableSpec SettingsSpec BackendsAgree PgConcurrent
begin

text \<open>
  A model of \<open>github.com/nexssp/cost\<close>, a Go library that reserves money in a budget before
  an action runs and charges what the action has really cost.  Paths below are those of the
  repository.

  \<^bold>\<open>The program.\<close>  The core (\<open>ledger.go\<close>, \<open>reservation.go\<close>, \<open>currency.go\<close>, \<open>entry.go\<close>,
  \<open>errors.go\<close>, \<open>reserver.go\<close>) is a ledger in memory with atomic counters, and the interfaces
  \<open>Reserver\<close> and \<open>Reservation\<close>.  Four more ledgers implement the interfaces: Redis with Lua
  scripts (\<open>adapters/redis\<close>), PostgreSQL (\<open>adapters/postgres\<close>), prepaid wallets in PostgreSQL
  (\<open>nexssflow/wallet.go\<close>) and a record per tenant in a key-value store with an atomic update
  (\<open>nexssflow/storage_backend.go\<close>).  Their clients are hooks and middlewares that reserve,
  run an action, and commit or release: the kernel guard (\<open>adapters/kernel/guard.go\<close>), the
  dynamic guard, which reads the estimate from the input (\<open>nexssflow/dynamic_guard.go\<close>,
  \<open>nexssflow/estimate.go\<close>), and the durable quota middleware, which picks the tenant's
  ledger for each request (\<open>nexssflow/postgres.go\<close>).  The Flow bundle of
  \<open>nexssflow/library.go\<close> reads an options block, checks it, opens one of the backends and
  offers modifiers and a report over it.  \<open>testkit/contract.go\<close> is a scenario that every
  ledger must pass.

  \<^bold>\<open>Where each part is.\<close>
  \<^item> \<open>Prelude\<close>: words, lists, sums over lists and maps; the collections the proofs use.
  \<^item> \<open>GoStd\<close>, \<open>GoConf\<close>, \<open>Float64\<close>, \<open>Json\<close>, \<open>Sha256\<close>: what the code uses of Go's standard
    library (\<open>strconv\<close>, \<open>strings\<close>, \<open>os.ExpandEnv\<close>, \<open>time.ParseDuration\<close>, \<open>float64\<close>,
    \<open>encoding/json\<close> values, \<open>crypto/sha256\<close>).
  \<^item> \<open>Errors\<close> (\<open>errors.go\<close>): errors as a tree, \<open>errors.Is\<close>, contexts.
  \<^item> \<open>Currency\<close>, \<open>Money\<close> (\<open>currency.go\<close>): codes, their text and JSON forms, \<open>Micro\<close>, \<open>ToMicro\<close>.
  \<^item> \<open>Reserver\<close> (\<open>entry.go\<close>, \<open>reserver.go\<close>, \<open>testkit/contract.go\<close>): events, the interface as
    a record of methods, the contract test, and the contract itself as two locales.
  \<^item> \<open>LocalLedger\<close>, \<open>LocalSpec\<close>, \<open>LocalConcurrency\<close> (\<open>ledger.go\<close>, \<open>reservation.go\<close>): the
    operations one at a time; the abstract budget, the audit ring and the swap loop; and
    goroutines that share the ledger, one atomic access per step.
  \<^item> \<open>Estimate\<close> (\<open>nexssflow/estimate.go\<close>): paths into the input and the numbers found there.
  \<^item> \<open>Guard\<close> (\<open>adapters/kernel/guard.go\<close>, \<open>nexssflow/dynamic_guard.go\<close>): the hooks as
    functions on any ledger of the contract.
  \<^item> \<open>Report\<close> (\<open>nexssflow/report.go\<close>): the report and record actions.
  \<^item> \<open>Backend\<close>: what the four durable ledgers share.
  \<^item> \<open>Postgres\<close>, \<open>PostgresSpec\<close> (\<open>adapters/postgres/ledger.go\<close>): tables as maps and lists, each
    SQL statement a function on them, each method a sequence of calls that can fail.
  \<^item> \<open>PgConcurrent\<close> (the same file): clients of one scope, one statement per step, with the row
    locks of their transactions; the calls of \<open>Postgres\<close> are runs of these steps.
  \<^item> \<open>Redis\<close>, \<open>RedisLemmas\<close>, \<open>RedisQuiet\<close>, \<open>RedisSpec\<close> (\<open>adapters/redis/ledger.go\<close>): the three Lua
    scripts on the keys, with the numbers of Lua.
  \<^item> \<open>Wallet\<close>, \<open>WalletLemmas\<close>, \<open>WalletQuiet\<close>, \<open>WalletSpec\<close> (\<open>nexssflow/wallet.go\<close>).
  \<^item> \<open>Durable\<close>, \<open>DurableLemmas\<close>, \<open>DurableSpec\<close> (\<open>nexssflow/postgres.go\<close>): identity, monthly
    scopes, the middleware.
  \<^item> \<open>Runtime\<close>, \<open>RuntimeLemmas\<close>, \<open>RuntimeQuiet\<close>, \<open>RuntimeCalls\<close>, \<open>RuntimeSpec\<close>
    (\<open>nexssflow/storage_backend.go\<close>): the tenant's record, its JSON form, the callbacks of the
    atomic update, the ledger on top, \<open>SetRuntimeBudget\<close> and the middleware.
  \<^item> \<open>Agreement\<close>, \<open>BackendsAgree\<close>: clients of \<open>Reserver\<close>, and the agreement of all ledgers.
  \<^item> \<open>Settings\<close>, \<open>SettingsSpec\<close> (\<open>nexssflow/library.go\<close> and the settings parts of
    \<open>nexssflow/postgres.go\<close>, \<open>nexssflow/wallet.go\<close>, \<open>nexssflow/storage_backend.go\<close>).

  \<^bold>\<open>State and errors.\<close>  An operation takes the state and returns its result with the new
  state; a Go error is \<open>Inl\<close> or \<open>Some\<close> of a \<open>gerr\<close>, so every early return is a branch.
  \<open>int64\<close> is a 64-bit word throughout.  The state of a durable ledger is the record
  \<open>backend\<close>: \<open>be_data\<close> what the server stores, \<open>be_now\<close> its clock, \<open>be_outcomes\<close> what happens
  to the coming calls (fine, failed, or done with the answer lost), \<open>be_random\<close> the random
  source, \<open>be_objs\<close> the reservation structs of the client.  A reservation is a handle, an
  index into \<open>be_objs\<close> (or \<open>ls_reservations\<close> for the local ledger), so two variables that
  hold the same pointer share one \<open>done\<close> flag.  Theorems about failures quantify over all
  states, hence over all lists of outcomes and all clocks.  After a lost answer the server
  can hold a reservation that no client knows, so the contracts leave lost answers out
  (\<open>no_lost\<close>); the theorems on limits, on the books and on retries cover them.

  \<^bold>\<open>Interfaces.\<close>  \<open>reserver_contract\<close> is what a client may rely on although calls fail and
  leases expire; \<open>prompt_reserver\<close> extends it by what a backend does when nothing fails.  Both
  are interpreted on the local ledger (\<open>local\<close>, \<open>local_prompt\<close>), PostgreSQL (\<open>pg\<close>, \<open>pg_prompt\<close>),
  wallets (\<open>wallet\<close>, \<open>wallet_prompt\<close>) and Redis (\<open>redis\<close>, \<open>redis_prompt\<close>).  The store of the
  runtime budget belongs to Flow and is not in the repository; its documented atomicity is the
  locale \<open>atomic_kv\<close> (\<open>prompt_kv\<close> when it does not fail), and sublocale declarations give the
  contract for the runtime budget on every such store.  Two stores, one in memory and one
  that fails as it likes, interpret them.  The guards and the middleware are proved once,
  inside the contract.
  \<open>isolated_reserver\<close> extends the prompt contract by frame laws: a call touches no reservation
  but its own.  \<open>Agreement\<close> states it, with clients that make any sequence of calls, and proves
  inside it that the client's answers are those of an abstract budget; \<open>BackendsAgree\<close> interprets it on
  all five ledgers (\<open>pg_isolated\<close>, \<open>wallet_isolated\<close>, \<open>redis_isolated\<close>, \<open>runtime_isolated\<close>, and
  \<open>local_isolated\<close> in \<open>Agreement\<close>), so all of them agree (\<open>backends_agree\<close>).

  \<^bold>\<open>What the lemmas show.\<close>  Safety: the limit is kept, money is charged at most once and is not
  lost, whatever fails (\<open>concurrent_limit\<close>, \<open>pg_limit_kept\<close>, \<open>pg_concurrent_limit\<close>, \<open>redis_limit_kept\<close>,
  \<open>wallet_books_balance\<close>, \<open>runtime_limit_kept\<close>, the \<open>charged_at_most_once\<close> theorems,
  \<open>monthly_request_frame\<close>, \<open>runtime_hold_persists\<close>); a failed action costs nothing and a
  successful one its actual cost (\<open>Guard\<close>, \<open>DurableSpec\<close>, \<open>RuntimeSpec\<close>).  Refinement: the local
  ledger computes an abstract budget of integers.  Liveness: expired leases are freed.
  Termination: the swap loop.  The settings: what passes the checks is well-formed, and what
  the operator configured is what requests meet (\<open>SettingsSpec\<close>).  Some theorems show where
  the code does not keep its word: an expired Redis key that is lost leaks its amount, an
  empty Redis reservation cannot be settled, guard events collide in PostgreSQL, an unlimited
  PostgreSQL scope overflows, a \<open>Reserve\<close> and a \<open>Commit\<close> lock their rows in opposite orders
  (\<open>pg_deadlock_iff\<close>), a result that reports its own cost is replaced by an error.

  \<^bold>\<open>Bounds and fuel.\<close>  Nothing runs on fuel: loops are structural recursions, and the compare
  and swap loop recurses on the list of values that other goroutines put in its way, of any
  length.  The audit ring holds 1024 events, as in the code.  A Redis reclaim frees at most
  100 reservations; \<open>redis_backlog_freed\<close> says how many calls a longer backlog takes.  Lua
  counts in doubles, so the Redis theorems assume totals of at most \<open>redis_cap\<close> (2 to the 52),
  below which each addition is exact; the other ledgers have the cap of \<open>int64\<close>.
  \<open>micro_roundtrip\<close> needs amounts below 2 to the 51 micros for the same reason, where the
  code allows more.

  \<^bold>\<open>Not modelled.\<close>  Code that is not in the repository is an argument: the value of
  \<open>sql.Open\<close> and of opening SQLite storage, Flow's decoding of the options block into strings,
  Flow's and the kernel's action runners (an action is a function from the input and the
  state), the key-value store.  JSON is modelled from the parsed value on, not from the
  characters.  Apart from \<open>PgConcurrent\<close>, a database transaction is one step for other
  clients, and a Lua script or a callback of the atomic update is one step because the server
  runs it so; \<open>EnsureSchema\<close>, which can change a limit, is not among the steps of
  \<open>PgConcurrent\<close>.  The transactions of wallets lock the row of the wallet in their first
  statement, so one waits for the whole of another.  Connection pools and their limits are
  not in the model.  Time stands
  still within one call and may pass between calls.  In a quiet world (the \<open>_quiet\<close> predicates)
  the random source never repeats itself, an idealisation of the sixteen bytes the code
  draws: the theorems on limits and failures do not need it.  Logging, shutdown hooks, \<open>init\<close> and
  the registration with Flow have no state that the code reads back.
\<close>

end
